(* ===== verification/Redis_Prelude.thy ===== *)
theory Redis_Prelude
  imports Main "HOL-Library.Word" "HOL-Library.Monad_Syntax" "HOL-Library.Multiset"
begin

unbundle bit_operations_syntax

text \<open>
  Shared vocabulary of the development: the machine types of the C code, blocks of memory as
  byte lists with checked access, the little-endian image of an integer, and the list and
  option lemmas the components share.

  A block of memory is a list of bytes. Reading or writing outside the block is undefined
  behaviour in C, so the accessors return \<open>None\<close> there; a theorem that an operation returns
  \<open>Some\<close> is a theorem that it never leaves its block. \<open>realloc\<close> gives indeterminate contents
  to the bytes it adds, so the model takes them from an arbitrary function \<open>junk\<close>.
\<close>

section \<open>Types and collections\<close>

type_synonym byte = "8 word"
type_synonym u16 = "16 word"
type_synonym u32 = "32 word"
type_synonym u64 = "64 word"
type_synonym mem = "byte list"

named_theorems mem_simps \<open>reading back what was written to a block\<close>
named_theorems codec_simps \<open>little-endian encodings\<close>

section \<open>Option monad\<close>

lemma bind_Some_conv: "(x \<bind> f = Some y) \<longleftrightarrow> (\<exists>a. x = Some a \<and> f a = Some y)"
  by (cases x) auto

lemma option_eqI: "(\<And>v. x = Some v \<longleftrightarrow> y = Some v) \<Longrightarrow> x = y"
  by (cases x; cases y) auto

section \<open>Lists\<close>

lemma find_SomeD: "find P xs = Some x \<Longrightarrow> x \<in> set xs \<and> P x"
  by (induction xs) (auto split: if_splits)

lemma sorted_wrt_less_insert:
  fixes x :: "'a :: linorder"
  assumes "sorted_wrt (<) (xs @ ys)" and "\<forall>a\<in>set xs. a < x" and "\<forall>b\<in>set ys. x < b"
  shows "sorted_wrt (<) (xs @ x # ys)"
  using assms by (auto simp: sorted_wrt_append)

lemma sorted_wrt_less_remove:
  "sorted_wrt (<) (xs @ x # ys) \<Longrightarrow> sorted_wrt (<) (xs @ ys)"
  by (auto simp: sorted_wrt_append)

lemma sorted_wrt_less_nth_mono:
  fixes xs :: "'a :: linorder list"
  shows "sorted_wrt (<) xs \<Longrightarrow> i \<le> j \<Longrightarrow> j < length xs \<Longrightarrow> xs ! i \<le> xs ! j"
  by (metis le_neq_implies_less order_le_less sorted_wrt_iff_nth_less)

lemma set_take_iff: "a \<in> set (take n xs) \<longleftrightarrow> (\<exists>i < min n (length xs). a = xs ! i)"
  by (metis in_set_conv_nth length_take min.commute min_less_iff_conj nth_take)

lemma set_drop_iff: "a \<in> set (drop n xs) \<longleftrightarrow> (\<exists>i. n \<le> i \<and> i < length xs \<and> a = xs ! i)"
proof
  assume "a \<in> set (drop n xs)"
  then obtain j where "j < length (drop n xs)" "a = drop n xs ! j"
    by (auto simp: in_set_conv_nth)
  then show "\<exists>i. n \<le> i \<and> i < length xs \<and> a = xs ! i"
    by (intro exI [of _ "n + j"]) auto
next
  assume "\<exists>i. n \<le> i \<and> i < length xs \<and> a = xs ! i"
  then obtain i where "n \<le> i" "i < length xs" "a = xs ! i" by auto
  then have "drop n xs ! (i - n) = a" and "i - n < length (drop n xs)" by auto
  then show "a \<in> set (drop n xs)" by (metis nth_mem)
qed

section \<open>Little-endian integers\<close>

text \<open>
  \<open>le_enc n x\<close> is the image of \<open>x\<close> in \<open>n\<close> bytes, least significant first, which is what a
  store through an \<open>intN_t\<close> pointer leaves in memory on a little-endian host; the value is
  taken modulo \<open>2 ^ (8 * n)\<close>, as the conversion in the store does. \<open>le_dec\<close> reads it back
  unsigned, \<open>le_sdec\<close> as two's complement.
\<close>

fun le_enc :: "nat \<Rightarrow> int \<Rightarrow> byte list" where
  "le_enc 0 x = []"
| "le_enc (Suc n) x = word_of_int x # le_enc n (x div 256)"

fun le_dec :: "byte list \<Rightarrow> int" where
  "le_dec [] = 0"
| "le_dec (b # bs) = uint b + 256 * le_dec bs"

definition le_sdec :: "byte list \<Rightarrow> int" where
  "le_sdec bs = (let u = le_dec bs; m = 2 ^ (8 * length bs)
                 in if 2 * u < m then u else u - m)"

definition int_fits :: "nat \<Rightarrow> int \<Rightarrow> bool" where
  "int_fits n x \<longleftrightarrow> - (2 ^ (8 * n - 1)) \<le> x \<and> x < 2 ^ (8 * n - 1)"

lemma length_le_enc [simp, codec_simps]: "length (le_enc n x) = n"
  by (induction n arbitrary: x) auto

lemma le_dec_nonneg [simp]: "0 \<le> le_dec bs"
  by (induction bs) auto

lemma le_dec_bound: "le_dec bs < 2 ^ (8 * length bs)"
proof (induction bs)
  case (Cons b bs)
  have "uint b < 256" using uint_lt2p [of b] by simp
  moreover have "le_dec bs + 1 \<le> 2 ^ (8 * length bs)" using Cons by simp
  ultimately have "uint b + 256 * le_dec bs < 256 * 2 ^ (8 * length bs)" by simp
  then show ?case by (simp add: power_add)
qed simp

lemma le_dec_enc [codec_simps]: "le_dec (le_enc n x) = x mod 2 ^ (8 * n)"
proof (induction n arbitrary: x)
  case (Suc n)
  have "x mod (256 * 2 ^ (8 * n)) = 256 * (x div 256 mod 2 ^ (8 * n)) + x mod 256"
    by (rule zmod_zmult2_eq) simp
  then show ?case using Suc by (simp add: uint_word_of_int power_add)
qed simp

lemma le_enc_dec [codec_simps]: "le_enc (length bs) (le_dec bs) = bs"
proof (induction bs)
  case (Cons b bs)
  have b: "0 \<le> uint b" "uint b < 256" using uint_lt2p [of b] by auto
  have "(word_of_int (uint b + 256 * le_dec bs) :: byte) = b"
    using b by (simp only: word_uint_eq_iff uint_word_of_int) simp
  moreover have "(uint b + 256 * le_dec bs) div 256 = le_dec bs"
    using b by simp
  ultimately show ?case using Cons by (simp only: list.size le_enc.simps le_dec.simps add_0_right add_Suc_right)
qed simp

lemma le_enc_dec_n: "length bs = n \<Longrightarrow> le_enc n (le_dec bs) = bs"
  using le_enc_dec by blast

lemma le_enc_mod: "le_enc n (x mod 2 ^ (8 * n)) = le_enc n x"
  using le_enc_dec_n [of "le_enc n x" n] by (simp add: le_dec_enc)

lemma le_enc_sdec [codec_simps]: "le_enc (length bs) (le_sdec bs) = bs"
proof -
  have "le_sdec bs mod 2 ^ (8 * length bs) = le_dec bs mod 2 ^ (8 * length bs)"
    by (simp add: le_sdec_def Let_def)
  also have "\<dots> = le_dec bs"
    using le_dec_bound [of bs] by (intro mod_pos_pos_trivial) auto
  finally have "le_enc (length bs) (le_sdec bs) = le_enc (length bs) (le_dec bs)"
    by (metis le_enc_mod)
  then show ?thesis by (simp add: le_enc_dec)
qed

lemma int_fits_mono: "int_fits m x \<Longrightarrow> m \<le> n \<Longrightarrow> int_fits n x"
proof -
  assume "int_fits m x" and "m \<le> n"
  moreover from this(2) have "(2::int) ^ (8 * m - 1) \<le> 2 ^ (8 * n - 1)"
    by (intro power_increasing) auto
  ultimately show ?thesis unfolding int_fits_def by linarith
qed

lemma le_sdec_enc [codec_simps]:
  assumes "0 < n" and "int_fits n x"
  shows "le_sdec (le_enc n x) = x"
proof -
  let ?m = "(2::int) ^ (8 * n)" and ?h = "(2::int) ^ (8 * n - 1)"
  have m: "?m = 2 * ?h" using \<open>0 < n\<close> by (simp add: power_eq_if)
  have b: "- ?h \<le> x" "x < ?h" using assms(2) by (auto simp: int_fits_def)
  show ?thesis
  proof (cases "0 \<le> x")
    case True
    then have "x mod ?m = x" using b m by (intro mod_pos_pos_trivial) auto
    then show ?thesis using b m by (simp add: le_sdec_def le_dec_enc Let_def)
  next
    case False
    then have "x mod ?m = x + ?m"
      using b m by (intro int_mod_pos_eq [of _ _ "-1"]) auto
    then show ?thesis using b m False by (simp add: le_sdec_def le_dec_enc Let_def)
  qed
qed

lemma int_fits_le_sdec:
  assumes "bs \<noteq> []"
  shows "int_fits (length bs) (le_sdec bs)"
proof -
  let ?m = "(2::int) ^ (8 * length bs)" and ?h = "(2::int) ^ (8 * length bs - 1)"
  have m: "?m = 2 * ?h" using assms by (cases bs) (simp_all add: power_eq_if)
  have h: "0 < ?h" by simp
  have u: "0 \<le> le_dec bs" "le_dec bs < ?m" by (simp_all add: le_dec_bound)
  show ?thesis
  proof (cases "2 * le_dec bs < ?m")
    case True
    then have "le_sdec bs = le_dec bs" by (simp add: le_sdec_def Let_def)
    moreover have "- ?h \<le> le_dec bs" "le_dec bs < ?h" using True u h m by linarith+
    ultimately show ?thesis by (simp add: int_fits_def)
  next
    case False
    then have "le_sdec bs = le_dec bs - ?m" by (simp add: le_sdec_def Let_def)
    moreover have "- ?h \<le> le_dec bs - ?m" "le_dec bs - ?m < ?h" using False u h m by linarith+
    ultimately show ?thesis by (simp add: int_fits_def)
  qed
qed

section \<open>Memory blocks\<close>

definition mem_read :: "mem \<Rightarrow> nat \<Rightarrow> nat \<Rightarrow> byte list option" where
  "mem_read m off n = (if off + n \<le> length m then Some (take n (drop off m)) else None)"

definition mem_write :: "mem \<Rightarrow> nat \<Rightarrow> byte list \<Rightarrow> mem option" where
  "mem_write m off bs =
     (if off + length bs \<le> length m
      then Some (take off m @ bs @ drop (off + length bs) m) else None)"

definition mem_move :: "mem \<Rightarrow> nat \<Rightarrow> nat \<Rightarrow> nat \<Rightarrow> mem option" where
  \<comment> \<open>\<open>memmove (m + dst, m + src, n)\<close>: the source is read before anything is written\<close>
  "mem_move m dst src n = (mem_read m src n \<bind> mem_write m dst)"

definition mem_realloc :: "(nat \<Rightarrow> byte) \<Rightarrow> mem \<Rightarrow> nat \<Rightarrow> mem" where
  \<comment> \<open>\<open>realloc\<close>: the common prefix is kept, added bytes are indeterminate\<close>
  "mem_realloc junk m n = take n m @ map junk [length m ..< n]"

lemma length_mem_realloc [simp, mem_simps]: "length (mem_realloc junk m n) = n"
  by (simp add: mem_realloc_def)

lemma take_mem_realloc [mem_simps]: "k \<le> n \<Longrightarrow> k \<le> length m \<Longrightarrow> take k (mem_realloc junk m n) = take k m"
  by (simp add: mem_realloc_def)

lemma mem_write_length [mem_simps]: "mem_write m off bs = Some m' \<Longrightarrow> length m' = length m"
  by (auto simp: mem_write_def split: if_splits)

lemma mem_write_ok [mem_simps]:
  "off + length bs \<le> length m \<Longrightarrow> mem_write m off bs = Some (take off m @ bs @ drop (off + length bs) m)"
  by (simp add: mem_write_def)

lemma mem_move_ok [mem_simps]:
  "src + n \<le> length m \<Longrightarrow> dst + n \<le> length m \<Longrightarrow>
   mem_move m dst src n = Some (take dst m @ take n (drop src m) @ drop (dst + n) m)"
  by (simp add: mem_move_def mem_read_def mem_write_def)

lemma mem_read_ok [mem_simps]:
  "off + n \<le> length m \<Longrightarrow> mem_read m off n = Some (take n (drop off m))"
  by (simp add: mem_read_def)

section \<open>Arrays of fixed-width cells\<close>

text \<open>
  An array of integers of width \<open>w\<close> in a block is the concatenation of their images. The lemmas
  say which bytes a cell occupies, and how reading, overwriting, shifting and appending cells act
  on the list of values.
\<close>

definition cells :: "nat \<Rightarrow> int list \<Rightarrow> mem" where
  "cells w xs = concat (map (le_enc w) xs)"

lemma cells_simps [simp]:
  "cells w [] = []" "cells w (x # xs) = le_enc w x @ cells w xs"
  "cells w (xs @ ys) = cells w xs @ cells w ys"
  by (simp_all add: cells_def)

lemma length_cells [simp]: "length (cells w xs) = w * length xs"
  by (induction xs) auto

lemma take_cells [mem_simps]: "take (w * n) (cells w xs) = cells w (take n xs)"
proof (induction xs arbitrary: n)
  case (Cons x xs)
  then show ?case by (cases n) auto
qed simp

lemma drop_cells [mem_simps]: "drop (w * n) (cells w xs) = cells w (drop n xs)"
proof (induction xs arbitrary: n)
  case (Cons x xs)
  then show ?case by (cases n) auto
qed simp

lemma read_cell [mem_simps]:
  assumes "i < length xs"
  shows "mem_read (cells w xs @ rest) (w * i) w = Some (le_enc w (xs ! i))"
proof -
  have "w * i + w \<le> w * length xs"
    using assms by (metis Suc_leI mult_Suc_right mult_le_mono2 add.commute)
  moreover have "drop (w * i) (cells w xs) = le_enc w (xs ! i) @ cells w (drop (Suc i) xs)"
    using assms by (simp add: drop_cells Cons_nth_drop_Suc [symmetric])
  ultimately show ?thesis by (simp add: mem_read_def)
qed

lemma write_cell [mem_simps]:
  assumes "i < length xs"
  shows "mem_write (cells w xs @ rest) (w * i) (le_enc w v) = Some (cells w (xs[i := v]) @ rest)"
proof -
  have le: "w * i + w \<le> w * length xs"
    using assms by (metis Suc_leI mult_Suc_right mult_le_mono2 add.commute)
  have d: "drop (w * i + w) (cells w xs) = cells w (drop (Suc i) xs)"
    using drop_cells [of w "Suc i" xs] by (simp add: add.commute)
  have "mem_write (cells w xs @ rest) (w * i) (le_enc w v) =
        Some (cells w (take i xs) @ le_enc w v @ cells w (drop (Suc i) xs) @ rest)"
    using le d assms by (simp add: mem_write_def take_cells)
  then show ?thesis using assms by (simp add: upd_conv_take_nth_drop)
qed

lemma append_cell [mem_simps]:
  "length rest = w \<Longrightarrow>
   mem_write (cells w xs @ rest) (w * length xs) (le_enc w v) = Some (cells w (xs @ [v]))"
  by (simp add: mem_write_def)

lemma prepend_cell [mem_simps]:
  "length pre = w \<Longrightarrow> mem_write (pre @ cells w xs) 0 (le_enc w v) = Some (cells w (v # xs))"
  by (simp add: mem_write_def)

lemma shift_cells_right [mem_simps]:
  assumes "i < length xs" and "length rest = w"
  shows "mem_move (cells w xs @ rest) (w * (i + 1)) (w * i) (w * (length xs - i)) =
         Some (cells w (take (i + 1) xs @ drop i xs))"
proof -
  let ?n = "length xs"
  have n: "w * (i + 1) + w * (?n - i) = w * (?n + 1)"
    using assms(1) by (metis Suc_eq_plus1 add_Suc distrib_left le_add_diff_inverse less_imp_le)
  have m: "w * i + w * (?n - i) = w * ?n"
    using assms(1) by (metis distrib_left le_add_diff_inverse less_imp_le)
  have a: "take (w * (i + 1)) (cells w xs @ rest) = cells w (take (i + 1) xs)"
    using assms(1) by (simp add: take_cells [symmetric]) (metis Suc_leI mult_Suc_right mult_le_mono2 diff_is_0_eq)
  have b: "take (w * (?n - i)) (drop (w * i) (cells w xs @ rest)) = cells w (drop i xs)"
    using assms m by (simp add: drop_cells)
  have c: "drop (w * (?n + 1)) (cells w xs @ rest) = []" using assms by simp
  have "mem_move (cells w xs @ rest) (w * (i + 1)) (w * i) (w * (?n - i)) =
        Some (take (w * (i + 1)) (cells w xs @ rest) @
              take (w * (?n - i)) (drop (w * i) (cells w xs @ rest)) @
              drop (w * (?n + 1)) (cells w xs @ rest))"
    using mem_move_ok [of "w * i" "w * (?n - i)" "cells w xs @ rest" "w * (i + 1)"] n m assms
    by (simp add: distrib_left)
  then show ?thesis unfolding a b c by simp
qed

lemma shift_cells_left [mem_simps]:
  assumes "i < length xs"
  shows "\<exists>rest. mem_move (cells w xs) (w * i) (w * (i + 1)) (w * (length xs - (i + 1))) =
           Some (cells w (take i xs @ drop (i + 1) xs) @ rest) \<and> length rest = w"
proof -
  let ?n = "length xs"
  have m: "w * (i + 1) + w * (?n - (i + 1)) = w * ?n"
    using assms by (metis distrib_left le_add_diff_inverse Suc_leI Suc_eq_plus1)
  have l: "w * i + w * (?n - (i + 1)) + w = w * ?n" using m by (simp add: distrib_left)
  have b: "take (w * (?n - (i + 1))) (drop (w * (i + 1)) (cells w xs)) = cells w (drop (i + 1) xs)"
    unfolding drop_cells by simp
  have "mem_move (cells w xs) (w * i) (w * (i + 1)) (w * (?n - (i + 1))) =
        Some (take (w * i) (cells w xs) @ take (w * (?n - (i + 1))) (drop (w * (i + 1)) (cells w xs)) @
              drop (w * i + w * (?n - (i + 1))) (cells w xs))"
    by (rule mem_move_ok) (use m l in auto)
  also have "\<dots> = Some (cells w (take i xs @ drop (i + 1) xs) @
              drop (w * i + w * (?n - (i + 1))) (cells w xs))"
    unfolding b by (simp add: take_cells)
  finally show ?thesis using l by (intro exI) auto
qed

definition cell_values :: "nat \<Rightarrow> nat \<Rightarrow> mem \<Rightarrow> int list" where
  "cell_values w n m = map (\<lambda>i. le_sdec (take w (drop (w * i) m))) [0 ..< n]"

lemma length_cell_values [simp]: "length (cell_values w n m) = n"
  by (simp add: cell_values_def)

lemma cells_cell_values [mem_simps]:
  "length m = w * n \<Longrightarrow> cells w (cell_values w n m) = m"
proof (induction n arbitrary: m)
  case (Suc n)
  have "cell_values w (Suc n) m = le_sdec (take w m) # cell_values w n (drop w m)"
    by (simp add: cell_values_def map_upt_Suc add.commute del: upt_Suc)
  moreover have "le_enc w (le_sdec (take w m)) = take w m"
    using le_enc_sdec [of "take w m"] Suc.prems by simp
  ultimately show ?case using Suc by simp
qed (simp add: cell_values_def)

lemma cell_values_cells [mem_simps]:
  assumes "0 < w" and "\<forall>x\<in>set xs. int_fits w x"
  shows "cell_values w (length xs) (cells w xs) = xs"
proof (rule nth_equalityI)
  fix i assume i: "i < length (cell_values w (length xs) (cells w xs))"
  then have "mem_read (cells w xs @ []) (w * i) w = Some (le_enc w (xs ! i))"
    by (intro read_cell) simp
  then have "take w (drop (w * i) (cells w xs)) = le_enc w (xs ! i)"
    by (simp add: mem_read_def split: if_splits)
  then show "cell_values w (length xs) (cells w xs) ! i = xs ! i"
    using i assms by (simp add: cell_values_def le_sdec_enc)
qed simp

lemma int_fits_cell_values:
  assumes "0 < w" and "length m = w * n" and "x \<in> set (cell_values w n m)"
  shows "int_fits w x"
proof -
  obtain i where i: "i < n" "x = le_sdec (take w (drop (w * i) m))"
    using assms(3) by (auto simp: cell_values_def)
  have "w * i + w \<le> length m"
    using i(1) assms(2) by (metis Suc_leI mult_Suc_right mult_le_mono2 add.commute)
  then have "length (take w (drop (w * i) m)) = w" by simp
  then show ?thesis using int_fits_le_sdec assms(1) i(2)
    by (metis length_greater_0_conv)
qed

lemma cells_inj:
  assumes "cells w xs = cells w ys" and "0 < w" and "length xs = length ys"
    and "\<forall>x\<in>set xs. int_fits w x" and "\<forall>y\<in>set ys. int_fits w y"
  shows "xs = ys"
  using assms(3,1,4,5)
proof (induction xs ys rule: list_induct2)
  case (Cons x xs y ys)
  then have "le_enc w x = le_enc w y" and "cells w xs = cells w ys" by auto
  moreover from this(1) have "x = y" using Cons.prems \<open>0 < w\<close> by (metis le_sdec_enc list.set_intros(1))
  ultimately show ?case using Cons by auto
qed simp

end
