(* ===== verification/Intset.thy ===== *)
theory Intset
  imports Redis_Prelude
begin

text \<open>
  Integer sets (\<open>intset.c\<close>): a sorted array of integers kept in one block, all stored with
  the smallest of the three widths that fits every element. The model works on the bytes of
  the block. The macros \<open>memrev*ifbe\<close> and \<open>intrev32ifbe\<close> are those of a little-endian
  host, where they do nothing. Sizes computed in \<open>uint32_t\<close> wrap, which is written out.
\<close>

section \<open>Data and operations\<close>

record intset =
  encoding :: nat
  is_length :: nat
  contents :: mem

definition INTSET_ENC_INT16 :: nat where "INTSET_ENC_INT16 = 2"
definition INTSET_ENC_INT32 :: nat where "INTSET_ENC_INT32 = 4"
definition INTSET_ENC_INT64 :: nat where "INTSET_ENC_INT64 = 8"

lemmas enc_defs = INTSET_ENC_INT16_def INTSET_ENC_INT32_def INTSET_ENC_INT64_def

definition intsetValueEncoding :: "int \<Rightarrow> nat" where
  "intsetValueEncoding v =
     (if v < - (2 ^ 31) \<or> v > 2 ^ 31 - 1 then INTSET_ENC_INT64
      else if v < - (2 ^ 15) \<or> v > 2 ^ 15 - 1 then INTSET_ENC_INT32
      else INTSET_ENC_INT16)"

definition intsetGetEncoded :: "intset \<Rightarrow> nat \<Rightarrow> nat \<Rightarrow> int option" where
  "intsetGetEncoded is pos enc =
     (if enc = INTSET_ENC_INT64 then map_option le_sdec (mem_read (contents is) (8 * pos) 8)
      else if enc = INTSET_ENC_INT32 then map_option le_sdec (mem_read (contents is) (4 * pos) 4)
      else map_option le_sdec (mem_read (contents is) (2 * pos) 2))"

definition intsetGet' :: "intset \<Rightarrow> nat \<Rightarrow> int option" where
  \<comment> \<open>the static \<open>_intsetGet\<close>\<close>
  "intsetGet' is pos = intsetGetEncoded is pos (encoding is)"

definition intsetSet :: "intset \<Rightarrow> nat \<Rightarrow> int \<Rightarrow> intset option" where
  "intsetSet is pos value =
     map_option (\<lambda>c. is\<lparr>contents := c\<rparr>)
       (if encoding is = INTSET_ENC_INT64 then mem_write (contents is) (8 * pos) (le_enc 8 value)
        else if encoding is = INTSET_ENC_INT32 then mem_write (contents is) (4 * pos) (le_enc 4 value)
        else mem_write (contents is) (2 * pos) (le_enc 2 value))"

definition intsetNew :: intset where
  "intsetNew = \<lparr>encoding = INTSET_ENC_INT16, is_length = 0, contents = []\<rparr>"

definition intsetResize :: "(nat \<Rightarrow> byte) \<Rightarrow> intset \<Rightarrow> nat \<Rightarrow> intset" where
  "intsetResize junk is len =
     is\<lparr>contents := mem_realloc junk (contents is) (len * encoding is mod 2 ^ 32)\<rparr>"

text \<open>The loop of \<open>intsetSearch\<close>; the result is \<open>(min, mid, cur)\<close> when it is left.\<close>

partial_function (option) intsetSearch_loop ::
  "intset \<Rightarrow> int \<Rightarrow> int \<Rightarrow> int \<Rightarrow> int \<Rightarrow> int \<Rightarrow> (int \<times> int \<times> int) option" where
  "intsetSearch_loop is value imin imax mid cur =
     (if imax \<ge> imin then
        (let mid = (imin + imax) mod 2 ^ 32 div 2 in
         Option.bind (intsetGet' is (nat mid)) (\<lambda>cur.
           if value > cur then intsetSearch_loop is value (mid + 1) imax mid cur
           else if value < cur then intsetSearch_loop is value imin (mid - 1) mid cur
           else Some (imin, mid, cur)))
      else Some (imin, mid, cur))"

definition intsetSearch :: "intset \<Rightarrow> int \<Rightarrow> (bool \<times> nat) option" where
  "intsetSearch is value =
     (if is_length is = 0 then Some (False, 0)
      else do {
        hi \<leftarrow> intsetGet' is (is_length is - 1);
        if value > hi then Some (False, is_length is)
        else do {
          lo \<leftarrow> intsetGet' is 0;
          if value < lo then Some (False, 0)
          else do {
            (imin, mid, cur) \<leftarrow> intsetSearch_loop is value 0 (int (is_length is) - 1) (-1) (-1);
            if value = cur then Some (True, nat mid) else Some (False, nat imin)
          }
        }
      })"

fun intsetUpgrade_loop :: "intset \<Rightarrow> nat \<Rightarrow> nat \<Rightarrow> nat \<Rightarrow> intset option" where
  "intsetUpgrade_loop is curenc prepend 0 = Some is"
| "intsetUpgrade_loop is curenc prepend (Suc len) =
     do {
       v \<leftarrow> intsetGetEncoded is len curenc;
       is' \<leftarrow> intsetSet is (len + prepend) v;
       intsetUpgrade_loop is' curenc prepend len
     }"

definition intsetUpgradeAndAdd :: "(nat \<Rightarrow> byte) \<Rightarrow> intset \<Rightarrow> int \<Rightarrow> intset option" where
  "intsetUpgradeAndAdd junk is value =
     (let curenc = encoding is;
          newenc = intsetValueEncoding value;
          prepend = (if value < 0 then 1 else 0);
          is1 = is\<lparr>encoding := newenc\<rparr>;
          is2 = intsetResize junk is1 (is_length is1 + 1)
      in do {
        is3 \<leftarrow> intsetUpgrade_loop is2 curenc prepend (is_length is);
        is4 \<leftarrow> (if prepend = 1 then intsetSet is3 0 value
                else intsetSet is3 (is_length is3) value);
        Some (is4\<lparr>is_length := is_length is4 + 1\<rparr>)
      })"

definition intsetMoveTail :: "intset \<Rightarrow> nat \<Rightarrow> nat \<Rightarrow> intset option" where
  "intsetMoveTail is from to =
     (let bytes = nat ((int (is_length is) - int from) mod 2 ^ 32);
          w = (if encoding is = INTSET_ENC_INT64 then 8
               else if encoding is = INTSET_ENC_INT32 then 4 else 2)
      in map_option (\<lambda>c. is\<lparr>contents := c\<rparr>)
           (mem_move (contents is) (w * to) (w * from) (bytes * w mod 2 ^ 32)))"

definition intsetAdd :: "(nat \<Rightarrow> byte) \<Rightarrow> intset \<Rightarrow> int \<Rightarrow> (intset \<times> bool) option" where
  "intsetAdd junk is value =
     (let valenc = intsetValueEncoding value in
      if valenc > encoding is then map_option (\<lambda>is'. (is', True)) (intsetUpgradeAndAdd junk is value)
      else do {
        (found, pos) \<leftarrow> intsetSearch is value;
        if found then Some (is, False)
        else do {
          let is1 = intsetResize junk is (is_length is + 1);
          is2 \<leftarrow> (if pos < is_length is1 then intsetMoveTail is1 pos (pos + 1) else Some is1);
          is3 \<leftarrow> intsetSet is2 pos value;
          Some (is3\<lparr>is_length := is_length is3 + 1\<rparr>, True)
        }
      })"

definition intsetRemove :: "(nat \<Rightarrow> byte) \<Rightarrow> intset \<Rightarrow> int \<Rightarrow> (intset \<times> bool) option" where
  "intsetRemove junk is value =
     (let valenc = intsetValueEncoding value in
      if valenc \<le> encoding is then do {
        (found, pos) \<leftarrow> intsetSearch is value;
        if found then do {
          let len = is_length is;
          is1 \<leftarrow> (if pos < len - 1 then intsetMoveTail is (pos + 1) pos else Some is);
          let is2 = intsetResize junk is1 (len - 1);
          Some (is2\<lparr>is_length := len - 1\<rparr>, True)
        }
        else Some (is, False)
      }
      else Some (is, False))"

definition intsetFind :: "intset \<Rightarrow> int \<Rightarrow> bool option" where
  "intsetFind is value =
     (if intsetValueEncoding value \<le> encoding is then map_option fst (intsetSearch is value)
      else Some False)"

definition intsetRandom :: "nat \<Rightarrow> intset \<Rightarrow> int option" where
  \<comment> \<open>\<open>r\<close> is what \<open>rand()\<close> returned; a zero length divides by zero\<close>
  "intsetRandom r is =
     (if is_length is = 0 then None else intsetGet' is (r mod is_length is))"

definition intsetGet :: "intset \<Rightarrow> nat \<Rightarrow> int option option" where
  \<comment> \<open>outer \<open>None\<close>: outside the block; inner \<open>None\<close>: the function returned 0\<close>
  "intsetGet is pos =
     (if pos < is_length is then map_option Some (intsetGet' is pos) else Some None)"

definition intsetLen :: "intset \<Rightarrow> nat" where
  "intsetLen is = is_length is"

definition intsetBlobLen :: "intset \<Rightarrow> nat" where
  "intsetBlobLen is = 8 + is_length is * encoding is mod 2 ^ 32"

section \<open>Representation\<close>

text \<open>
  \<open>intset_elems\<close> reads the array back. A block is well formed when its width is one of the
  three, it has exactly the bytes its header announces, and the values ascend strictly.
\<close>

definition intset_elems :: "intset \<Rightarrow> int list" where
  "intset_elems is =
     cell_values (encoding is) (is_length is) (contents is)"

definition intset_enc_ok :: "nat \<Rightarrow> bool" where
  "intset_enc_ok e \<longleftrightarrow> e \<in> {INTSET_ENC_INT16, INTSET_ENC_INT32, INTSET_ENC_INT64}"

definition intset_wf :: "intset \<Rightarrow> bool" where
  "intset_wf is \<longleftrightarrow>
     intset_enc_ok (encoding is) \<and>
     List.length (contents is) = encoding is * is_length is \<and>
     sorted_wrt (<) (intset_elems is)"

definition intset_rep :: "intset \<Rightarrow> int list \<Rightarrow> bool" where
  "intset_rep is xs \<longleftrightarrow>
     intset_enc_ok (encoding is) \<and> contents is = cells (encoding is) xs \<and>
     is_length is = List.length xs \<and> (\<forall>x\<in>set xs. int_fits (encoding is) x)"

lemma enc_ok_pos [simp]: "intset_enc_ok e \<Longrightarrow> 0 < e"
  by (auto simp: intset_enc_ok_def enc_defs)

lemma intset_rep_elems: "intset_rep is xs \<Longrightarrow> intset_elems is = xs"
  by (simp add: intset_rep_def intset_elems_def cell_values_cells)

lemma intset_wf_rep:
  "intset_wf is \<longleftrightarrow> intset_rep is (intset_elems is) \<and> sorted_wrt (<) (intset_elems is)"
proof
  assume "intset_rep is (intset_elems is) \<and> sorted_wrt (<) (intset_elems is)"
  moreover from this have "List.length (contents is) = encoding is * is_length is"
    by (metis intset_rep_def length_cells)
  ultimately show "intset_wf is" by (simp add: intset_wf_def intset_rep_def)
qed (auto simp: intset_wf_def intset_rep_def intset_elems_def cells_cell_values int_fits_cell_values)

lemma intset_repI:
  "intset_rep is xs \<Longrightarrow> sorted_wrt (<) xs \<Longrightarrow> intset_wf is \<and> intset_elems is = xs"
  using intset_rep_elems by (auto simp: intset_wf_rep)

section \<open>Cells\<close>

lemma intsetGetEncoded_cell:
  assumes "intset_enc_ok e" "contents is = cells e xs @ rest" "i < List.length xs"
    and "int_fits e (xs ! i)"
  shows "intsetGetEncoded is i e = Some (xs ! i)"
proof -
  have "intsetGetEncoded is i e = map_option le_sdec (mem_read (contents is) (e * i) e)"
    using assms(1) by (auto simp: intsetGetEncoded_def intset_enc_ok_def enc_defs)
  then show ?thesis using assms by (simp add: read_cell le_sdec_enc)
qed

lemma intsetGet'_rep:
  "intset_rep is xs \<Longrightarrow> i < List.length xs \<Longrightarrow> intsetGet' is i = Some (xs ! i)"
  unfolding intsetGet'_def
  by (rule intsetGetEncoded_cell [where rest = "[]"]) (auto simp: intset_rep_def)

lemma intsetSet_eq:
  "intset_enc_ok (encoding is) \<Longrightarrow>
   intsetSet is i v =
     map_option (\<lambda>c. is\<lparr>contents := c\<rparr>)
       (mem_write (contents is) (encoding is * i) (le_enc (encoding is) v))"
  by (auto simp: intsetSet_def intset_enc_ok_def enc_defs)

lemma intsetSet_cell:
  assumes "intset_enc_ok (encoding is)" "contents is = cells (encoding is) xs @ rest"
    and "i < List.length xs"
  shows "intsetSet is i v = Some (is\<lparr>contents := cells (encoding is) (xs[i := v]) @ rest\<rparr>)"
  using assms by (simp add: intsetSet_eq write_cell)

section \<open>Binary search\<close>

definition search_result :: "int list \<Rightarrow> int \<Rightarrow> bool \<times> nat \<Rightarrow> bool" where
  "search_result xs v r \<longleftrightarrow>
     (if fst r then snd r < List.length xs \<and> xs ! snd r = v
      else snd r \<le> List.length xs \<and> (\<forall>i < snd r. xs ! i < v) \<and>
           (\<forall>i. snd r \<le> i \<and> i < List.length xs \<longrightarrow> v < xs ! i))"

lemma search_result_mem: "search_result xs v (found, pos) \<Longrightarrow> found \<longleftrightarrow> v \<in> set xs"
  by (auto simp: search_result_def in_set_conv_nth split: if_splits) (metis not_le less_irrefl)

definition search_inv :: "int list \<Rightarrow> int \<Rightarrow> int \<Rightarrow> int \<Rightarrow> bool" where
  "search_inv xs v lo hi \<longleftrightarrow>
     0 \<le> lo \<and> hi < int (List.length xs) \<and> lo \<le> hi + 1 \<and>
     (\<forall>i. int i < lo \<longrightarrow> xs ! i < v) \<and> (\<forall>i. hi < int i \<and> i < List.length xs \<longrightarrow> v < xs ! i)"

lemma search_inv_bounds:
  "search_inv xs v lo hi \<Longrightarrow> 0 \<le> lo \<and> hi < int (List.length xs) \<and> lo \<le> hi + 1"
  by (simp add: search_inv_def)

lemma search_inv_exit:
  assumes "search_inv xs v lo hi" and "hi < lo"
  shows "search_result xs v (False, nat lo)"
proof -
  have "lo = hi + 1" using assms search_inv_bounds by fastforce
  moreover have "int i < lo" if "i < nat lo" for i using that by linarith
  moreover have "hi < int i" if "nat lo \<le> i" for i using that assms(2) by linarith
  moreover have "nat lo \<le> List.length xs" using search_inv_bounds [OF assms(1)] assms(2) by linarith
  ultimately show ?thesis using assms(1) unfolding search_result_def search_inv_def by simp
qed

lemma search_inv_right:
  assumes "search_inv xs v lo hi" and "sorted_wrt (<) xs" and "lo \<le> m" "m \<le> hi" and "xs ! nat m < v"
  shows "search_inv xs v (m + 1) hi"
proof -
  have "xs ! i < v" if "int i < m + 1" for i
  proof -
    have "i \<le> nat m" "nat m < List.length xs" using that assms by (auto simp: search_inv_def)
    then have "xs ! i \<le> xs ! nat m" using sorted_wrt_less_nth_mono [OF assms(2)] by blast
    then show ?thesis using assms(5) by simp
  qed
  then show ?thesis using assms(1,3,4) by (simp add: search_inv_def)
qed

lemma search_inv_left:
  assumes "search_inv xs v lo hi" and "sorted_wrt (<) xs" and "lo \<le> m" "m \<le> hi" and "v < xs ! nat m"
  shows "search_inv xs v lo (m - 1)"
proof -
  have "v < xs ! i" if "m - 1 < int i" "i < List.length xs" for i
  proof -
    have "nat m \<le> i" using that(1) by simp
    then have "xs ! nat m \<le> xs ! i" using sorted_wrt_less_nth_mono [OF assms(2)] that(2) by blast
    then show ?thesis using assms(5) by simp
  qed
  then show ?thesis using assms(1,3,4) by (simp add: search_inv_def)
qed

lemma intsetSearch_loop_spec:
  assumes rep: "intset_rep is xs" and srt: "sorted_wrt (<) xs" and len: "List.length xs < 2 ^ 31"
  shows "search_inv xs v lo hi \<Longrightarrow> lo \<le> hi \<or> cur \<noteq> v \<Longrightarrow>
         \<exists>lo' mid' cur'. intsetSearch_loop is v lo hi mid cur = Some (lo', mid', cur') \<and>
           search_result xs v (if v = cur' then (True, nat mid') else (False, nat lo'))"
proof (induction "nat (hi - lo + 1)" arbitrary: lo hi mid cur rule: less_induct)
  case less
  note inv = less.prems(1)
  show ?case
  proof (cases "lo \<le> hi")
    case False
    then have "intsetSearch_loop is v lo hi mid cur = Some (lo, mid, cur)"
      by (subst intsetSearch_loop.simps) simp
    then show ?thesis using search_inv_exit [OF inv] False less.prems(2) by auto
  next
    case True
    define m where "m = (lo + hi) div 2"
    have m: "(lo + hi) mod 2 ^ 32 div 2 = m"
      using True search_inv_bounds [OF inv] len by (simp add: m_def)
    have b: "lo \<le> m" "m \<le> hi" "nat m < List.length xs"
      using True search_inv_bounds [OF inv] by (auto simp: m_def)
    have g: "intsetGet' is (nat m) = Some (xs ! nat m)" by (rule intsetGet'_rep [OF rep b(3)])
    have step: "intsetSearch_loop is v lo hi mid cur =
       (if xs ! nat m < v then intsetSearch_loop is v (m + 1) hi m (xs ! nat m)
        else if v < xs ! nat m then intsetSearch_loop is v lo (m - 1) m (xs ! nat m)
        else Some (lo, m, xs ! nat m))"
      by (subst intsetSearch_loop.simps) (simp only: True if_True Let_def m g Option.bind.simps)
    consider (lt) "xs ! nat m < v" | (gt) "v < xs ! nat m" | (eq) "v = xs ! nat m" by linarith
    then show ?thesis
    proof cases
      case lt
      have "nat (hi - (m + 1) + 1) < nat (hi - lo + 1)" using b by simp
      from less.hyps [OF this search_inv_right [OF inv srt b(1,2) lt]] lt step
      show ?thesis by simp
    next
      case gt
      have "nat (m - 1 - lo + 1) < nat (hi - lo + 1)" using b by simp
      from less.hyps [OF this search_inv_left [OF inv srt b(1,2) gt]] gt step
      show ?thesis by simp
    next
      case eq
      then show ?thesis using b(3) step by (simp add: search_result_def)
    qed
  qed
qed

lemma intsetSearch_spec:
  assumes rep: "intset_rep is xs" and srt: "sorted_wrt (<) xs" and len: "List.length xs < 2 ^ 31"
  shows "\<exists>r. intsetSearch is v = Some r \<and> search_result xs v r"
proof (cases "xs = []")
  case True
  then show ?thesis using rep by (simp add: intsetSearch_def intset_rep_def search_result_def)
next
  case False
  let ?n = "List.length xs"
  have n: "is_length is = ?n" "0 < ?n" using rep False by (auto simp: intset_rep_def)
  have hi: "intsetGet' is (?n - 1) = Some (xs ! (?n - 1))" and lo: "intsetGet' is 0 = Some (xs ! 0)"
    using intsetGet'_rep [OF rep] n by auto
  have mono: "\<And>i. i < ?n \<Longrightarrow> xs ! 0 \<le> xs ! i \<and> xs ! i \<le> xs ! (?n - 1)"
    using sorted_wrt_less_nth_mono [OF srt] by auto
  obtain lo' mid' cur' where loop:
      "intsetSearch_loop is v 0 (int ?n - 1) (-1) (-1) = Some (lo', mid', cur')"
      "search_result xs v (if v = cur' then (True, nat mid') else (False, nat lo'))"
    using intsetSearch_loop_spec [OF rep srt len, of v 0 "int ?n - 1" "-1" "-1"] n
    by (auto simp: search_inv_def)
  consider "xs ! (?n - 1) < v" | "v < xs ! 0" "v \<le> xs ! (?n - 1)"
    | "xs ! 0 \<le> v" "v \<le> xs ! (?n - 1)" by linarith
  then show ?thesis
  proof cases
    case 1
    then have "search_result xs v (False, ?n)"
      using mono by (auto simp: search_result_def intro: order.strict_trans1)
    then show ?thesis using 1 n hi by (simp add: intsetSearch_def)
  next
    case 2
    then have "search_result xs v (False, 0)"
      using mono by (auto simp: search_result_def intro: order.strict_trans2)
    then show ?thesis using 2 n hi lo by (simp add: intsetSearch_def)
  next
    case 3
    then show ?thesis using n hi lo loop by (cases "v = cur'") (simp_all add: intsetSearch_def)
  qed
qed

section \<open>Widening in place\<close>

text \<open>
  The upgrade loop rewrites the array from the back, in the same block. Before a round with
  counter \<open>n\<close>, the first \<open>n\<close> old cells are still intact and the cells from \<open>n + prepend\<close>
  on hold the widened values; the store of a round starts beyond the old cells still needed.
\<close>

definition upgrade_inv :: "nat \<Rightarrow> nat \<Rightarrow> int list \<Rightarrow> nat \<Rightarrow> nat \<Rightarrow> mem \<Rightarrow> bool" where
  "upgrade_inv w w' xs p n m \<longleftrightarrow>
     n \<le> List.length xs \<and> List.length m = w' * (List.length xs + 1) \<and>
     take (w * n) m = cells w (take n xs) \<and>
     take (w' * (List.length xs - n)) (drop (w' * (n + p)) m) = cells w' (drop n xs)"

lemma upgrade_inv_step:
  assumes "upgrade_inv w w' xs p (Suc n) m" and "w \<le> w'" and "p \<le> 1" and "0 < w'"
  shows "mem_read m (w * n) w = Some (le_enc w (xs ! n))" (is ?read)
    and "\<exists>m'. mem_write m (w' * (n + p)) (le_enc w' (xs ! n)) = Some m' \<and> upgrade_inv w w' xs p n m'"
      (is ?wr)
proof -
  let ?N = "List.length xs"
  have n: "n < ?N" and lm: "List.length m = w' * (?N + 1)"
    and old: "take (w * Suc n) m = cells w (take (Suc n) xs)"
    and new: "take (w' * (?N - Suc n)) (drop (w' * (Suc n + p)) m) = cells w' (drop (Suc n) xs)"
    using assms(1) by (auto simp: upgrade_inv_def)
  have le: "w * n \<le> w' * (n + p)" using \<open>w \<le> w'\<close> by (simp add: mult_le_mono)
  have "n + p + 1 \<le> ?N + 1" using n \<open>p \<le> 1\<close> by simp
  then have fits: "w' * (n + p) + w' \<le> List.length m" unfolding lm
    by (metis add.commute mult_Suc_right mult_le_mono2 Suc_eq_plus1)
  have "w * Suc n \<le> w' * (?N + 1)" using \<open>w \<le> w'\<close> n by (intro mult_le_mono) auto
  then have wl: "w * n + w \<le> List.length m" unfolding lm by (simp add: add.commute)
  have "take w (drop (w * n) m) = drop (w * n) (take (w * Suc n) m)"
    by (simp add: drop_take add.commute)
  also have "\<dots> = cells w [xs ! n]"
    unfolding old using n by (simp add: drop_cells take_Suc_conv_app_nth)
  finally show ?read using wl by (simp add: mem_read_def)
  let ?m' = "take (w' * (n + p)) m @ le_enc w' (xs ! n) @ drop (w' * (n + p) + w') m"
  have "take (w * n) ?m' = take (w * n) m" using le fits by simp
  also have "\<dots> = take (w * n) (cells w (take (Suc n) xs))" by (simp flip: old)
  also have "\<dots> = cells w (take n xs)" by (simp add: take_cells)
  finally have a: "take (w * n) ?m' = cells w (take n xs)" .
  have k: "?N - n = Suc (?N - Suc n)" using n by simp
  have "take (w' * (?N - n)) (drop (w' * (n + p)) ?m') =
        le_enc w' (xs ! n) @ take (w' * (?N - Suc n)) (drop (w' * (Suc n + p)) m)"
    unfolding k using fits by (simp add: add.commute)
  also have "\<dots> = cells w' (drop n xs)" unfolding new using n by (simp add: Cons_nth_drop_Suc [symmetric])
  finally have "upgrade_inv w w' xs p n ?m'"
    using a n lm fits unfolding upgrade_inv_def by simp
  then show ?wr using fits by (auto simp: mem_write_def)
qed

lemma intsetUpgrade_loop_spec:
  assumes "intset_enc_ok (encoding is)" "intset_enc_ok w" "w \<le> encoding is" "p \<le> 1"
    and "\<forall>x\<in>set xs. int_fits w x"
  shows "upgrade_inv w (encoding is) xs p n (contents is) \<Longrightarrow>
         \<exists>m. intsetUpgrade_loop is w p n = Some (is\<lparr>contents := m\<rparr>) \<and>
             upgrade_inv w (encoding is) xs p 0 m"
  using assms
proof (induction n arbitrary: "is")
  case 0
  then show ?case by (auto intro: exI [of _ "contents is"])
next
  case (Suc n)
  note step = upgrade_inv_step [OF Suc.prems(1)]
  have n: "n < List.length xs" using Suc.prems(1) by (simp add: upgrade_inv_def)
  have "intsetGetEncoded is n w = map_option le_sdec (mem_read (contents is) (w * n) w)"
    using Suc.prems by (auto simp: intsetGetEncoded_def intset_enc_ok_def enc_defs)
  then have get: "intsetGetEncoded is n w = Some (xs ! n)"
    using step(1) Suc.prems n by (simp add: le_sdec_enc)
  obtain m where m: "intsetSet is (n + p) (xs ! n) = Some (is\<lparr>contents := m\<rparr>)"
      "upgrade_inv w (encoding is) xs p n m"
    using step(2) Suc.prems by (auto simp: intsetSet_eq)
  then show ?case using Suc.IH [of "is\<lparr>contents := m\<rparr>"] Suc.prems get by simp
qed

lemma upgrade_inv_final:
  assumes "upgrade_inv w w' xs p 0 m"
  shows "p = 0 \<Longrightarrow> \<exists>rest. m = cells w' xs @ rest \<and> List.length rest = w'"
    and "p = 1 \<Longrightarrow> \<exists>pre. m = pre @ cells w' xs \<and> List.length pre = w'"
proof -
  let ?N = "List.length xs"
  have l: "List.length m = w' * ?N + w'" and t: "take (w' * ?N) (drop (w' * p) m) = cells w' xs"
    using assms by (auto simp: upgrade_inv_def)
  show "\<exists>rest. m = cells w' xs @ rest \<and> List.length rest = w'" if "p = 0"
    using that l t by (intro exI [of _ "drop (w' * ?N) m"]) (simp flip: t)
  show "\<exists>pre. m = pre @ cells w' xs \<and> List.length pre = w'" if "p = 1"
    using that l t by (intro exI [of _ "take w' m"]) (simp flip: t)
qed

lemma intsetValueEncoding_ok: "intset_enc_ok (intsetValueEncoding v)"
  by (simp add: intsetValueEncoding_def intset_enc_ok_def)

lemma intsetValueEncoding_fits:
  assumes "int_fits 8 v" and "intset_enc_ok e"
  shows "intsetValueEncoding v \<le> e \<longleftrightarrow> int_fits e v"
  using assms by (auto simp: intsetValueEncoding_def intset_enc_ok_def enc_defs int_fits_def)

lemma not_fits_side:
  assumes "\<not> int_fits w v" and "int_fits w x"
  shows "v < 0 \<Longrightarrow> v < x" and "\<not> v < 0 \<Longrightarrow> x < v"
proof -
  have h: "0 < (2::int) ^ (8 * w - 1)" by simp
  show "v < x" if "v < 0" using that assms h unfolding int_fits_def by linarith
  show "x < v" if "\<not> v < 0" using that assms h unfolding int_fits_def by linarith
qed

section \<open>Insertion and removal on the represented list\<close>

definition intset_room :: "nat \<Rightarrow> bool" where
  \<comment> \<open>one more element fits below the wrap-around of the 32-bit sizes\<close>
  "intset_room n \<longleftrightarrow> 8 * (n + 1) < 2 ^ 32"

lemma intset_room_size:
  assumes "intset_room n" "intset_enc_ok e" "m \<le> n + 1"
  shows "m * e mod 2 ^ 32 = e * m" and "n < 2 ^ 31"
proof -
  have "m * e \<le> (n + 1) * 8" using assms by (intro mult_le_mono) (auto simp: intset_enc_ok_def enc_defs)
  also have "\<dots> < 2 ^ 32" using assms(1) by (simp add: intset_room_def)
  finally show "m * e mod 2 ^ 32 = e * m" by (metis mod_less mult.commute)
  show "n < 2 ^ 31" using assms(1) by (simp add: intset_room_def)
qed

lemma intsetUpgradeAndAdd_rep:
  assumes rep: "intset_rep is xs" and v: "int_fits 8 v" and enc: "encoding is < intsetValueEncoding v"
    and room: "intset_room (List.length xs)"
  shows "\<exists>is'. intsetUpgradeAndAdd junk is v = Some is' \<and>
               intset_rep is' (if v < 0 then v # xs else xs @ [v]) \<and>
               encoding is' = intsetValueEncoding v"
proof -
  define e where "e = intsetValueEncoding v"
  define p where "p = (if v < 0 then 1 else 0 :: nat)"
  let ?N = "List.length xs" and ?w = "encoding is"
  have e: "intset_enc_ok e" "?w \<le> e" and N: "is_length is = ?N" and w: "intset_enc_ok ?w"
    and fits: "\<forall>x\<in>set xs. int_fits ?w x"
    using rep enc by (auto simp: e_def intsetValueEncoding_ok intset_rep_def)
  define is2 where "is2 = intsetResize junk (is\<lparr>encoding := e\<rparr>) (?N + 1)"
  have s: "(?N + 1) * e mod 2 ^ 32 = e * (?N + 1)"
    by (rule intset_room_size(1) [OF room e(1)]) simp
  have enc2: "encoding is2 = e" "is_length is2 = ?N" and p1: "p \<le> 1"
    by (simp_all add: is2_def intsetResize_def N p_def)
  have "?w * ?N \<le> e * (?N + 1)" using e(2) by (intro mult_le_mono) auto
  then have "upgrade_inv ?w (encoding is2) xs p ?N (contents is2)"
    using rep s by (simp add: upgrade_inv_def is2_def intsetResize_def take_mem_realloc intset_rep_def)
  then obtain m where loop: "intsetUpgrade_loop is2 ?w p ?N = Some (is2\<lparr>contents := m\<rparr>)"
    and inv: "upgrade_inv ?w e xs p 0 m"
    using intsetUpgrade_loop_spec [of is2 ?w p xs ?N] e w fits enc2 p1 by auto
  have fits': "\<forall>x\<in>set xs. int_fits e x" "int_fits e v"
    using fits e int_fits_mono intsetValueEncoding_fits [OF v e(1)] by (auto simp: e_def)
  show ?thesis
  proof (cases "v < 0")
    case True
    then obtain pre where "m = pre @ cells e xs" "List.length pre = e"
      using upgrade_inv_final(2) [OF inv] by (auto simp: p_def)
    then have "intsetSet (is2\<lparr>contents := m\<rparr>) 0 v = Some (is2\<lparr>contents := cells e (v # xs)\<rparr>)"
      using e enc2 prepend_cell [of pre e xs v] by (simp add: intsetSet_eq)
    then have "intsetUpgradeAndAdd junk is v =
        Some (is2\<lparr>contents := cells e (v # xs), is_length := ?N + 1\<rparr>)"
      using True loop enc2 N by (simp add: intsetUpgradeAndAdd_def Let_def is2_def e_def p_def)
    then show ?thesis using True e enc2 fits' by (simp add: intset_rep_def e_def)
  next
    case False
    then obtain rest where "m = cells e xs @ rest" "List.length rest = e"
      using upgrade_inv_final(1) [OF inv] by (auto simp: p_def)
    then have "intsetSet (is2\<lparr>contents := m\<rparr>) ?N v = Some (is2\<lparr>contents := cells e (xs @ [v])\<rparr>)"
      using e enc2 append_cell [of rest e xs v] by (simp add: intsetSet_eq)
    then have "intsetUpgradeAndAdd junk is v =
        Some (is2\<lparr>contents := cells e (xs @ [v]), is_length := ?N + 1\<rparr>)"
      using False loop enc2 N by (simp add: intsetUpgradeAndAdd_def Let_def is2_def e_def p_def)
    then show ?thesis using False e enc2 fits' by (simp add: intset_rep_def e_def)
  qed
qed

lemma intsetMoveTail_eq:
  assumes "intset_enc_ok (encoding is)" "from \<le> is_length is" "intset_room (is_length is)"
  shows "intsetMoveTail is from to =
     map_option (\<lambda>c. is\<lparr>contents := c\<rparr>)
       (mem_move (contents is) (encoding is * to) (encoding is * from)
          (encoding is * (is_length is - from)))"
proof -
  have "nat ((int (is_length is) - int from) mod 2 ^ 32) = is_length is - from"
    using assms(2,3) by (simp add: intset_room_def)
  moreover have "(is_length is - from) * encoding is mod 2 ^ 32 = encoding is * (is_length is - from)"
    by (rule intset_room_size(1) [OF assms(3,1)]) simp
  ultimately show ?thesis
    using assms(1) by (auto simp: intsetMoveTail_def Let_def intset_enc_ok_def enc_defs)
qed

lemma intsetAdd_rep:
  assumes rep: "intset_rep is xs" and srt: "sorted_wrt (<) xs" and v: "int_fits 8 v"
    and enc: "intsetValueEncoding v \<le> encoding is" and room: "intset_room (List.length xs)"
    and search: "intsetSearch is v = Some (False, pos)" "search_result xs v (False, pos)"
  shows "\<exists>is'. intsetAdd junk is v = Some (is', True) \<and>
               intset_rep is' (take pos xs @ v # drop pos xs) \<and> encoding is' = encoding is"
proof -
  let ?N = "List.length xs" and ?e = "encoding is"
  have e: "intset_enc_ok ?e" and N: "is_length is = ?N" and c: "contents is = cells ?e xs"
    and fits: "\<forall>x\<in>set xs. int_fits ?e x" "int_fits ?e v"
    using rep enc intsetValueEncoding_fits [OF v] by (auto simp: intset_rep_def)
  have pos: "pos \<le> ?N" using search(2) by (simp add: search_result_def)
  define is1 where "is1 = intsetResize junk is (?N + 1)"
  have "(?N + 1) * ?e mod 2 ^ 32 = ?e * (?N + 1)"
    by (rule intset_room_size(1) [OF room e]) simp
  then obtain rest where c1: "contents is1 = cells ?e xs @ rest" "List.length rest = ?e"
    by (intro that [of "map junk [?e * ?N ..< ?e * (?N + 1)]"])
       (auto simp: is1_def intsetResize_def mem_realloc_def c)
  have is1: "encoding is1 = ?e" "is_length is1 = ?N" by (auto simp: is1_def intsetResize_def N)
  define is3 where "is3 = is1\<lparr>contents := cells ?e (take pos xs @ v # drop pos xs)\<rparr>"
  have "\<exists>is2. (if pos < is_length is1 then intsetMoveTail is1 pos (pos + 1) else Some is1) = Some is2 \<and>
          intsetSet is2 pos v = Some is3"
  proof (cases "pos < ?N")
    case True
    let ?ys = "take (pos + 1) xs @ drop pos xs"
    have "intsetMoveTail is1 pos (pos + 1) = Some (is1\<lparr>contents := cells ?e ?ys @ []\<rparr>)"
      using intsetMoveTail_eq [of is1 pos "pos + 1"] shift_cells_right [OF True c1(2)] True e room is1 c1(1)
      by simp
    moreover have "?ys[pos := v] = take pos xs @ v # drop pos xs"
      using True by (simp add: take_Suc_conv_app_nth list_update_append)
    moreover have "intsetSet (is1\<lparr>contents := cells ?e ?ys @ []\<rparr>) pos v =
        Some (is1\<lparr>contents := cells ?e (?ys[pos := v]) @ []\<rparr>)"
      by (subst intsetSet_cell [where xs = ?ys and rest = "[]"]) (use True e is1 in auto)
    ultimately show ?thesis using True is1 by (simp add: is3_def)
  next
    case False
    then have "pos = ?N" using pos by simp
    then show ?thesis using is1 e c1 append_cell [OF c1(2), of xs v] by (simp add: intsetSet_eq is3_def)
  qed
  then have "intsetAdd junk is v = Some (is3\<lparr>is_length := is_length is3 + 1\<rparr>, True)"
    using search(1) enc N by (auto simp: intsetAdd_def Let_def is1_def simp del: if_split)
  then show ?thesis using e fits is1 pos
    by (auto simp: is3_def intset_rep_def dest: in_set_takeD in_set_dropD)
qed

lemma intsetRemove_rep:
  assumes rep: "intset_rep is xs" and enc: "intsetValueEncoding v \<le> encoding is"
    and room: "intset_room (List.length xs)"
    and search: "intsetSearch is v = Some (True, pos)" "search_result xs v (True, pos)"
  shows "\<exists>is'. intsetRemove junk is v = Some (is', True) \<and>
               intset_rep is' (take pos xs @ drop (pos + 1) xs) \<and> encoding is' = encoding is"
proof -
  let ?N = "List.length xs" and ?e = "encoding is" and ?ys = "take pos xs @ drop (pos + 1) xs"
  have e: "intset_enc_ok ?e" and N: "is_length is = ?N" and c: "contents is = cells ?e xs"
    and fits: "\<forall>x\<in>set xs. int_fits ?e x"
    using rep by (auto simp: intset_rep_def)
  have pos: "pos < ?N" using search(2) by (simp add: search_result_def)
  have len: "List.length ?ys = ?N - 1" using pos by simp
  obtain rest where move: "mem_move (cells ?e xs) (?e * pos) (?e * (pos + 1)) (?e * (?N - (pos + 1))) =
      Some (cells ?e ?ys @ rest)" "List.length rest = ?e"
    using shift_cells_left [OF pos] by blast
  define is1 where "is1 = (if pos < ?N - 1 then is\<lparr>contents := cells ?e ?ys @ rest\<rparr> else is)"
  have is1: "(if pos < ?N - 1 then intsetMoveTail is (pos + 1) pos else Some is) = Some is1"
    using intsetMoveTail_eq [of "is" "pos + 1" pos] move e room pos N c by (auto simp: is1_def)
  have size: "(?N - 1) * ?e mod 2 ^ 32 = ?e * (?N - 1)"
    by (rule intset_room_size(1) [OF room e]) simp
  have "take (?e * (?N - 1)) (contents is1) = cells ?e ?ys"
  proof (cases "pos < ?N - 1")
    case True
    then have "contents is1 = cells ?e ?ys @ rest" by (simp add: is1_def)
    moreover have "List.length (cells ?e ?ys) = ?e * (?N - 1)" by (simp only: length_cells len)
    ultimately show ?thesis by (metis append_eq_conv_conj)
  next
    case False
    then have "pos = ?N - 1" using pos by simp
    then show ?thesis using pos by (simp add: is1_def c take_cells)
  qed
  moreover have "?e * (?N - 1) \<le> List.length (contents is1)"
    by (metis calculation len length_cells length_take min.cobounded1)
  moreover have enc1: "encoding is1 = ?e" by (simp add: is1_def)
  ultimately have c2: "contents (intsetResize junk is1 (?N - 1)) = cells ?e ?ys"
    unfolding intsetResize_def enc1 size by (simp add: mem_realloc_def)
  have "intsetRemove junk is v = Some (intsetResize junk is1 (?N - 1)\<lparr>is_length := ?N - 1\<rparr>, True)"
    using search(1) enc N is1 by (simp add: intsetRemove_def Let_def)
  then show ?thesis using e fits len enc1 c2
    by (auto simp: intset_rep_def intsetResize_def dest: in_set_takeD in_set_dropD)
qed

section \<open>Correctness\<close>

lemma search_split_less:
  assumes "search_result xs v (False, pos)" and "sorted_wrt (<) xs"
  shows "sorted_wrt (<) (take pos xs @ v # drop pos xs)"
  by (rule sorted_wrt_less_insert)
     (use assms in \<open>auto simp: search_result_def set_take_iff set_drop_iff\<close>)

lemma search_remove:
  assumes "search_result xs v (True, pos)" and "sorted_wrt (<) xs"
  shows "sorted_wrt (<) (take pos xs @ drop (pos + 1) xs)"
    and "set (take pos xs @ drop (pos + 1) xs) = set xs - {v}"
proof -
  have pos: "pos < List.length xs" "xs ! pos = v" using assms(1) by (auto simp: search_result_def)
  have xs: "xs = take pos xs @ v # drop (pos + 1) xs" using id_take_nth_drop [OF pos(1)] pos(2) by simp
  show "sorted_wrt (<) (take pos xs @ drop (pos + 1) xs)"
    by (rule sorted_wrt_less_remove [where x = v]) (use assms(2) xs in metis)
  have "distinct xs" using assms(2) by (simp add: strict_sorted_iff)
  then have "v \<notin> set (take pos xs)" "v \<notin> set (drop (pos + 1) xs)" using xs by (metis distinct.simps(2) distinct_append disjoint_iff list.set_intros(1))+
  then show "set (take pos xs @ drop (pos + 1) xs) = set xs - {v}"
    using arg_cong [OF xs, of set] by auto
qed

lemma intsetFind_wf:
  assumes "intset_wf is" "int_fits 8 v" "intset_room (is_length is)"
  shows "intsetFind is v = Some (v \<in> set (intset_elems is))"
proof -
  let ?xs = "intset_elems is"
  have rep: "intset_rep is ?xs" and srt: "sorted_wrt (<) ?xs" using assms(1) by (auto simp: intset_wf_rep)
  have e: "intset_enc_ok (encoding is)" and fits: "\<forall>x\<in>set ?xs. int_fits (encoding is) x"
    and len: "List.length ?xs < 2 ^ 31"
    using rep assms(3) by (auto simp: intset_rep_def intset_room_def)
  show ?thesis
  proof (cases "intsetValueEncoding v \<le> encoding is")
    case True
    obtain r where "intsetSearch is v = Some r" "search_result ?xs v r"
      using intsetSearch_spec [OF rep srt len] by blast
    then show ?thesis using True search_result_mem by (cases r) (auto simp: intsetFind_def)
  next
    case False
    then show ?thesis using intsetValueEncoding_fits [OF assms(2) e] fits by (auto simp: intsetFind_def)
  qed
qed

lemma intsetAdd_wf:
  assumes "intset_wf is" "int_fits 8 v" "intset_room (is_length is)"
  shows "\<exists>is'. intsetAdd junk is v = Some (is', v \<notin> set (intset_elems is)) \<and> intset_wf is' \<and>
          set (intset_elems is') = insert v (set (intset_elems is)) \<and>
          encoding is' = max (encoding is) (intsetValueEncoding v)"
proof -
  let ?xs = "intset_elems is"
  have rep: "intset_rep is ?xs" and srt: "sorted_wrt (<) ?xs" using assms(1) by (auto simp: intset_wf_rep)
  have e: "intset_enc_ok (encoding is)" and fits: "\<forall>x\<in>set ?xs. int_fits (encoding is) x"
    and room: "intset_room (List.length ?xs)" and len: "List.length ?xs < 2 ^ 31"
    using rep assms(3) by (auto simp: intset_rep_def intset_room_def)
  show ?thesis
  proof (cases "encoding is < intsetValueEncoding v")
    case True
    then have nf: "\<not> int_fits (encoding is) v" using intsetValueEncoding_fits [OF assms(2) e] by simp
    let ?ys = "if v < 0 then v # ?xs else ?xs @ [v]"
    obtain is' where is': "intsetUpgradeAndAdd junk is v = Some is'" "intset_rep is' ?ys"
        "encoding is' = intsetValueEncoding v"
      using intsetUpgradeAndAdd_rep [OF rep assms(2) True room] by blast
    have "sorted_wrt (<) ?ys"
      using srt not_fits_side [OF nf] fits by (auto simp: sorted_wrt_append)
    then show ?thesis using intset_repI [OF is'(2)] is' True nf fits
      by (auto simp: intsetAdd_def)
  next
    case False
    then have enc: "intsetValueEncoding v \<le> encoding is" by simp
    obtain found pos where s: "intsetSearch is v = Some (found, pos)" "search_result ?xs v (found, pos)"
      using intsetSearch_spec [OF rep srt len] by (metis surj_pair)
    note mem = search_result_mem [OF s(2)]
    show ?thesis
    proof (cases found)
      case True
      then show ?thesis using s mem enc assms(1) by (auto simp: intsetAdd_def insert_absorb max_def)
    next
      case False
      then have s': "intsetSearch is v = Some (False, pos)" "search_result ?xs v (False, pos)"
        using s by auto
      let ?ys = "take pos ?xs @ v # drop pos ?xs"
      obtain is' where is': "intsetAdd junk is v = Some (is', True)" "intset_rep is' ?ys"
          "encoding is' = encoding is"
        using intsetAdd_rep [OF rep srt assms(2) enc room s'] by blast
      have "set ?ys = insert v (set ?xs)" by (metis append_take_drop_id set_append list.simps(15) Un_insert_right)
      then show ?thesis using intset_repI [OF is'(2)] search_split_less [of ?xs v pos] is' s False srt mem enc
        by auto
    qed
  qed
qed

lemma intsetRemove_wf:
  assumes "intset_wf is" "int_fits 8 v" "intset_room (is_length is)"
  shows "\<exists>is'. intsetRemove junk is v = Some (is', v \<in> set (intset_elems is)) \<and> intset_wf is' \<and>
          set (intset_elems is') = set (intset_elems is) - {v} \<and> encoding is' = encoding is"
proof -
  let ?xs = "intset_elems is"
  have rep: "intset_rep is ?xs" and srt: "sorted_wrt (<) ?xs" using assms(1) by (auto simp: intset_wf_rep)
  have e: "intset_enc_ok (encoding is)" and fits: "\<forall>x\<in>set ?xs. int_fits (encoding is) x"
    and room: "intset_room (List.length ?xs)" and len: "List.length ?xs < 2 ^ 31"
    using rep assms(3) by (auto simp: intset_rep_def intset_room_def)
  show ?thesis
  proof (cases "intsetValueEncoding v \<le> encoding is")
    case False
    then show ?thesis using intsetValueEncoding_fits [OF assms(2) e] fits assms(1)
      by (auto simp: intsetRemove_def)
  next
    case enc: True
    obtain found pos where s: "intsetSearch is v = Some (found, pos)" "search_result ?xs v (found, pos)"
      using intsetSearch_spec [OF rep srt len] by (metis surj_pair)
    note mem = search_result_mem [OF s(2)]
    show ?thesis
    proof (cases found)
      case True
      then have s': "intsetSearch is v = Some (True, pos)" "search_result ?xs v (True, pos)"
        using s by auto
      then obtain is' where is': "intsetRemove junk is v = Some (is', True)"
          "intset_rep is' (take pos ?xs @ drop (pos + 1) ?xs)" "encoding is' = encoding is"
        using intsetRemove_rep [OF rep enc room s'] by blast
      note rm = search_remove [of ?xs v pos]
      have "sorted_wrt (<) (take pos ?xs @ drop (pos + 1) ?xs)" using rm(1) s(2) srt True by simp
      from intset_repI [OF is'(2) this] show ?thesis using rm(2) is' s(2) srt True mem by simp
    next
      case False
      then show ?thesis using s mem enc assms(1) by (auto simp: intsetRemove_def)
    qed
  qed
qed

section \<open>Properties\<close>

text \<open>The set \<open>{1, 5}\<close> stored with two bytes per element.\<close>

definition intset_ex :: intset where
  "intset_ex = \<lparr>encoding = 2, is_length = 2, contents = [1, 0, 5, 0]\<rparr>"

lemma intset_ex_elems: "intset_elems intset_ex = [1, 5]"
  by code_simp

lemma intset_ex_wf: "intset_wf intset_ex" "intset_room (is_length intset_ex)"
  by (simp_all add: intset_wf_def intset_ex_elems intset_room_def) (simp_all add: intset_ex_def intset_enc_ok_def enc_defs)

text \<open>
  C27. \<open>intsetAdd\<close> on a well-formed intset stays inside its block, returns a well-formed intset
  with the value added, reports whether the value was new, and keeps the smallest width that
  fits the old width and the value.
\<close>

theorem intset_add_correct:
  assumes "intset_wf is" "int_fits 8 v" "intset_room (is_length is)"
  shows "\<exists>is'. intsetAdd junk is v = Some (is', v \<notin> set (intset_elems is)) \<and> intset_wf is' \<and>
          set (intset_elems is') = insert v (set (intset_elems is)) \<and>
          encoding is' = max (encoding is) (intsetValueEncoding v)"
  by (rule intsetAdd_wf [OF assms])

theorem intset_add_correct_witness:
  "\<exists>is'. intsetAdd (\<lambda>_. 7) intset_ex 100000 = Some (is', True) \<and> intset_wf is' \<and>
          set (intset_elems is') = {1, 5, 100000}"
  using intset_add_correct [OF intset_ex_wf(1) _ intset_ex_wf(2), of 100000 "\<lambda>_. 7"]
  by (auto simp: intset_ex_elems int_fits_def insert_commute)

text \<open>
  C28. \<open>intsetRemove\<close> returns a well-formed intset without the value and reports whether it
  was present; the width does not change.
\<close>

theorem intset_remove_correct:
  assumes "intset_wf is" "int_fits 8 v" "intset_room (is_length is)"
  shows "\<exists>is'. intsetRemove junk is v = Some (is', v \<in> set (intset_elems is)) \<and> intset_wf is' \<and>
          set (intset_elems is') = set (intset_elems is) - {v} \<and> encoding is' = encoding is"
  by (rule intsetRemove_wf [OF assms])

theorem intset_remove_correct_witness:
  "\<exists>is'. intsetRemove (\<lambda>_. 7) intset_ex 1 = Some (is', True) \<and> intset_wf is' \<and> set (intset_elems is') = {5}"
  using intset_remove_correct [OF intset_ex_wf(1) _ intset_ex_wf(2), of 1 "\<lambda>_. 7"]
  by (auto simp: intset_ex_elems int_fits_def)

text \<open>C29. \<open>intsetFind\<close> decides membership.\<close>

theorem intset_find_correct:
  assumes "intset_wf is" "int_fits 8 v" "intset_room (is_length is)"
  shows "intsetFind is v = Some (v \<in> set (intset_elems is))"
  by (rule intsetFind_wf [OF assms])

theorem intset_find_correct_witness: "intsetFind intset_ex 5 = Some True"
  using intset_find_correct [OF intset_ex_wf(1) _ intset_ex_wf(2), of 5]
  by (simp add: intset_ex_elems int_fits_def)

end
