(* ===== verification/Siphash.thy ===== *)
theory Siphash
  imports Redis_Prelude
begin

text \<open>
  SipHash 1-2 (\<open>siphash.c\<close>), the hash function behind every dictionary with string keys, and
  its case-insensitive variant. The build modelled is \<open>UNALIGNED_LE_CPU\<close> (x86): the hash is
  returned directly. Both functions walk the input in blocks of eight bytes and then collect
  the last one to seven bytes; the macros \<open>ROTL\<close>, \<open>U8TO64_LE\<close> and \<open>SIPROUND\<close> are functions
  on 64-bit words.
\<close>

section \<open>The functions\<close>

definition siptlw :: "int \<Rightarrow> int" where
  "siptlw c = (if 65 \<le> c \<and> c \<le> 90 then c + (97 - 65) else c)"

definition ROTL :: "u64 \<Rightarrow> nat \<Rightarrow> u64" where
  "ROTL x b = push_bit b x OR drop_bit (64 - b) x"

definition U8TO64_LE :: "byte list \<Rightarrow> u64" where
  "U8TO64_LE p =
     ucast (p ! 0) OR push_bit 8 (ucast (p ! 1)) OR push_bit 16 (ucast (p ! 2)) OR
     push_bit 24 (ucast (p ! 3)) OR push_bit 32 (ucast (p ! 4)) OR push_bit 40 (ucast (p ! 5)) OR
     push_bit 48 (ucast (p ! 6)) OR push_bit 56 (ucast (p ! 7))"

definition U8TO64_LE_NOCASE :: "byte list \<Rightarrow> u64" where
  "U8TO64_LE_NOCASE p =
     word_of_int (siptlw (uint (p ! 0))) OR
     push_bit 8 (word_of_int (siptlw (uint (p ! 1)))) OR
     push_bit 16 (word_of_int (siptlw (uint (p ! 2)))) OR
     push_bit 24 (word_of_int (siptlw (uint (p ! 3)))) OR
     push_bit 32 (word_of_int (siptlw (uint (p ! 4)))) OR
     push_bit 40 (word_of_int (siptlw (uint (p ! 5)))) OR
     push_bit 48 (word_of_int (siptlw (uint (p ! 6)))) OR
     push_bit 56 (word_of_int (siptlw (uint (p ! 7))))"

type_synonym sipstate = "u64 \<times> u64 \<times> u64 \<times> u64"

fun SIPROUND :: "sipstate \<Rightarrow> sipstate" where
  "SIPROUND (v0, v1, v2, v3) =
     (let v0 = v0 + v1; v1 = ROTL v1 13; v1 = v1 XOR v0; v0 = ROTL v0 32;
          v2 = v2 + v3; v3 = ROTL v3 16; v3 = v3 XOR v2;
          v0 = v0 + v3; v3 = ROTL v3 21; v3 = v3 XOR v0;
          v2 = v2 + v1; v1 = ROTL v1 17; v1 = v1 XOR v2; v2 = ROTL v2 32
      in (v0, v1, v2, v3))"

text \<open>One round of the block loop, and the loop over \<open>inlen div 8\<close> blocks.\<close>

fun sip_compress :: "u64 \<Rightarrow> sipstate \<Rightarrow> sipstate" where
  "sip_compress m (v0, v1, v2, v3) =
     (case SIPROUND (v0, v1, v2, v3 XOR m) of (v0, v1, v2, v3) \<Rightarrow> (v0 XOR m, v1, v2, v3))"

fun siphash_loop :: "(byte list \<Rightarrow> u64) \<Rightarrow> nat \<Rightarrow> byte list \<Rightarrow> sipstate \<Rightarrow> sipstate \<times> byte list" where
  "siphash_loop rd 0 inp v = (v, inp)"
| "siphash_loop rd (Suc n) inp v = siphash_loop rd n (drop 8 inp) (sip_compress (rd inp) v)"

text \<open>The \<open>switch (left)\<close> with its fall-through cases.\<close>

definition sip_tail :: "(byte \<Rightarrow> u64) \<Rightarrow> nat \<Rightarrow> byte list \<Rightarrow> u64 \<Rightarrow> u64" where
  "sip_tail cast left inp b =
     (let b = (if 7 \<le> left then b OR push_bit 48 (cast (inp ! 6)) else b);
          b = (if 6 \<le> left then b OR push_bit 40 (cast (inp ! 5)) else b);
          b = (if 5 \<le> left then b OR push_bit 32 (cast (inp ! 4)) else b);
          b = (if 4 \<le> left then b OR push_bit 24 (cast (inp ! 3)) else b);
          b = (if 3 \<le> left then b OR push_bit 16 (cast (inp ! 2)) else b);
          b = (if 2 \<le> left then b OR push_bit 8 (cast (inp ! 1)) else b);
          b = (if 1 \<le> left then b OR cast (inp ! 0) else b)
      in b)"

definition sip_init :: "byte list \<Rightarrow> sipstate" where
  "sip_init k =
     (let k0 = U8TO64_LE k; k1 = U8TO64_LE (drop 8 k)
      in (0x736f6d6570736575 XOR k0, 0x646f72616e646f6d XOR k1,
          0x6c7967656e657261 XOR k0, 0x7465646279746573 XOR k1))"

fun sip_finish :: "u64 \<Rightarrow> sipstate \<Rightarrow> u64" where
  "sip_finish b v =
     (case sip_compress b v of (v0, v1, v2, v3) \<Rightarrow>
        (case SIPROUND (SIPROUND (v0, v1, v2 XOR 0xff, v3)) of (v0, v1, v2, v3) \<Rightarrow>
           v0 XOR v1 XOR v2 XOR v3))"

definition siphash :: "byte list \<Rightarrow> byte list \<Rightarrow> u64" where
  "siphash inp k =
     (let inlen = length inp;
          left = inlen mod 8;
          b = push_bit 56 (of_nat inlen);
          (v, rest) = siphash_loop U8TO64_LE (inlen div 8) inp (sip_init k)
      in sip_finish (sip_tail ucast left rest b) v)"

definition siphash_nocase :: "byte list \<Rightarrow> byte list \<Rightarrow> u64" where
  "siphash_nocase inp k =
     (let inlen = length inp;
          left = inlen mod 8;
          b = push_bit 56 (of_nat inlen);
          (v, rest) = siphash_loop U8TO64_LE_NOCASE (inlen div 8) inp (sip_init k)
      in sip_finish (sip_tail (\<lambda>c. word_of_int (siptlw (uint c))) left rest b) v)"

section \<open>Case-insensitive hashing is hashing of the lower-cased input\<close>

definition lower :: "byte \<Rightarrow> byte" where
  "lower c = word_of_int (siptlw (uint c))"

lemma ucast_lower: "(ucast (lower c) :: u64) = word_of_int (siptlw (uint c))"
proof -
  have b: "0 \<le> uint c" "uint c < 256" using uint_lt2p [of c] by auto
  then have "uint (lower c) = siptlw (uint c)"
    by (simp add: lower_def siptlw_def uint_word_of_int)
  then show ?thesis by (metis ucast_eq)
qed

lemma U8TO64_LE_lower:
  "8 \<le> length p \<Longrightarrow> U8TO64_LE (map lower p) = U8TO64_LE_NOCASE p"
  by (cases "p = []") (auto simp: U8TO64_LE_def U8TO64_LE_NOCASE_def ucast_lower)

lemma siphash_loop_lower:
  "8 * n \<le> length p \<Longrightarrow>
   siphash_loop U8TO64_LE n (map lower p) v =
     map_prod id (map lower) (siphash_loop U8TO64_LE_NOCASE n p v)"
  by (induction n arbitrary: p v) (auto simp: U8TO64_LE_lower drop_map)

lemma siphash_loop_rest: "snd (siphash_loop rd n p v) = drop (8 * n) p"
  by (induction n arbitrary: p v) (auto simp: add.commute)

lemma sip_tail_lower:
  "left \<le> length p \<Longrightarrow>
   sip_tail ucast left (map lower p) b = sip_tail (\<lambda>c. word_of_int (siptlw (uint c))) left p b"
  by (cases "p = []") (auto simp: sip_tail_def Let_def ucast_lower)

lemma siphash_nocase_lower: "siphash_nocase p k = siphash (map lower p) k"
proof -
  let ?n = "length p div 8"
  obtain v rest where loop: "siphash_loop U8TO64_LE_NOCASE ?n p (sip_init k) = (v, rest)"
    by (metis surj_pair)
  have "length p - 8 * ?n = length p mod 8" by (simp add: minus_mult_div_eq_mod)
  then have "length rest = length p mod 8"
    using siphash_loop_rest [of U8TO64_LE_NOCASE ?n p "sip_init k"] loop by auto
  then show ?thesis
    by (simp add: siphash_def siphash_nocase_def Let_def loop siphash_loop_lower sip_tail_lower)
qed

end
