(* ===== verification/Dict.thy ===== *)
theory Dict
  imports Siphash "HOL-Library.While_Combinator"
begin

text \<open>
  Hash tables with incremental rehashing (\<open>dict.c\<close>, \<open>dict.h\<close>). A dictionary holds two tables;
  while \<open>rehashidx\<close> is not -1 the buckets below it have moved from the first to the second.
  A chain of entries linked by \<open>next\<close> is a list, its head first; a pointer to an entry is its
  location (table, bucket, position in the chain), valid until the next change. Reading a
  bucket outside the allocated table, the failure of an \<open>assert\<close> or of an allocation, and the
  overflow of an \<open>int\<close>, are \<open>None\<close>.

  \<open>d->type\<close> is set by \<open>_dictInit\<close> and never changed: the operations take it as an argument.
  Its callbacks get \<open>privdata\<close>, which the code only passes through; here they are closures
  over it. Destructors release memory only; the operations return the calls they make to
  them, in order. \<open>dict_can_resize\<close> is a global and therefore an argument. Counters are
  unbounded: an entry takes 24 bytes, so a count cannot reach \<open>2 ^ 64\<close>.
\<close>

section \<open>Data\<close>

record ('k, 'v) dictEntry =
  de_key :: 'k
  de_val :: 'v

record ('k, 'v) dictType =
  hashFunction :: "'k \<Rightarrow> u64"
  keyDup :: "('k \<Rightarrow> 'k) option"
  valDup :: "('v \<Rightarrow> 'v) option"
  keyCompare :: "('k \<Rightarrow> 'k \<Rightarrow> bool) option"
  keyDestructor :: bool
  valDestructor :: bool

record ('k, 'v) dictht =
  ht_table :: "('k, 'v) dictEntry list list"
  ht_size :: nat
  ht_sizemask :: u64
  ht_used :: nat

record ('k, 'v) dict =
  ht0 :: "('k, 'v) dictht"
  ht1 :: "('k, 'v) dictht"
  rehashidx :: int
  iterators :: nat

datatype dict_res = DICT_OK | DICT_ERR

datatype ('k, 'v) dict_call = FreeKey 'k | FreeVal 'v | EmptyCallback

type_synonym entry_loc = "nat \<times> nat \<times> nat"

abbreviation DICT_HT_INITIAL_SIZE :: nat where "DICT_HT_INITIAL_SIZE \<equiv> 4"
abbreviation dict_force_resize_ratio :: nat where "dict_force_resize_ratio \<equiv> 5"

section \<open>Macros\<close>

definition dictFreeVal :: "('k, 'v) dictType \<Rightarrow> ('k, 'v) dictEntry \<Rightarrow> ('k, 'v) dict_call list" where
  "dictFreeVal t e = (if valDestructor t then [FreeVal (de_val e)] else [])"

definition dictFreeKey :: "('k, 'v) dictType \<Rightarrow> ('k, 'v) dictEntry \<Rightarrow> ('k, 'v) dict_call list" where
  "dictFreeKey t e = (if keyDestructor t then [FreeKey (de_key e)] else [])"

definition dictDupVal :: "('k, 'v) dictType \<Rightarrow> 'v \<Rightarrow> 'v" where
  "dictDupVal t v = (case valDup t of Some f \<Rightarrow> f v | None \<Rightarrow> v)"

definition dictDupKey :: "('k, 'v) dictType \<Rightarrow> 'k \<Rightarrow> 'k" where
  "dictDupKey t k = (case keyDup t of Some f \<Rightarrow> f k | None \<Rightarrow> k)"

definition dictCompareKeys :: "('k, 'v) dictType \<Rightarrow> 'k \<Rightarrow> 'k \<Rightarrow> bool" where
  "dictCompareKeys t k1 k2 = (case keyCompare t of Some f \<Rightarrow> f k1 k2 | None \<Rightarrow> k1 = k2)"

definition dictKeyEq :: "('k, 'v) dictType \<Rightarrow> 'k \<Rightarrow> 'k \<Rightarrow> bool" where
  \<comment> \<open>the test \<open>key==he->key || dictCompareKeys(d, key, he->key)\<close>\<close>
  "dictKeyEq t k1 k2 \<longleftrightarrow> k1 = k2 \<or> dictCompareKeys t k1 k2"

definition dictIsRehashing :: "('k, 'v) dict \<Rightarrow> bool" where
  "dictIsRehashing d \<longleftrightarrow> rehashidx d \<noteq> -1"

definition dictSize :: "('k, 'v) dict \<Rightarrow> nat" where
  "dictSize d = ht_used (ht0 d) + ht_used (ht1 d)"

definition dictSlots :: "('k, 'v) dict \<Rightarrow> nat" where
  "dictSlots d = ht_size (ht0 d) + ht_size (ht1 d)"

section \<open>Creation and resizing\<close>

definition dictReset :: "('k, 'v) dictht" where
  "dictReset = \<lparr>ht_table = [], ht_size = 0, ht_sizemask = 0, ht_used = 0\<rparr>"

definition dictCreate :: "('k, 'v) dict" where
  "dictCreate = \<lparr>ht0 = dictReset, ht1 = dictReset, rehashidx = -1, iterators = 0\<rparr>"

definition dictNextPower :: "nat \<Rightarrow> nat" where
  "dictNextPower sz =
     (if sz \<ge> 2 ^ 63 - 1 then 2 ^ 63
      else while (\<lambda>i. \<not> i \<ge> sz) (\<lambda>i. i * 2) DICT_HT_INITIAL_SIZE)"

text \<open>
  The allocation of \<open>realsize*sizeof(dictEntry*)\<close> bytes: from \<open>PTRDIFF_MAX\<close> bytes on it fails, which ends the
  process, and from \<open>2 ^ 61\<close> buckets on the product wraps around to 0, so that the table has no
  bucket. Both are \<open>None\<close>; smaller allocations succeed.
\<close>

definition dictExpand :: "('k, 'v) dict \<Rightarrow> nat \<Rightarrow> (('k, 'v) dict \<times> dict_res) option" where
  "dictExpand d sz =
     (let realsize = dictNextPower sz in
      if dictIsRehashing d \<or> ht_used (ht0 d) > sz then Some (d, DICT_ERR)
      else if realsize = ht_size (ht0 d) then Some (d, DICT_ERR)
      else if realsize * 8 \<ge> 2 ^ 63 - 1 then None
      else
        let n = \<lparr>ht_table = replicate realsize [], ht_size = realsize,
                 ht_sizemask = of_nat (realsize - 1), ht_used = 0\<rparr>
        in if ht_table (ht0 d) = [] then Some (d\<lparr>ht0 := n\<rparr>, DICT_OK)
           else Some (d\<lparr>ht1 := n, rehashidx := 0\<rparr>, DICT_OK))"

definition dictResize :: "bool \<Rightarrow> ('k, 'v) dict \<Rightarrow> (('k, 'v) dict \<times> dict_res) option" where
  \<comment> \<open>\<open>int minimal = d->ht[0].used\<close> keeps the low 32 bits\<close>
  "dictResize can_resize d =
     (if \<not> can_resize \<or> dictIsRehashing d then Some (d, DICT_ERR)
      else
        let minimal = signed_take_bit 31 (int (ht_used (ht0 d)));
            minimal = (if minimal < int DICT_HT_INITIAL_SIZE then int DICT_HT_INITIAL_SIZE
                       else minimal)
        in dictExpand d (nat minimal))"

definition dictExpandIfNeeded :: "bool \<Rightarrow> ('k, 'v) dict \<Rightarrow> (('k, 'v) dict \<times> dict_res) option" where
  "dictExpandIfNeeded can_resize d =
     (if dictIsRehashing d then Some (d, DICT_OK)
      else if ht_size (ht0 d) = 0 then dictExpand d DICT_HT_INITIAL_SIZE
      else if ht_used (ht0 d) \<ge> ht_size (ht0 d) \<and>
              (can_resize \<or> ht_used (ht0 d) div ht_size (ht0 d) > dict_force_resize_ratio)
      then dictExpand d (ht_used (ht0 d) * 2)
      else Some (d, DICT_OK))"

section \<open>Buckets\<close>

definition bucket :: "('k, 'v) dictht \<Rightarrow> nat \<Rightarrow> ('k, 'v) dictEntry list option" where
  "bucket ht idx = (if idx < length (ht_table ht) then Some (ht_table ht ! idx) else None)"

definition set_bucket ::
  "('k, 'v) dictht \<Rightarrow> nat \<Rightarrow> ('k, 'v) dictEntry list \<Rightarrow> ('k, 'v) dictht" where
  "set_bucket ht idx c = ht\<lparr>ht_table := (ht_table ht)[idx := c]\<rparr>"

definition ht_index :: "('k, 'v) dictht \<Rightarrow> u64 \<Rightarrow> nat" where
  "ht_index ht h = unat (h AND ht_sizemask ht)"

definition get_ht :: "('k, 'v) dict \<Rightarrow> nat \<Rightarrow> ('k, 'v) dictht" where
  "get_ht d i = (if i = 0 then ht0 d else ht1 d)"

definition set_ht :: "('k, 'v) dict \<Rightarrow> nat \<Rightarrow> ('k, 'v) dictht \<Rightarrow> ('k, 'v) dict" where
  "set_ht d i ht = (if i = 0 then d\<lparr>ht0 := ht\<rparr> else d\<lparr>ht1 := ht\<rparr>)"

section \<open>Rehashing\<close>

text \<open>
  The inner loop over empty buckets: \<open>(True, d, _)\<close> is the early \<open>return 1\<close> after
  \<open>empty_visits\<close> buckets, \<open>(False, d, ev)\<close> a non-empty bucket at \<open>rehashidx\<close>.
\<close>

function dictRehash_skip :: "('k, 'v) dict \<Rightarrow> int \<Rightarrow> (bool \<times> ('k, 'v) dict \<times> int) option" where
  "dictRehash_skip d ev =
     (if 0 \<le> rehashidx d \<and> rehashidx d < int (length (ht_table (ht0 d))) then
        (if ht_table (ht0 d) ! nat (rehashidx d) = [] then
           (let d' = d\<lparr>rehashidx := rehashidx d + 1\<rparr> in
            if ev - 1 = 0 then Some (True, d', 0) else dictRehash_skip d' (ev - 1))
         else Some (False, d, ev))
      else None)"
  by pat_completeness auto
termination
  by (relation "measure (\<lambda>(d, ev). nat (int (length (ht_table (ht0 d))) - rehashidx d))") auto

fun dictRehash_move ::
  "('k, 'v) dictType \<Rightarrow> ('k, 'v) dict \<Rightarrow> ('k, 'v) dictEntry list \<Rightarrow> ('k, 'v) dict option" where
  "dictRehash_move t d [] = Some d"
| "dictRehash_move t d (de # des) =
     (let h = ht_index (ht1 d) (hashFunction t (de_key de)) in
      case bucket (ht1 d) h of
        None \<Rightarrow> None
      | Some c \<Rightarrow>
          dictRehash_move t
            (d\<lparr>ht0 := (ht0 d)\<lparr>ht_used := ht_used (ht0 d) - 1\<rparr>,
               ht1 := (set_bucket (ht1 d) h (de # c))\<lparr>ht_used := ht_used (ht1 d) + 1\<rparr>\<rparr>) des)"

definition dictRehash_finish :: "('k, 'v) dict \<Rightarrow> ('k, 'v) dict \<times> bool" where
  "dictRehash_finish d =
     (if ht_used (ht0 d) = 0
      then (d\<lparr>ht0 := ht1 d, ht1 := dictReset, rehashidx := -1\<rparr>, False)
      else (d, True))"

fun dictRehash_loop ::
  "('k, 'v) dictType \<Rightarrow> nat \<Rightarrow> int \<Rightarrow> ('k, 'v) dict \<Rightarrow> (('k, 'v) dict \<times> bool) option" where
  "dictRehash_loop t 0 ev d = Some (dictRehash_finish d)"
| "dictRehash_loop t (Suc n) ev d =
     (if ht_used (ht0 d) = 0 then Some (dictRehash_finish d)
      else if \<not> int (ht_size (ht0 d)) > rehashidx d then None
      else
        case dictRehash_skip d ev of
          None \<Rightarrow> None
        | Some (True, d1, _) \<Rightarrow> Some (d1, True)
        | Some (False, d1, ev1) \<Rightarrow>
            (let i = nat (rehashidx d1) in
             case dictRehash_move t d1 (ht_table (ht0 d1) ! i) of
               None \<Rightarrow> None
             | Some d2 \<Rightarrow>
                 dictRehash_loop t n ev1
                   (d2\<lparr>ht0 := set_bucket (ht0 d2) i [], rehashidx := rehashidx d2 + 1\<rparr>)))"

definition dictRehash ::
  "('k, 'v) dictType \<Rightarrow> ('k, 'v) dict \<Rightarrow> nat \<Rightarrow> (('k, 'v) dict \<times> bool) option" where
  \<comment> \<open>\<open>int empty_visits = n*10\<close> comes first; its overflow is undefined\<close>
  "dictRehash t d n =
     (if int n * 10 \<ge> 2 ^ 31 then None
      else if \<not> dictIsRehashing d then Some (d, False)
      else dictRehash_loop t n (int n * 10) d)"

definition dictRehashStep ::
  "('k, 'v) dictType \<Rightarrow> ('k, 'v) dict \<Rightarrow> ('k, 'v) dict option" where
  "dictRehashStep t d =
     (if iterators d = 0 then map_option fst (dictRehash t d 1) else Some d)"

definition rehashStepIf ::
  "('k, 'v) dictType \<Rightarrow> ('k, 'v) dict \<Rightarrow> ('k, 'v) dict option" where
  \<comment> \<open>\<open>if (dictIsRehashing(d)) _dictRehashStep(d)\<close>\<close>
  "rehashStepIf t d = (if dictIsRehashing d then dictRehashStep t d else Some d)"

section \<open>Lookup\<close>

fun chain_find :: "('k, 'v) dictType \<Rightarrow> 'k \<Rightarrow> ('k, 'v) dictEntry list \<Rightarrow> nat option" where
  "chain_find t k [] = None"
| "chain_find t k (he # c) = (if dictKeyEq t k (de_key he) then Some 0
                              else map_option Suc (chain_find t k c))"

text \<open>
  The loop over the two tables that \<open>dictFind\<close>, \<open>_dictKeyIndex\<close> and \<open>dictGenericDelete\<close>
  share: the chain of the first table, and of the second only while rehashing.
\<close>

definition table_search ::
  "('k, 'v) dictType \<Rightarrow> ('k, 'v) dict \<Rightarrow> 'k \<Rightarrow> u64 \<Rightarrow> entry_loc option option" where
  "table_search t d k h =
     do {
       let idx0 = ht_index (ht0 d) h;
       c0 \<leftarrow> bucket (ht0 d) idx0;
       case chain_find t k c0 of
         Some i \<Rightarrow> Some (Some (0, idx0, i))
       | None \<Rightarrow>
           if \<not> dictIsRehashing d then Some None
           else do {
             let idx1 = ht_index (ht1 d) h;
             c1 \<leftarrow> bucket (ht1 d) idx1;
             Some (map_option (\<lambda>i. (1, idx1, i)) (chain_find t k c1))
           }
     }"

definition entry_at :: "('k, 'v) dict \<Rightarrow> entry_loc \<Rightarrow> ('k, 'v) dictEntry" where
  "entry_at d loc = (case loc of (tb, idx, i) \<Rightarrow> ht_table (get_ht d tb) ! idx ! i)"

definition dictFind ::
  "('k, 'v) dictType \<Rightarrow> ('k, 'v) dict \<Rightarrow> 'k \<Rightarrow> (('k, 'v) dict \<times> entry_loc option) option" where
  "dictFind t d k =
     (if ht_used (ht0 d) + ht_used (ht1 d) = 0 then Some (d, None)
      else do {
        d1 \<leftarrow> rehashStepIf t d;
        r \<leftarrow> table_search t d1 k (hashFunction t k);
        Some (d1, r)
      })"

definition dictFetchValue ::
  "('k, 'v) dictType \<Rightarrow> ('k, 'v) dict \<Rightarrow> 'k \<Rightarrow> (('k, 'v) dict \<times> 'v option) option" where
  "dictFetchValue t d k =
     map_option (\<lambda>(d1, he). (d1, map_option (\<lambda>loc. de_val (entry_at d1 loc)) he)) (dictFind t d k)"

section \<open>Insertion\<close>

text \<open>
  \<open>dictKeyIndex\<close> returns the dictionary after the possible expansion and either the index of
  the free slot (\<open>Inr\<close>) or, where the code returns -1, the location stored through
  \<open>existing\<close> (\<open>Inl\<close>).
\<close>

definition dictKeyIndex ::
  "bool \<Rightarrow> ('k, 'v) dictType \<Rightarrow> ('k, 'v) dict \<Rightarrow> 'k \<Rightarrow> u64 \<Rightarrow>
   (('k, 'v) dict \<times> (entry_loc option + nat)) option" where
  "dictKeyIndex can_resize t d k hash =
     (case dictExpandIfNeeded can_resize d of
        None \<Rightarrow> None
      | Some (d1, DICT_ERR) \<Rightarrow> Some (d1, Inl None)
      | Some (d1, DICT_OK) \<Rightarrow> do {
          r \<leftarrow> table_search t d1 k hash;
          case r of
            Some loc \<Rightarrow> Some (d1, Inl (Some loc))
          | None \<Rightarrow> Some (d1, Inr (ht_index (if dictIsRehashing d1 then ht1 d1 else ht0 d1) hash))
        })"

text \<open>
  The new entry heads its chain; its value field holds \<open>junk\<close> until the caller sets it.
  The result is \<open>Inr loc\<close> for the new entry, \<open>Inl existing\<close> where the code returns NULL.
\<close>

definition dictAddRaw ::
  "bool \<Rightarrow> 'v \<Rightarrow> ('k, 'v) dictType \<Rightarrow> ('k, 'v) dict \<Rightarrow> 'k \<Rightarrow>
   (('k, 'v) dict \<times> (entry_loc option + entry_loc)) option" where
  "dictAddRaw can_resize junk t d k =
     do {
       d1 \<leftarrow> rehashStepIf t d;
       (d2, r) \<leftarrow> dictKeyIndex can_resize t d1 k (hashFunction t k);
       case r of
         Inl existing \<Rightarrow> Some (d2, Inl existing)
       | Inr index \<Rightarrow> do {
           let tb = (if dictIsRehashing d2 then 1 else 0);
           let ht = get_ht d2 tb;
           c \<leftarrow> bucket ht index;
           let e = \<lparr>de_key = dictDupKey t k, de_val = junk\<rparr>;
           let ht' = (set_bucket ht index (e # c))\<lparr>ht_used := ht_used ht + 1\<rparr>;
           Some (set_ht d2 tb ht', Inr (tb, index, 0))
         }
     }"

definition dictSetVal ::
  "('k, 'v) dictType \<Rightarrow> ('k, 'v) dict \<Rightarrow> entry_loc \<Rightarrow> 'v \<Rightarrow> ('k, 'v) dict" where
  "dictSetVal t d loc v =
     (case loc of (tb, idx, i) \<Rightarrow>
        let ht = get_ht d tb; c = ht_table ht ! idx
        in set_ht d tb (set_bucket ht idx (c[i := (c ! i)\<lparr>de_val := dictDupVal t v\<rparr>])))"

definition dictAdd ::
  "bool \<Rightarrow> 'v \<Rightarrow> ('k, 'v) dictType \<Rightarrow> ('k, 'v) dict \<Rightarrow> 'k \<Rightarrow> 'v \<Rightarrow>
   (('k, 'v) dict \<times> dict_res) option" where
  "dictAdd can_resize junk t d k v =
     do {
       (d1, r) \<leftarrow> dictAddRaw can_resize junk t d k;
       case r of
         Inl _ \<Rightarrow> Some (d1, DICT_ERR)
       | Inr loc \<Rightarrow> Some (dictSetVal t d1 loc v, DICT_OK)
     }"

definition dictReplace ::
  "bool \<Rightarrow> 'v \<Rightarrow> ('k, 'v) dictType \<Rightarrow> ('k, 'v) dict \<Rightarrow> 'k \<Rightarrow> 'v \<Rightarrow>
   (('k, 'v) dict \<times> nat \<times> ('k, 'v) dict_call list) option" where
  \<comment> \<open>a NULL \<open>existing\<close> would be dereferenced: \<open>None\<close>\<close>
  "dictReplace can_resize junk t d k v =
     do {
       (d1, r) \<leftarrow> dictAddRaw can_resize junk t d k;
       case r of
         Inr loc \<Rightarrow> Some (dictSetVal t d1 loc v, 1, [])
       | Inl None \<Rightarrow> None
       | Inl (Some existing) \<Rightarrow>
           (let auxentry = entry_at d1 existing
            in Some (dictSetVal t d1 existing v, 0, dictFreeVal t auxentry))
     }"

definition dictAddOrFind ::
  "bool \<Rightarrow> 'v \<Rightarrow> ('k, 'v) dictType \<Rightarrow> ('k, 'v) dict \<Rightarrow> 'k \<Rightarrow>
   (('k, 'v) dict \<times> entry_loc option) option" where
  "dictAddOrFind can_resize junk t d k =
     do {
       (d1, r) \<leftarrow> dictAddRaw can_resize junk t d k;
       case r of Inr loc \<Rightarrow> Some (d1, Some loc) | Inl existing \<Rightarrow> Some (d1, existing)
     }"

section \<open>Removal\<close>

definition dictGenericDelete ::
  "('k, 'v) dictType \<Rightarrow> ('k, 'v) dict \<Rightarrow> 'k \<Rightarrow> bool \<Rightarrow>
   (('k, 'v) dict \<times> ('k, 'v) dictEntry option \<times> ('k, 'v) dict_call list) option" where
  "dictGenericDelete t d k nofree =
     (if ht_used (ht0 d) = 0 \<and> ht_used (ht1 d) = 0 then Some (d, None, [])
      else do {
        d1 \<leftarrow> rehashStepIf t d;
        r \<leftarrow> table_search t d1 k (hashFunction t k);
        case r of
          None \<Rightarrow> Some (d1, None, [])
        | Some (tb, idx, i) \<Rightarrow>
            (let ht = get_ht d1 tb; c = ht_table ht ! idx; he = c ! i;
                 ht' = (set_bucket ht idx (take i c @ drop (Suc i) c))\<lparr>ht_used := ht_used ht - 1\<rparr>
             in Some (set_ht d1 tb ht', Some he,
                      if nofree then [] else dictFreeKey t he @ dictFreeVal t he))
      })"

definition dictDelete ::
  "('k, 'v) dictType \<Rightarrow> ('k, 'v) dict \<Rightarrow> 'k \<Rightarrow>
   (('k, 'v) dict \<times> dict_res \<times> ('k, 'v) dict_call list) option" where
  "dictDelete t d k =
     map_option (\<lambda>(d1, he, calls). (d1, if he \<noteq> None then DICT_OK else DICT_ERR, calls))
       (dictGenericDelete t d k False)"

definition dictUnlink ::
  "('k, 'v) dictType \<Rightarrow> ('k, 'v) dict \<Rightarrow> 'k \<Rightarrow> (('k, 'v) dict \<times> ('k, 'v) dictEntry option) option" where
  "dictUnlink t d k = map_option (\<lambda>(d1, he, calls). (d1, he)) (dictGenericDelete t d k True)"

definition dictFreeUnlinkedEntry ::
  "('k, 'v) dictType \<Rightarrow> ('k, 'v) dictEntry option \<Rightarrow> ('k, 'v) dict_call list" where
  "dictFreeUnlinkedEntry t he =
     (case he of None \<Rightarrow> [] | Some e \<Rightarrow> dictFreeKey t e @ dictFreeVal t e)"

text \<open>\<open>_dictClear\<close>: the loop stops when \<open>used\<close> reaches 0; every 65536 buckets the callback runs.\<close>

fun dictClear_loop ::
  "('k, 'v) dictType \<Rightarrow> bool \<Rightarrow> nat \<Rightarrow> nat \<Rightarrow> ('k, 'v) dictEntry list list \<Rightarrow> ('k, 'v) dict_call list" where
  "dictClear_loop t cb i used [] = []"
| "dictClear_loop t cb i used (c # cs) =
     (if used > 0 then
        (if cb \<and> i mod 65536 = 0 then [EmptyCallback] else []) @
        concat (map (\<lambda>he. dictFreeKey t he @ dictFreeVal t he) c) @
        dictClear_loop t cb (Suc i) (used - length c) cs
      else [])"

definition dictClear ::
  "('k, 'v) dictType \<Rightarrow> bool \<Rightarrow> ('k, 'v) dictht \<Rightarrow> ('k, 'v) dictht \<times> ('k, 'v) dict_call list" where
  "dictClear t cb ht = (dictReset, dictClear_loop t cb 0 (ht_used ht) (ht_table ht))"

definition dictEmpty ::
  "('k, 'v) dictType \<Rightarrow> bool \<Rightarrow> ('k, 'v) dict \<Rightarrow> ('k, 'v) dict \<times> ('k, 'v) dict_call list" where
  "dictEmpty t cb d =
     (let (h0, calls0) = dictClear t cb (ht0 d); (h1, calls1) = dictClear t cb (ht1 d)
      in (d\<lparr>ht0 := h0, ht1 := h1, rehashidx := -1, iterators := 0\<rparr>, calls0 @ calls1))"

definition dictRelease :: "('k, 'v) dictType \<Rightarrow> ('k, 'v) dict \<Rightarrow> ('k, 'v) dict_call list" where
  "dictRelease t d = snd (dictClear t False (ht0 d)) @ snd (dictClear t False (ht1 d))"

declare dictRehash_skip.simps [simp del]

end
