(* ===== verification/Dict_Correct.thy ===== *)
theory Dict_Correct
  imports Dict
begin

text \<open>
  Correctness of \<open>dict.c\<close>: an invariant of the two-table state, the finite map it represents,
  and for every operation that it returns, keeps the invariant and acts on the map as it
  should. What a key type has to provide is the locale \<open>dict_keys\<close>: its comparison is an
  equivalence and equal keys have equal hashes.
\<close>

section \<open>Bucket arrays\<close>

lemma mset_concat_update:
  "i < length xss \<Longrightarrow> mset (concat (xss[i := ys])) + mset (xss ! i) = mset (concat xss) + mset ys"
proof (induction xss arbitrary: i)
  case (Cons xs xss)
  then show ?case by (cases i) (auto simp: algebra_simps)
qed simp

lemma length_concat_update:
  assumes "i < length xss"
  shows "length (concat (xss[i := ys])) + length (xss ! i) = length (concat xss) + length ys"
  using arg_cong [OF mset_concat_update [OF assms, of ys], of size] by simp

lemma set_concat_nth: "x \<in> set (concat xss) \<longleftrightarrow> (\<exists>i < length xss. x \<in> set (xss ! i))"
  by (metis (no_types, lifting) UN_iff in_set_conv_nth set_concat)

lemma nth_update_cases: "j < length xs \<Longrightarrow> xs[i := x] ! j = (if i = j then x else xs ! j)"
  by (cases "i = j") auto

lemma mset_delete_nth:
  "i < length c \<Longrightarrow> mset (take i c @ drop (Suc i) c) + {#c ! i#} = mset c"
  by (subst (4) id_take_nth_drop [of i c]) auto

lemma mset_set_nth:
  "i < length c \<Longrightarrow> mset (c[i := x]) + {#c ! i#} = mset c + {#x#}"
  by (simp add: mset_update)

lemma of_nat_mask: "(of_nat (2 ^ n - 1) :: u64) = mask n"
proof -
  have "(of_nat (2 ^ n - 1) :: u64) = of_nat (2 ^ n) - 1"
    by (subst of_nat_diff) auto
  then show ?thesis by (simp add: mask_eq_exp_minus_1)
qed

lemma unat_and_mask: "unat (h AND (mask n :: u64)) = unat h mod 2 ^ n"
proof -
  have "unat (take_bit n h) = take_bit n (unat h)" by (rule unsigned_take_bit_eq)
  then show ?thesis by (metis take_bit_eq_mask take_bit_eq_mod)
qed

section \<open>The invariant\<close>

definition ht_shape :: "('k, 'v) dictType \<Rightarrow> ('k, 'v) dictht \<Rightarrow> bool" where
  "ht_shape t ht \<longleftrightarrow>
     (\<exists>n. 2 \<le> n \<and> n \<le> 63 \<and> ht_size ht = 2 ^ n \<and> length (ht_table ht) = 2 ^ n \<and>
          ht_sizemask ht = mask n) \<and>
     (\<forall>i < length (ht_table ht). \<forall>e \<in> set (ht_table ht ! i).
        ht_index ht (hashFunction t (de_key e)) = i)"

definition ht_inv :: "('k, 'v) dictType \<Rightarrow> ('k, 'v) dictht \<Rightarrow> bool" where
  "ht_inv t ht \<longleftrightarrow>
     ht = dictReset \<or> (ht_shape t ht \<and> ht_used ht = length (concat (ht_table ht)))"

definition dict_entries :: "('k, 'v) dict \<Rightarrow> ('k, 'v) dictEntry multiset" where
  "dict_entries d = mset (concat (ht_table (ht0 d))) + mset (concat (ht_table (ht1 d)))"

definition keys_uniq :: "('k, 'v) dictType \<Rightarrow> ('k, 'v) dictEntry multiset \<Rightarrow> bool" where
  "keys_uniq t M \<longleftrightarrow> (\<forall>k. size {#e \<in># M. dictKeyEq t k (de_key e)#} \<le> 1)"

definition dict_tables :: "('k, 'v) dictType \<Rightarrow> ('k, 'v) dict \<Rightarrow> bool" where
  "dict_tables t d \<longleftrightarrow>
     ht_inv t (ht0 d) \<and> ht_inv t (ht1 d) \<and>
     (if rehashidx d = -1 then ht1 d = dictReset
      else ht0 d \<noteq> dictReset \<and> ht1 d \<noteq> dictReset \<and>
           0 \<le> rehashidx d \<and> rehashidx d < int (ht_size (ht0 d)) \<and>
           (\<forall>i < nat (rehashidx d). ht_table (ht0 d) ! i = []))"

definition dict_ok :: "('k, 'v) dictType \<Rightarrow> ('k, 'v) dict \<Rightarrow> bool" where
  "dict_ok t d \<longleftrightarrow> dict_tables t d \<and> keys_uniq t (dict_entries d)"

text \<open>The represented map: the value of the entry whose key compares equal.\<close>

definition dict_lookup :: "('k, 'v) dictType \<Rightarrow> ('k, 'v) dict \<Rightarrow> 'k \<Rightarrow> 'v option" where
  "dict_lookup t d k =
     map_option de_val
       (find (\<lambda>e. dictKeyEq t k (de_key e)) (concat (ht_table (ht0 d)) @ concat (ht_table (ht1 d))))"

lemma dictReset_simps [simp]:
  "ht_table dictReset = []" "ht_size dictReset = 0" "ht_sizemask dictReset = 0" "ht_used dictReset = 0"
  by (simp_all add: dictReset_def)

lemma ht_shape_not_reset [simp]: "\<not> ht_shape t dictReset"
  by (auto simp: ht_shape_def)

lemma ht_inv_reset [simp]: "ht_inv t dictReset"
  by (simp add: ht_inv_def)

lemma ht_inv_used: "ht_inv t ht \<Longrightarrow> ht_used ht = length (concat (ht_table ht))"
  by (auto simp: ht_inv_def)

lemma ht_inv_shape: "ht_inv t ht \<Longrightarrow> ht \<noteq> dictReset \<Longrightarrow> ht_shape t ht"
  by (auto simp: ht_inv_def)

lemma ht_shape_inv: "ht_shape t ht \<Longrightarrow> ht_used ht = length (concat (ht_table ht)) \<Longrightarrow> ht_inv t ht"
  by (simp add: ht_inv_def)

lemma ht_shape_size: "ht_shape t ht \<Longrightarrow> ht_size ht = length (ht_table ht) \<and> 4 \<le> length (ht_table ht)"
proof -
  assume "ht_shape t ht"
  then obtain n where n: "2 \<le> n" "ht_size ht = 2 ^ n" "length (ht_table ht) = 2 ^ n"
    by (auto simp: ht_shape_def)
  have "(2::nat) ^ 2 \<le> 2 ^ n" using n(1) by (intro power_increasing) auto
  then show ?thesis using n by simp
qed

lemma ht_inv_size: "ht_inv t ht \<Longrightarrow> ht_size ht = length (ht_table ht)"
  using ht_shape_size by (auto simp: ht_inv_def)

lemma ht_inv_table_Nil: "ht_inv t ht \<Longrightarrow> ht_table ht = [] \<longleftrightarrow> ht = dictReset"
  using ht_shape_size by (fastforce simp: ht_inv_def)

lemma ht_index_less: "ht_shape t ht \<Longrightarrow> ht_index ht h < length (ht_table ht)"
  by (auto simp: ht_shape_def ht_index_def unat_and_mask)

lemma ht_shape_member:
  assumes "ht_shape t ht" and "e \<in> set (concat (ht_table ht))"
  shows "e \<in> set (ht_table ht ! ht_index ht (hashFunction t (de_key e)))"
  using assms by (auto simp: ht_shape_def set_concat_nth simp del: set_concat)

lemma ht_shape_set_bucket:
  assumes "ht_shape t ht" and "\<forall>e \<in> set c. ht_index ht (hashFunction t (de_key e)) = i"
  shows "ht_shape t ((set_bucket ht i c)\<lparr>ht_used := u\<rparr>)"
  using assms unfolding ht_shape_def
  by (auto simp: set_bucket_def ht_index_def nth_update_cases split: if_splits)

lemma ht_inv_set_bucket:
  assumes "ht_inv t ht" and "i < length (ht_table ht)"
    and "\<forall>e \<in> set c. ht_index ht (hashFunction t (de_key e)) = i"
    and "u + length (ht_table ht ! i) = ht_used ht + length c"
  shows "ht_inv t ((set_bucket ht i c)\<lparr>ht_used := u\<rparr>)"
proof -
  have "ht \<noteq> dictReset" using assms(2) by auto
  then have "ht_shape t ht" and used: "ht_used ht = length (concat (ht_table ht))"
    using assms(1) by (auto simp: ht_inv_def)
  moreover have "u = length (concat ((ht_table ht)[i := c]))"
    using length_concat_update [OF assms(2), of c] assms(4) used by simp
  ultimately show ?thesis
    using ht_shape_set_bucket [OF _ assms(3)] by (intro ht_shape_inv) (simp_all add: set_bucket_def)
qed

lemma ht_bucket_index:
  "ht_inv t ht \<Longrightarrow> i < length (ht_table ht) \<Longrightarrow> e \<in> set (ht_table ht ! i) \<Longrightarrow>
   ht_index ht (hashFunction t (de_key e)) = i"
  using ht_inv_table_Nil by (fastforce simp: ht_inv_def ht_shape_def)

lemma dict_entries_set_ht:
  "i < length (ht_table (get_ht d tb)) \<Longrightarrow>
   dict_entries (set_ht d tb ((set_bucket (get_ht d tb) i c)\<lparr>ht_used := u\<rparr>)) + mset (ht_table (get_ht d tb) ! i) =
   dict_entries d + mset c"
  using mset_concat_update [of i "ht_table (get_ht d tb)" c]
  by (simp add: dict_entries_def set_ht_def get_ht_def set_bucket_def algebra_simps split: if_splits)

section \<open>The empty dictionary and resizing\<close>

lemma dictCreate_ok: "dict_ok t dictCreate" and dict_entries_create: "dict_entries dictCreate = {#}"
  by (simp_all add: dict_ok_def dict_tables_def dictCreate_def dict_entries_def keys_uniq_def)

lemma doubling_power:
  assumes "2 \<le> k" "sz \<le> 2 ^ k"
  shows "\<exists>n. 2 \<le> n \<and> n \<le> k \<and> while (\<lambda>i. \<not> i \<ge> sz) (\<lambda>i. i * 2) (4::nat) = 2 ^ n"
proof (rule while_rule [where P = "\<lambda>i. \<exists>n. 2 \<le> n \<and> n \<le> k \<and> i = 2 ^ n" and r = "measure (\<lambda>i. sz - i)"])
  show "\<exists>n. 2 \<le> n \<and> n \<le> k \<and> (4::nat) = 2 ^ n" using assms(1) by (intro exI [of _ 2]) simp
next
  fix i :: nat
  assume "\<exists>n. 2 \<le> n \<and> n \<le> k \<and> i = 2 ^ n" and "\<not> sz \<le> i"
  then obtain n where n: "2 \<le> n" "n \<le> k" "i = 2 ^ n" "2 ^ n < (2::nat) ^ k" using assms(2) by force
  then have "n < k" using power_less_imp_less_exp [of "2::nat" n k] by simp
  then show "\<exists>n. 2 \<le> n \<and> n \<le> k \<and> i * 2 = 2 ^ n" using n by (intro exI [of _ "Suc n"]) simp
  show "(i * 2, i) \<in> measure (\<lambda>i. sz - i)"
    using \<open>\<not> sz \<le> i\<close> n by (simp add: diff_less_mono2)
qed auto

lemma dictNextPower_spec: "\<exists>n. 2 \<le> n \<and> n \<le> 63 \<and> dictNextPower sz = 2 ^ n"
proof (cases "sz \<ge> 2 ^ 63 - 1")
  case True
  then show ?thesis by (intro exI [of _ 63]) (simp add: dictNextPower_def)
next
  case False
  then show ?thesis using doubling_power [of 63 sz] by (simp add: dictNextPower_def)
qed

lemma dictNextPower_le: "2 \<le> k \<Longrightarrow> k < 63 \<Longrightarrow> sz \<le> 2 ^ k \<Longrightarrow> dictNextPower sz \<le> 2 ^ k"
proof -
  assume k: "2 \<le> k" "k < 63" "sz \<le> 2 ^ k"
  have "(2::nat) ^ k \<le> 2 ^ 62" using k(2) by (intro power_increasing) auto
  then have "\<not> sz \<ge> 2 ^ 63 - 1" using k(3) by simp
  moreover obtain n where "n \<le> k" "while (\<lambda>i. \<not> i \<ge> sz) (\<lambda>i. i * 2) (4::nat) = 2 ^ n"
    using doubling_power [OF k(1,3)] by blast
  ultimately show ?thesis by (simp add: dictNextPower_def power_increasing)
qed

lemma dictNextPower_ge: "sz \<le> 2 ^ 63 \<Longrightarrow> sz \<le> dictNextPower sz"
proof (cases "sz \<ge> 2 ^ 63 - 1")
  case False
  have "sz \<le> while (\<lambda>i. \<not> i \<ge> sz) (\<lambda>i. i * 2) (4::nat)"
    by (rule while_rule [where P = "\<lambda>i. 0 < i" and r = "measure (\<lambda>i. sz - i)"]) auto
  then show ?thesis using False by (simp add: dictNextPower_def)
qed (simp add: dictNextPower_def)

lemma new_table_shape:
  assumes "rs = dictNextPower sz"
  shows "ht_shape t \<lparr>ht_table = replicate rs [], ht_size = rs,
                     ht_sizemask = of_nat (rs - 1), ht_used = 0\<rparr>"
proof -
  obtain n where "2 \<le> n" "n \<le> 63" "rs = 2 ^ n" using dictNextPower_spec [of sz] assms by auto
  moreover from this(3) have "(of_nat (rs - 1) :: u64) = mask n" by (simp only: of_nat_mask)
  ultimately show ?thesis by (auto simp: ht_shape_def)
qed

lemma concat_replicate_Nil [simp]: "concat (replicate n []) = []"
  by (induction n) auto

lemma dictExpand_ok:
  assumes "dict_tables t d" "sz \<le> 2 ^ 59"
  shows "\<exists>d' r. dictExpand d sz = Some (d', r) \<and> dict_tables t d' \<and> dict_entries d' = dict_entries d \<and>
         iterators d' = iterators d"
proof -
  define n where "n = (\<lparr>ht_table = replicate (dictNextPower sz) [], ht_size = dictNextPower sz,
    ht_sizemask = of_nat (dictNextPower sz - 1), ht_used = 0\<rparr> :: ('a, 'b) dictht)"
  have shape: "ht_shape t n" unfolding n_def by (rule new_table_shape) simp
  then have n: "ht_inv t n" "n \<noteq> dictReset" "concat (ht_table n) = []"
    by (auto simp: n_def ht_inv_def)
  have fits: "\<not> dictNextPower sz * 8 \<ge> 2 ^ 63 - 1" using dictNextPower_le [of 59 sz] assms(2) by simp
  show ?thesis
  proof (cases "dictIsRehashing d \<or> ht_used (ht0 d) > sz \<or> dictNextPower sz = ht_size (ht0 d)")
    case True
    then show ?thesis using assms(1) by (auto simp: dictExpand_def Let_def)
  next
    case False
    then have r: "rehashidx d = -1" and h1: "ht1 d = dictReset"
      using assms(1) by (auto simp: dictIsRehashing_def dict_tables_def)
    have h0: "ht_inv t (ht0 d)" using assms(1) by (simp add: dict_tables_def)
    show ?thesis
    proof (cases "ht_table (ht0 d) = []")
      case True
      then have "dictExpand d sz = Some (d\<lparr>ht0 := n\<rparr>, DICT_OK)"
        using False fits by (simp add: dictExpand_def Let_def n_def)
      then show ?thesis using n r h1 True by (simp add: dict_tables_def dict_entries_def)
    next
      case ne: False
      then have "dictExpand d sz = Some (d\<lparr>ht1 := n, rehashidx := 0\<rparr>, DICT_OK)"
        using False fits by (simp add: dictExpand_def Let_def n_def)
      moreover have "0 < ht_size (ht0 d)" "ht0 d \<noteq> dictReset" using ne ht_inv_size [OF h0] by auto
      ultimately show ?thesis using n r h1 h0 by (simp add: dict_tables_def dict_entries_def)
    qed
  qed
qed

section \<open>Incremental rehashing\<close>

text \<open>
  Within \<open>dictRehash\<close> the index may have run past the last bucket; then the first table is
  empty and the code installs the second one before it returns.
\<close>

definition rehash_inv :: "('k, 'v) dictType \<Rightarrow> ('k, 'v) dict \<Rightarrow> bool" where
  "rehash_inv t d \<longleftrightarrow>
     ht_inv t (ht0 d) \<and> ht_inv t (ht1 d) \<and> ht0 d \<noteq> dictReset \<and> ht1 d \<noteq> dictReset \<and>
     0 \<le> rehashidx d \<and> (\<forall>i < length (ht_table (ht0 d)). int i < rehashidx d \<longrightarrow> ht_table (ht0 d) ! i = [])"

lemma dict_tables_rehash_inv: "dict_tables t d \<Longrightarrow> dictIsRehashing d \<Longrightarrow> rehash_inv t d"
  by (auto simp: dict_tables_def rehash_inv_def dictIsRehashing_def)

lemma rehash_inv_dict_tables:
  "rehash_inv t d \<Longrightarrow> rehashidx d < int (length (ht_table (ht0 d))) \<Longrightarrow> dict_tables t d"
  using ht_inv_size by (fastforce simp: dict_tables_def rehash_inv_def)

lemma rehash_inv_nonempty:
  assumes "rehash_inv t d" and "ht_used (ht0 d) \<noteq> 0"
  obtains j where "rehashidx d \<le> int j" "j < length (ht_table (ht0 d))" "ht_table (ht0 d) ! j \<noteq> []"
proof -
  have "concat (ht_table (ht0 d)) \<noteq> []"
    using assms ht_inv_used by (fastforce simp: rehash_inv_def)
  then obtain j where "j < length (ht_table (ht0 d))" "ht_table (ht0 d) ! j \<noteq> []"
    by (metis concat_eq_Nil_conv in_set_conv_nth)
  moreover from this have "rehashidx d \<le> int j"
    using assms(1) by (auto simp: rehash_inv_def not_less [symmetric])
  ultimately show thesis using that by blast
qed

lemma rehash_inv_advance:
  "rehash_inv t d \<Longrightarrow> ht_table (ht0 d) ! nat (rehashidx d) = [] \<Longrightarrow>
   rehash_inv t (d\<lparr>rehashidx := rehashidx d + 1\<rparr>)"
proof -
  assume inv: "rehash_inv t d" and e: "ht_table (ht0 d) ! nat (rehashidx d) = []"
  have "ht_table (ht0 d) ! i = []" if "i < length (ht_table (ht0 d))" "int i < rehashidx d + 1" for i
  proof (cases "int i = rehashidx d")
    case True
    then show ?thesis using e by (metis nat_int)
  next
    case False
    then show ?thesis using that inv by (auto simp: rehash_inv_def)
  qed
  then show ?thesis using inv by (simp add: rehash_inv_def)
qed

lemma dictRehash_skip_spec:
  "rehash_inv t d \<Longrightarrow> ht_used (ht0 d) \<noteq> 0 \<Longrightarrow> 0 < ev \<Longrightarrow>
   \<exists>b r ev'. dictRehash_skip d ev = Some (b, d\<lparr>rehashidx := r\<rparr>, ev') \<and>
     rehash_inv t (d\<lparr>rehashidx := r\<rparr>) \<and> rehashidx d \<le> r \<and> r < int (length (ht_table (ht0 d))) \<and>
     (b \<longrightarrow> rehashidx d < r) \<and> (\<not> b \<longrightarrow> ht_table (ht0 d) ! nat r \<noteq> [] \<and> 0 < ev')"
proof (induction d ev rule: dictRehash_skip.induct)
  case (1 d ev)
  obtain j where j: "rehashidx d \<le> int j" "j < length (ht_table (ht0 d))" "ht_table (ht0 d) ! j \<noteq> []"
    using rehash_inv_nonempty [OF "1.prems"(1,2)] by blast
  have rng: "0 \<le> rehashidx d \<and> rehashidx d < int (length (ht_table (ht0 d)))"
    using j "1.prems"(1) by (auto simp: rehash_inv_def)
  show ?case
  proof (cases "ht_table (ht0 d) ! nat (rehashidx d) = []")
    case False
    then show ?thesis using rng "1.prems"
      by (intro exI [of _ False] exI [of _ "rehashidx d"] exI [of _ ev])
         (simp add: dictRehash_skip.simps [of d ev])
  next
    case True
    let ?d = "d\<lparr>rehashidx := rehashidx d + 1\<rparr>"
    have inv: "rehash_inv t ?d" using rehash_inv_advance [OF "1.prems"(1) True] .
    have "rehashidx d \<noteq> int j" using True j(3) by auto
    then have lt: "rehashidx d + 1 < int (length (ht_table (ht0 d)))" using j by linarith
    show ?thesis
    proof (cases "ev - 1 = 0")
      case e: True
      then have "dictRehash_skip d ev = Some (True, ?d, 0)"
        using True rng by (subst dictRehash_skip.simps) simp
      then show ?thesis using inv lt by (intro exI [of _ True] exI [of _ "rehashidx d + 1"] exI [of _ 0]) simp
    next
      case e: False
      then have "dictRehash_skip d ev = dictRehash_skip ?d (ev - 1)"
        using True rng by (simp add: dictRehash_skip.simps [of d ev])
      moreover obtain b r ev' where "dictRehash_skip ?d (ev - 1) = Some (b, d\<lparr>rehashidx := r\<rparr>, ev')"
          "rehash_inv t (d\<lparr>rehashidx := r\<rparr>)" "rehashidx d + 1 \<le> r" "r < int (length (ht_table (ht0 d)))"
          "b \<longrightarrow> rehashidx d + 1 < r" "\<not> b \<longrightarrow> ht_table (ht0 d) ! nat r \<noteq> [] \<and> 0 < ev'"
        using "1.IH" [OF rng True refl e inv] "1.prems"(2,3) e by auto
      ultimately show ?thesis
        by (intro exI [of _ b] exI [of _ r] exI [of _ ev']) simp
    qed
  qed
qed

lemma dictRehash_move_spec:
  assumes "ht_inv t (ht1 d)" and "ht1 d \<noteq> dictReset"
  shows "\<exists>h1. dictRehash_move t d c =
           Some (d\<lparr>ht0 := (ht0 d)\<lparr>ht_used := ht_used (ht0 d) - length c\<rparr>, ht1 := h1\<rparr>) \<and>
         ht_inv t h1 \<and> h1 \<noteq> dictReset \<and>
         mset (concat (ht_table h1)) = mset c + mset (concat (ht_table (ht1 d)))"
  using assms
proof (induction c arbitrary: d)
  case Nil
  then show ?case by (intro exI [of _ "ht1 d"]) simp
next
  case (Cons e c)
  let ?h = "ht_index (ht1 d) (hashFunction t (de_key e))"
  have h: "?h < length (ht_table (ht1 d))" using Cons.prems ht_inv_shape ht_index_less by blast
  let ?h1 = "(set_bucket (ht1 d) ?h (e # ht_table (ht1 d) ! ?h))\<lparr>ht_used := ht_used (ht1 d) + 1\<rparr>"
  have inv: "ht_inv t ?h1"
    using ht_inv_set_bucket [OF Cons.prems(1) h] ht_bucket_index [OF Cons.prems(1) h] by simp
  have "ht_used ?h1 \<noteq> 0" by simp
  then have nr: "?h1 \<noteq> dictReset" by (metis dictReset_simps(4))
  have ms: "mset (concat (ht_table ?h1)) = add_mset e (mset (concat (ht_table (ht1 d))))"
    using mset_concat_update [OF h, of "e # ht_table (ht1 d) ! ?h"] by (simp add: set_bucket_def)
  let ?d = "d\<lparr>ht0 := (ht0 d)\<lparr>ht_used := ht_used (ht0 d) - 1\<rparr>, ht1 := ?h1\<rparr>"
  have "dictRehash_move t d (e # c) = dictRehash_move t ?d c" using h by (simp add: bucket_def Let_def)
  moreover obtain h1 where "dictRehash_move t ?d c =
        Some (?d\<lparr>ht0 := (ht0 ?d)\<lparr>ht_used := ht_used (ht0 ?d) - length c\<rparr>, ht1 := h1\<rparr>)"
      "ht_inv t h1" "h1 \<noteq> dictReset" "mset (concat (ht_table h1)) = mset c + mset (concat (ht_table ?h1))"
    using Cons.IH [of ?d] inv nr by auto
  ultimately show ?case using ms by (intro exI [of _ h1]) simp
qed

lemma rehash_bucket_step:
  assumes inv: "rehash_inv t d" and i: "i = nat (rehashidx d)" "i < length (ht_table (ht0 d))"
  shows "\<exists>d' d3. dictRehash_move t d (ht_table (ht0 d) ! i) = Some d' \<and>
     d3 = d'\<lparr>ht0 := set_bucket (ht0 d') i [], rehashidx := rehashidx d' + 1\<rparr> \<and>
     rehash_inv t d3 \<and> dict_entries d3 = dict_entries d \<and> iterators d3 = iterators d \<and>
     rehashidx d3 = rehashidx d + 1 \<and> length (ht_table (ht0 d3)) = length (ht_table (ht0 d))"
proof -
  let ?c = "ht_table (ht0 d) ! i"
  have h0: "ht_inv t (ht0 d)" and h1: "ht_inv t (ht1 d)" "ht1 d \<noteq> dictReset"
    using inv by (auto simp: rehash_inv_def)
  obtain h1' where mv: "dictRehash_move t d ?c =
        Some (d\<lparr>ht0 := (ht0 d)\<lparr>ht_used := ht_used (ht0 d) - length ?c\<rparr>, ht1 := h1'\<rparr>)"
      and h1': "ht_inv t h1'" "h1' \<noteq> dictReset"
      "mset (concat (ht_table h1')) = mset ?c + mset (concat (ht_table (ht1 d)))"
    using dictRehash_move_spec [OF h1] by blast
  let ?h0 = "(set_bucket (ht0 d) i [])\<lparr>ht_used := ht_used (ht0 d) - length ?c\<rparr>"
  let ?d3 = "d\<lparr>ht0 := ?h0, ht1 := h1', rehashidx := rehashidx d + 1\<rparr>"
  have "length ?c \<le> ht_used (ht0 d)"
    using length_concat_update [OF i(2), of "[]"] ht_inv_used [OF h0] by simp
  then have inv0: "ht_inv t ?h0" using h0 i by (intro ht_inv_set_bucket) auto
  have nr: "?h0 \<noteq> dictReset" using i(2) by (metis dictReset_simps(1) dictht.simps(1) dictht.surjective dictht.update_convs(1,4) length_0_conv length_list_update not_less_zero set_bucket_def)
  have low: "ht_table ?h0 ! j = []" if "j < length (ht_table ?h0)" "int j < rehashidx d + 1" for j
  proof (cases "j = i")
    case True
    then show ?thesis using i(2) by (simp add: set_bucket_def)
  next
    case False
    then have "int j < rehashidx d" using that(2) i inv by (auto simp: rehash_inv_def)
    then show ?thesis using that False inv by (simp add: set_bucket_def rehash_inv_def)
  qed
  have "rehash_inv t ?d3" using inv0 nr h1' low inv by (simp add: rehash_inv_def)
  moreover have "dict_entries ?d3 = dict_entries d"
    using mset_concat_update [OF i(2), of "[]"] h1'(3) by (simp add: dict_entries_def set_bucket_def)
  moreover have "?d3 = (let d' = d\<lparr>ht0 := (ht0 d)\<lparr>ht_used := ht_used (ht0 d) - length ?c\<rparr>, ht1 := h1'\<rparr>
     in d'\<lparr>ht0 := set_bucket (ht0 d') i [], rehashidx := rehashidx d' + 1\<rparr>)"
    by (cases d, cases "ht0 d") (simp add: set_bucket_def Let_def)
  ultimately show ?thesis unfolding mv
    by (intro exI [of _ "d\<lparr>ht0 := (ht0 d)\<lparr>ht_used := ht_used (ht0 d) - length ?c\<rparr>, ht1 := h1'\<rparr>"]
        exI [of _ ?d3]) (simp add: set_bucket_def)
qed

lemma dictRehash_finish_spec:
  assumes "rehash_inv t d"
  shows "\<exists>d' b. dictRehash_finish d = (d', b) \<and> dict_tables t d' \<and> dict_entries d' = dict_entries d \<and>
     iterators d' = iterators d \<and> (b \<longleftrightarrow> dictIsRehashing d') \<and> (b \<longrightarrow> d' = d)"
proof (cases "ht_used (ht0 d) = 0")
  case True
  then have "concat (ht_table (ht0 d)) = []"
    using assms ht_inv_used by (fastforce simp: rehash_inv_def simp del: concat_eq_Nil_conv)
  then show ?thesis using True assms
    by (simp add: dictRehash_finish_def dict_tables_def rehash_inv_def dict_entries_def dictIsRehashing_def)
next
  case False
  then obtain j where "rehashidx d \<le> int j" "j < length (ht_table (ht0 d))"
    using rehash_inv_nonempty [OF assms] by blast
  then have "dict_tables t d" using rehash_inv_dict_tables [OF assms] by linarith
  then show ?thesis using False assms
    by (simp add: dictRehash_finish_def dictIsRehashing_def rehash_inv_def)
qed

definition rehash_post :: "('k, 'v) dictType \<Rightarrow> ('k, 'v) dict \<Rightarrow> ('k, 'v) dict \<Rightarrow> bool \<Rightarrow> bool" where
  "rehash_post t d d' b \<longleftrightarrow>
     dict_tables t d' \<and> dict_entries d' = dict_entries d \<and> iterators d' = iterators d \<and>
     (b \<longleftrightarrow> dictIsRehashing d') \<and>
     (b \<longrightarrow> length (ht_table (ht0 d')) = length (ht_table (ht0 d)) \<and> rehashidx d \<le> rehashidx d')"

lemma dictRehash_loop_spec:
  "rehash_inv t d \<Longrightarrow> 0 < ev \<Longrightarrow>
   \<exists>d' b. dictRehash_loop t n ev d = Some (d', b) \<and> rehash_post t d d' b \<and>
          (b \<and> 0 < n \<longrightarrow> rehashidx d < rehashidx d')"
proof (induction n arbitrary: d ev)
  case 0
  then show ?case using dictRehash_finish_spec [of t d] by (auto simp: rehash_post_def)
next
  case (Suc n)
  show ?case
  proof (cases "ht_used (ht0 d) = 0")
    case True
    have "\<not> snd (dictRehash_finish d)" using True by (simp add: dictRehash_finish_def)
    then show ?thesis using dictRehash_finish_spec [OF Suc.prems(1)] True by (auto simp: rehash_post_def)
  next
    case False
    obtain b r ev' where skip: "dictRehash_skip d ev = Some (b, d\<lparr>rehashidx := r\<rparr>, ev')"
        "rehash_inv t (d\<lparr>rehashidx := r\<rparr>)" "rehashidx d \<le> r" "r < int (length (ht_table (ht0 d)))"
        "b \<longrightarrow> rehashidx d < r" "\<not> b \<longrightarrow> ht_table (ht0 d) ! nat r \<noteq> [] \<and> 0 < ev'"
      using dictRehash_skip_spec [OF Suc.prems(1) False Suc.prems(2)] by blast
    have r0: "0 \<le> r" using skip(3) Suc.prems(1) by (simp add: rehash_inv_def)
    have sz: "rehashidx d < int (ht_size (ht0 d))"
      using skip(3,4) ht_inv_size [of t "ht0 d"] Suc.prems(1) by (simp add: rehash_inv_def)
    show ?thesis
    proof (cases b)
      case True
      then have "dictRehash_loop t (Suc n) ev d = Some (d\<lparr>rehashidx := r\<rparr>, True)"
        using skip(1) False sz by simp
      moreover have "dict_tables t (d\<lparr>rehashidx := r\<rparr>)"
        using rehash_inv_dict_tables [OF skip(2)] skip(4) by simp
      ultimately show ?thesis using skip True r0
        by (auto simp: rehash_post_def dict_entries_def dictIsRehashing_def)
    next
      case nb: False
      let ?d1 = "d\<lparr>rehashidx := r\<rparr>" and ?i = "nat r"
      have i: "?i = nat (rehashidx ?d1)" "?i < length (ht_table (ht0 ?d1))" using skip(4) r0 by auto
      obtain d2 d3 where d2: "dictRehash_move t ?d1 (ht_table (ht0 ?d1) ! ?i) = Some d2"
        and d3_def: "d3 = d2\<lparr>ht0 := set_bucket (ht0 d2) ?i [], rehashidx := rehashidx d2 + 1\<rparr>"
        and post: "rehash_inv t d3" "dict_entries d3 = dict_entries ?d1" "iterators d3 = iterators ?d1"
          "rehashidx d3 = rehashidx ?d1 + 1" "length (ht_table (ht0 d3)) = length (ht_table (ht0 ?d1))"
        using rehash_bucket_step [OF skip(2) i] by blast
      have p3: "rehash_inv t d3" "dict_entries d3 = dict_entries d" "iterators d3 = iterators d"
          "rehashidx d3 = r + 1" "length (ht_table (ht0 d3)) = length (ht_table (ht0 d))"
        using post by (auto simp: dict_entries_def)
      have "dictRehash_loop t (Suc n) ev d = dictRehash_loop t n ev' d3"
        using skip(1) False nb sz d2 by (simp add: d3_def)
      then show ?thesis using Suc.IH [OF p3(1)] skip(3,6) nb p3
        by (fastforce simp: rehash_post_def)
    qed
  qed
qed

lemma dictRehash_spec:
  assumes "dict_tables t d" "n < 214748365"
  shows "\<exists>d' b. dictRehash t d n = Some (d', b) \<and> rehash_post t d d' b \<and>
           (b \<and> 0 < n \<longrightarrow> rehashidx d < rehashidx d')"
proof (cases "dictIsRehashing d")
  case True
  then have inv: "rehash_inv t d" using assms(1) dict_tables_rehash_inv by blast
  show ?thesis
  proof (cases n)
    case 0
    then show ?thesis using True dictRehash_finish_spec [OF inv] by (auto simp: dictRehash_def rehash_post_def)
  next
    case (Suc m)
    then show ?thesis using True assms(2) dictRehash_loop_spec [OF inv, of "int n * 10" n]
      by (simp add: dictRehash_def)
  qed
qed (use assms in \<open>simp add: dictRehash_def rehash_post_def\<close>)

lemma rehashStepIf_spec:
  assumes "dict_tables t d"
  shows "\<exists>d'. rehashStepIf t d = Some d' \<and> dict_tables t d' \<and> dict_entries d' = dict_entries d \<and>
              iterators d' = iterators d"
  using assms dictRehash_spec [OF assms, of 1]
  by (auto simp: rehashStepIf_def dictRehashStep_def rehash_post_def)

section \<open>Locations\<close>

definition loc_ok :: "('k, 'v) dict \<Rightarrow> entry_loc \<Rightarrow> bool" where
  "loc_ok d loc = (case loc of (tb, idx, i) \<Rightarrow>
     tb \<le> 1 \<and> idx < length (ht_table (get_ht d tb)) \<and> i < length (ht_table (get_ht d tb) ! idx))"

lemma loc_ok_entry: "loc_ok d loc \<Longrightarrow> entry_at d loc \<in># dict_entries d"
proof -
  assume ok: "loc_ok d loc"
  obtain tb idx i where loc: "loc = (tb, idx, i)" by (cases loc)
  have "entry_at d loc \<in> set (concat (ht_table (get_ht d tb)))"
    using ok unfolding loc loc_ok_def entry_at_def set_concat_nth by auto
  then show ?thesis by (auto simp: dict_entries_def get_ht_def split: if_splits)
qed

lemma dict_tables_get: "dict_tables t d \<Longrightarrow> ht_inv t (get_ht d tb)"
  by (simp add: dict_tables_def get_ht_def)

lemma dict_tables_set:
  assumes "dict_tables t d" and "ht_inv t ht" and "length (ht_table ht) = length (ht_table (get_ht d tb))"
    and "tb = 0 \<or> dictIsRehashing d" and "ht_size ht = ht_size (get_ht d tb)"
    and "\<forall>i < nat (rehashidx d). tb = 0 \<longrightarrow> dictIsRehashing d \<longrightarrow> ht_table ht ! i = []"
  shows "dict_tables t (set_ht d tb ht)"
proof -
  have "ht = dictReset \<longleftrightarrow> get_ht d tb = dictReset"
    using ht_inv_table_Nil [OF assms(2)] ht_inv_table_Nil [OF dict_tables_get [OF assms(1)]] assms(3)
    by (metis length_0_conv)
  then show ?thesis using assms
    by (auto simp: dict_tables_def set_ht_def get_ht_def dictIsRehashing_def split: if_splits)
qed

lemma dict_tables_nonempty: "dict_tables t d \<Longrightarrow> dict_entries d \<noteq> {#} \<Longrightarrow> ht0 d \<noteq> dictReset"
  by (auto simp: dict_tables_def dict_entries_def split: if_splits)

lemma dictSize_entries: "dict_tables t d \<Longrightarrow> dictSize d = size (dict_entries d)"
  using ht_inv_used [of t "ht0 d"] ht_inv_used [of t "ht1 d"]
  by (simp add: dict_tables_def dictSize_def dict_entries_def)

text \<open>Replacing the chain at a location: the tables stay well formed.\<close>

lemma dict_tables_chain:
  assumes tabs: "dict_tables t d" and idx: "tb \<le> 1" "idx < length (ht_table (get_ht d tb))"
    and keys: "\<forall>e \<in> set c. ht_index (get_ht d tb) (hashFunction t (de_key e)) = idx"
    and u: "u + length (ht_table (get_ht d tb) ! idx) = ht_used (get_ht d tb) + length c"
    and low: "tb = 0 \<Longrightarrow> dictIsRehashing d \<Longrightarrow> int idx < rehashidx d \<Longrightarrow> c = []"
  shows "dict_tables t (set_ht d tb ((set_bucket (get_ht d tb) idx c)\<lparr>ht_used := u\<rparr>))" (is "dict_tables t (set_ht d tb ?ht)")
proof (rule dict_tables_set [OF tabs])
  show "ht_inv t ?ht" using dict_tables_get [OF tabs] idx keys u by (intro ht_inv_set_bucket) auto
  show "tb = 0 \<or> dictIsRehashing d"
  proof (rule ccontr)
    assume "\<not> (tb = 0 \<or> dictIsRehashing d)"
    then have "get_ht d tb = dictReset" using tabs by (auto simp: get_ht_def dict_tables_def dictIsRehashing_def)
    then show False using idx by simp
  qed
  show "\<forall>i < nat (rehashidx d). tb = 0 \<longrightarrow> dictIsRehashing d \<longrightarrow> ht_table ?ht ! i = []"
  proof (intro allI impI)
    fix i assume i: "i < nat (rehashidx d)" "tb = 0" "dictIsRehashing d"
    then have "i < length (ht_table (get_ht d tb))" "ht_table (get_ht d tb) ! i = []"
      using tabs ht_inv_size [of t "ht0 d"] by (auto simp: dict_tables_def dictIsRehashing_def get_ht_def)
    then show "ht_table ?ht ! i = []" using low i
      by (auto simp: set_bucket_def nth_update_cases)
  qed
qed (simp_all add: set_bucket_def)

lemma loc_not_low:
  assumes "dict_tables t d" "loc_ok d (tb, idx, i)"
  shows "tb = 0 \<Longrightarrow> dictIsRehashing d \<Longrightarrow> \<not> int idx < rehashidx d"
  using assms by (auto simp: loc_ok_def dict_tables_def dictIsRehashing_def get_ht_def)

lemma dictSetVal_spec:
  assumes tabs: "dict_tables t d" and loc: "loc_ok d loc"
  shows "dict_tables t (dictSetVal t d loc v)"
    and "dict_entries (dictSetVal t d loc v) + {#entry_at d loc#} =
         dict_entries d + {#(entry_at d loc)\<lparr>de_val := dictDupVal t v\<rparr>#}"
    and "iterators (dictSetVal t d loc v) = iterators d"
proof -
  obtain tb idx i where l: "loc = (tb, idx, i)" by (cases loc)
  define ht c where "ht = get_ht d tb" and "c = ht_table ht ! idx"
  let ?e = "c ! i" and ?c = "c[i := (c ! i)\<lparr>de_val := dictDupVal t v\<rparr>]"
  have idx: "tb \<le> 1" "idx < length (ht_table ht)" "i < length c"
    using loc by (auto simp: l loc_ok_def ht_def c_def)
  have eq: "dictSetVal t d loc v = set_ht d tb ((set_bucket ht idx ?c)\<lparr>ht_used := ht_used ht\<rparr>)"
    by (simp add: l dictSetVal_def ht_def c_def Let_def set_bucket_def)
  have keys: "\<forall>e \<in> set c. ht_index ht (hashFunction t (de_key e)) = idx"
    using ht_bucket_index [OF dict_tables_get [OF tabs]] idx(2) by (auto simp: ht_def c_def)
  then have keys': "\<forall>e \<in> set ?c. ht_index ht (hashFunction t (de_key e)) = idx"
    using idx(3) set_update_subset_insert [of c i] nth_mem by fastforce
  show "dict_tables t (dictSetVal t d loc v)"
    unfolding eq ht_def
    by (rule dict_tables_chain [OF tabs]) (use idx keys' loc_not_low [OF tabs loc [unfolded l]] in \<open>auto simp: ht_def c_def\<close>)
  have "dict_entries (dictSetVal t d loc v) + mset c = dict_entries d + mset ?c"
    unfolding eq using dict_entries_set_ht [where d = d and tb = tb and i = idx and c = ?c and u = "ht_used ht"] idx(2) by (simp add: ht_def c_def)
  then have "dict_entries (dictSetVal t d loc v) + mset c + {#?e#} =
      dict_entries d + (mset ?c + {#?e#})" by simp
  also have "mset ?c + {#?e#} = mset c + {#?e\<lparr>de_val := dictDupVal t v\<rparr>#}"
    using mset_set_nth [OF idx(3)] .
  finally show "dict_entries (dictSetVal t d loc v) + {#entry_at d loc#} =
         dict_entries d + {#(entry_at d loc)\<lparr>de_val := dictDupVal t v\<rparr>#}"
    by (simp add: l entry_at_def ht_def c_def ac_simps)
  show "iterators (dictSetVal t d loc v) = iterators d"
    by (simp add: eq set_ht_def)
qed

section \<open>What keys have to provide\<close>

locale dict_keys =
  fixes t :: "('k, 'v) dictType"
  assumes eq_sym: "dictKeyEq t a b \<Longrightarrow> dictKeyEq t b a"
    and eq_trans: "dictKeyEq t a b \<Longrightarrow> dictKeyEq t b c \<Longrightarrow> dictKeyEq t a c"
    and hash_eq: "dictKeyEq t a b \<Longrightarrow> hashFunction t a = hashFunction t b"
    and dup_eq: "dictKeyEq t k (dictDupKey t k)"
begin

lemma eq_refl [simp]: "dictKeyEq t k k"
  by (simp add: dictKeyEq_def)

lemma chain_find_cases:
  "case chain_find t k c of
     None \<Rightarrow> \<forall>e \<in> set c. \<not> dictKeyEq t k (de_key e)
   | Some i \<Rightarrow> i < length c \<and> dictKeyEq t k (de_key (c ! i))"
  by (induction c) (auto split: option.splits)

lemma chain_complete:
  assumes "ht_inv t ht" and "e \<in> set (concat (ht_table ht))" and "dictKeyEq t k (de_key e)"
  shows "e \<in> set (ht_table ht ! ht_index ht (hashFunction t k))"
proof -
  have "ht \<noteq> dictReset" using assms(2) by auto
  then show ?thesis
    using ht_shape_member [OF ht_inv_shape [OF assms(1)] assms(2)] hash_eq [OF assms(3)] by simp
qed

lemma table_search_spec:
  assumes tabs: "dict_tables t d" and ne: "ht0 d \<noteq> dictReset"
  shows "\<exists>r. table_search t d k (hashFunction t k) = Some r \<and>
     (case r of None \<Rightarrow> \<forall>e \<in># dict_entries d. \<not> dictKeyEq t k (de_key e)
      | Some loc \<Rightarrow> loc_ok d loc \<and> dictKeyEq t k (de_key (entry_at d loc)))"
proof -
  let ?h = "hashFunction t k"
  let ?i0 = "ht_index (ht0 d) ?h" and ?i1 = "ht_index (ht1 d) ?h"
  let ?c0 = "ht_table (ht0 d) ! ?i0" and ?c1 = "ht_table (ht1 d) ! ?i1"
  have inv: "ht_inv t (ht0 d)" "ht_inv t (ht1 d)" using tabs by (auto simp: dict_tables_def)
  have i0: "?i0 < length (ht_table (ht0 d))" using ht_index_less ht_inv_shape inv(1) ne by blast
  have none0: "\<forall>e \<in> set (concat (ht_table (ht0 d))). \<not> dictKeyEq t k (de_key e)" if "chain_find t k ?c0 = None"
    using chain_find_cases [where k = k and c = ?c0] chain_complete [OF inv(1)] that by fastforce
  show ?thesis
  proof (cases "chain_find t k ?c0")
    case (Some i)
    then show ?thesis using chain_find_cases [where k = k and c = ?c0] i0
      by (simp add: table_search_def bucket_def Let_def loc_ok_def entry_at_def get_ht_def)
  next
    case None
    note n0 = none0 [OF None]
    show ?thesis
    proof (cases "dictIsRehashing d")
      case False
      then have "ht1 d = dictReset" using tabs by (simp add: dict_tables_def dictIsRehashing_def)
      then show ?thesis using None False n0 i0
        by (simp add: table_search_def bucket_def Let_def dict_entries_def)
    next
      case True
      then have "ht1 d \<noteq> dictReset" using tabs by (simp add: dict_tables_def dictIsRehashing_def)
      then have i1: "?i1 < length (ht_table (ht1 d))" using ht_index_less ht_inv_shape inv(2) by blast
      have eq: "table_search t d k ?h = Some (map_option (\<lambda>i. (1, ?i1, i)) (chain_find t k ?c1))"
        using None True i0 i1 by (simp add: table_search_def bucket_def Let_def)
      show ?thesis
      proof (cases "chain_find t k ?c1")
        case (Some i)
        then show ?thesis using chain_find_cases [where k = k and c = ?c1] i1 eq
          by (simp add: loc_ok_def entry_at_def get_ht_def)
      next
        case n1: None
        have "\<forall>e \<in> set (concat (ht_table (ht1 d))). \<not> dictKeyEq t k (de_key e)"
          using chain_find_cases [where k = k and c = ?c1] chain_complete [OF inv(2)] n1 by fastforce
        then show ?thesis using n1 n0 eq by (auto simp: dict_entries_def)
      qed
    qed
  qed
qed

lemma uniq_entry:
  assumes "keys_uniq t M" "e \<in># M" "e' \<in># M" "dictKeyEq t k (de_key e)" "dictKeyEq t k (de_key e')"
  shows "e = e'"
proof -
  let ?F = "{#e \<in># M. dictKeyEq t k (de_key e)#}"
  have mem: "e \<in># ?F" "e' \<in># ?F" using assms(2-5) by auto
  have "size ?F \<le> 1" using assms(1) unfolding keys_uniq_def by blast
  moreover have "size ?F \<noteq> 0" using mem(1) by auto
  ultimately have "size ?F = 1" by linarith
  then obtain a where "?F = {#a#}" using size_1_singleton_mset by blast
  then show ?thesis using mem by auto
qed

lemma dict_lookup_Some:
  assumes "dict_ok t d"
  shows "dict_lookup t d k = Some v \<longleftrightarrow> (\<exists>e \<in># dict_entries d. dictKeyEq t k (de_key e) \<and> de_val e = v)"
proof -
  let ?es = "concat (ht_table (ht0 d)) @ concat (ht_table (ht1 d))"
  have m: "dict_entries d = mset ?es" by (simp add: dict_entries_def)
  show ?thesis
  proof
    assume "dict_lookup t d k = Some v"
    then obtain e where "find (\<lambda>e. dictKeyEq t k (de_key e)) ?es = Some e" "de_val e = v"
      by (auto simp: dict_lookup_def)
    then have "e \<in># dict_entries d" "dictKeyEq t k (de_key e)" "de_val e = v"
      unfolding m set_mset_mset using find_SomeD by fast+
    then show "\<exists>e \<in># dict_entries d. dictKeyEq t k (de_key e) \<and> de_val e = v" by blast
  next
    assume "\<exists>e \<in># dict_entries d. dictKeyEq t k (de_key e) \<and> de_val e = v"
    then obtain e where e: "e \<in># dict_entries d" "dictKeyEq t k (de_key e)" "de_val e = v" by blast
    then obtain e' where e': "find (\<lambda>e. dictKeyEq t k (de_key e)) ?es = Some e'"
      unfolding m set_mset_mset by (metis (mono_tags, lifting) find_None_iff not_None_eq)
    then have "e' \<in># dict_entries d" "dictKeyEq t k (de_key e')"
      unfolding m set_mset_mset using find_SomeD by fast+
    then have "e' = e" using uniq_entry e assms by (auto simp: dict_ok_def)
    then show "dict_lookup t d k = Some v" using e' e(3) by (simp add: dict_lookup_def)
  qed
qed

lemma dict_lookup_None:
  "dict_ok t d \<Longrightarrow> dict_lookup t d k = None \<longleftrightarrow> (\<forall>e \<in># dict_entries d. \<not> dictKeyEq t k (de_key e))"
  using dict_lookup_Some [of d k] by (metis not_None_eq)

lemma dict_lookup_entry:
  "dict_ok t d \<Longrightarrow> e \<in># dict_entries d \<Longrightarrow> dictKeyEq t k (de_key e) \<Longrightarrow>
   dict_lookup t d k = Some (de_val e)"
  using dict_lookup_Some by blast

lemma dict_lookup_eqI:
  assumes "dict_ok t d" "dict_ok t d'"
    and "\<And>e. dictKeyEq t k (de_key e) \<Longrightarrow> e \<in># dict_entries d' \<longleftrightarrow> e \<in># dict_entries d"
  shows "dict_lookup t d' k = dict_lookup t d k"
  by (rule option_eqI)
     (use dict_lookup_Some [OF assms(1)] dict_lookup_Some [OF assms(2)] assms(3) in metis)

lemma dict_lookup_cong:
  assumes "dict_ok t d" "dict_ok t d'" "dict_entries d' = dict_entries d"
  shows "dict_lookup t d' = dict_lookup t d"
proof
  fix k
  show "dict_lookup t d' k = dict_lookup t d k"
    using dict_lookup_Some [OF assms(1), of k] dict_lookup_Some [OF assms(2), of k] assms(3)
    by (intro option_eqI) simp
qed

lemma dictFind_spec:
  assumes ok: "dict_ok t d"
  shows "\<exists>d' r. dictFind t d k = Some (d', r) \<and> dict_ok t d' \<and> dict_entries d' = dict_entries d \<and>
     iterators d' = iterators d \<and>
     (case r of None \<Rightarrow> dict_lookup t d k = None
      | Some loc \<Rightarrow> loc_ok d' loc \<and> dictKeyEq t k (de_key (entry_at d' loc)) \<and>
                    dict_lookup t d k = Some (de_val (entry_at d' loc)))"
proof -
  have tabs: "dict_tables t d" using ok by (simp add: dict_ok_def)
  show ?thesis
  proof (cases "ht_used (ht0 d) + ht_used (ht1 d) = 0")
    case True
    then have "dict_entries d = {#}" using dictSize_entries [OF tabs] by (simp add: dictSize_def)
    then show ?thesis using True ok by (simp add: dictFind_def dict_lookup_None)
  next
    case False
    obtain d1 where d1: "rehashStepIf t d = Some d1" "dict_tables t d1"
        "dict_entries d1 = dict_entries d" "iterators d1 = iterators d"
      using rehashStepIf_spec [OF tabs] by blast
    then have ok1: "dict_ok t d1" using ok by (simp add: dict_ok_def)
    have "dict_entries d1 \<noteq> {#}" using False dictSize_entries [OF tabs] d1(3) by (auto simp: dictSize_def)
    then have "ht0 d1 \<noteq> dictReset" using dict_tables_nonempty d1(2) by blast
    then obtain r where r: "table_search t d1 k (hashFunction t k) = Some r"
        "case r of None \<Rightarrow> \<forall>e \<in># dict_entries d1. \<not> dictKeyEq t k (de_key e)
         | Some loc \<Rightarrow> loc_ok d1 loc \<and> dictKeyEq t k (de_key (entry_at d1 loc))"
      using table_search_spec [OF d1(2)] by blast
    have eq: "dictFind t d k = Some (d1, r)" using False d1(1) r(1) by (auto simp: dictFind_def)
    show ?thesis
    proof (cases r)
      case None
      then show ?thesis using eq d1 ok1 ok r(2) by (simp add: dict_lookup_None)
    next
      case (Some loc)
      then have "dict_lookup t d1 k = Some (de_val (entry_at d1 loc))"
        using r(2) loc_ok_entry [of d1 loc] dict_lookup_entry [OF ok1, of "entry_at d1 loc" k] by auto
      then show ?thesis using Some eq d1 ok1 ok r(2) dict_lookup_cong [OF ok ok1] by simp
    qed
  qed
qed

lemma dictFetchValue_spec:
  assumes "dict_ok t d"
  shows "\<exists>d'. dictFetchValue t d k = Some (d', dict_lookup t d k) \<and> dict_ok t d' \<and>
              dict_entries d' = dict_entries d \<and> iterators d' = iterators d"
proof -
  obtain d' r where "dictFind t d k = Some (d', r)" "dict_ok t d'" "dict_entries d' = dict_entries d"
      "iterators d' = iterators d"
      "case r of None \<Rightarrow> dict_lookup t d k = None
       | Some loc \<Rightarrow> loc_ok d' loc \<and> dictKeyEq t k (de_key (entry_at d' loc)) \<and>
                     dict_lookup t d k = Some (de_val (entry_at d' loc))"
    using dictFind_spec [OF assms, of k] by blast
  then show ?thesis by (cases r) (auto simp: dictFetchValue_def)
qed

lemma dictExpandIfNeeded_spec:
  assumes tabs: "dict_tables t d" and room: "dictSize d < 2 ^ 58"
  shows "\<exists>d'. dictExpandIfNeeded c d = Some (d', DICT_OK) \<and> dict_tables t d' \<and> ht0 d' \<noteq> dictReset \<and>
              dict_entries d' = dict_entries d \<and> iterators d' = iterators d"
proof -
  have h0: "ht_inv t (ht0 d)" using tabs by (simp add: dict_tables_def)
  have sz: "ht_size (ht0 d) = length (ht_table (ht0 d))" using ht_inv_size [OF h0] .
  have expand: "\<exists>d'. dictExpand d s = Some (d', DICT_OK) \<and> dict_tables t d' \<and> ht0 d' \<noteq> dictReset \<and>
        dict_entries d' = dict_entries d \<and> iterators d' = iterators d"
    if s: "\<not> dictIsRehashing d" "ht_used (ht0 d) \<le> s" "dictNextPower s \<noteq> ht_size (ht0 d)" "s \<le> 2 ^ 59" for s
  proof -
    obtain d' r where d': "dictExpand d s = Some (d', r)" "dict_tables t d'" "dict_entries d' = dict_entries d"
        "iterators d' = iterators d" using dictExpand_ok [OF tabs s(4)] by blast
    obtain n where n: "dictNextPower s = 2 ^ n" using dictNextPower_spec by blast
    have "r = DICT_OK" using d'(1) s(1-3) by (auto simp: dictExpand_def Let_def split: if_splits)
    moreover have "ht0 d' \<noteq> dictReset"
    proof (cases "ht_table (ht0 d) = []")
      case True
      then have "ht_size (ht0 d') = 2 ^ n" using d'(1) s(1-3) n by (auto simp: dictExpand_def Let_def split: if_splits)
      then show ?thesis by (metis dictReset_simps(2) power_eq_0_iff zero_neq_numeral)
    next
      case False
      then show ?thesis using d'(1) s(1-3) by (auto simp: dictExpand_def Let_def split: if_splits)
    qed
    ultimately show ?thesis using d' by blast
  qed
  show ?thesis
  proof (cases "dictIsRehashing d")
    case True
    then show ?thesis using tabs by (auto simp: dictExpandIfNeeded_def dict_tables_def dictIsRehashing_def)
  next
    case False
    show ?thesis
    proof (cases "ht_size (ht0 d) = 0")
      case True
      then have "ht0 d = dictReset" using ht_inv_table_Nil [OF h0] sz by simp
      moreover have "dictNextPower 4 = 4" by (simp add: dictNextPower_def while_unfold)
      ultimately show ?thesis using True False expand [of 4] by (simp add: dictExpandIfNeeded_def)
    next
      case ne: False
      then have nr: "ht0 d \<noteq> dictReset" by auto
      show ?thesis
      proof (cases "ht_used (ht0 d) \<ge> ht_size (ht0 d) \<and>
              (c \<or> ht_used (ht0 d) div ht_size (ht0 d) > dict_force_resize_ratio)")
        case True
        have "ht_used (ht0 d) * 2 \<le> dictNextPower (ht_used (ht0 d) * 2)"
          using room by (intro dictNextPower_ge) (simp add: dictSize_def)
        then have "dictNextPower (ht_used (ht0 d) * 2) \<noteq> ht_size (ht0 d)" using True ne by linarith
        moreover have "ht_used (ht0 d) * 2 \<le> 2 ^ 59" using room by (simp add: dictSize_def)
        ultimately show ?thesis using True False ne expand [of "ht_used (ht0 d) * 2"]
          by (simp add: dictExpandIfNeeded_def)
      next
        case f: False
        then show ?thesis using False ne nr tabs by (auto simp: dictExpandIfNeeded_def)
      qed
    qed
  qed
qed

lemma eq_iff: "dictKeyEq t a b \<Longrightarrow> dictKeyEq t k a \<longleftrightarrow> dictKeyEq t k b"
  using eq_sym eq_trans by blast

lemma keys_uniq_add:
  assumes "keys_uniq t M" and "\<forall>e' \<in># M. \<not> dictKeyEq t (de_key e) (de_key e')"
  shows "keys_uniq t (add_mset e M)"
  unfolding keys_uniq_def
proof
  fix k
  show "size {#e \<in># add_mset e M. dictKeyEq t k (de_key e)#} \<le> 1"
  proof (cases "dictKeyEq t k (de_key e)")
    case True
    have "\<not> dictKeyEq t k (de_key x)" if "x \<in># M" for x
      using assms(2) that True eq_sym eq_trans by blast
    then have "{#e \<in># M. dictKeyEq t k (de_key e)#} = {#}"
      unfolding filter_mset_eq_mempty_iff by blast
    then show ?thesis using True by simp
  next
    case False
    then show ?thesis using assms(1) by (simp add: keys_uniq_def)
  qed
qed

lemma keys_uniq_subset: "keys_uniq t M \<Longrightarrow> N \<subseteq># M \<Longrightarrow> keys_uniq t N"
  unfolding keys_uniq_def by (meson le_trans multiset_filter_mono size_mset_mono)

lemma dict_lookup_add:
  assumes "dict_ok t d" "dict_tables t d'" "dict_entries d' = add_mset e (dict_entries d)"
    and "dict_lookup t d (de_key e) = None"
  shows "dict_ok t d'"
    and "dict_lookup t d' k = (if dictKeyEq t k (de_key e) then Some (de_val e) else dict_lookup t d k)"
proof -
  have none: "\<forall>e' \<in># dict_entries d. \<not> dictKeyEq t (de_key e) (de_key e')"
    using assms dict_lookup_None by blast
  show ok': "dict_ok t d'"
    using assms keys_uniq_add [OF _ none] by (simp add: dict_ok_def)
  show "dict_lookup t d' k = (if dictKeyEq t k (de_key e) then Some (de_val e) else dict_lookup t d k)"
  proof (cases "dictKeyEq t k (de_key e)")
    case True
    then show ?thesis using dict_lookup_entry [OF ok', of e k] assms(3) by simp
  next
    case False
    then have "dict_lookup t d' k = dict_lookup t d k"
      using assms(3) by (intro dict_lookup_eqI [OF assms(1) ok']) auto
    then show ?thesis using False by simp
  qed
qed

lemma keys_uniq_addD:
  assumes "keys_uniq t (add_mset e M)"
  shows "keys_uniq t M" and "e' \<in># M \<Longrightarrow> \<not> dictKeyEq t (de_key e) (de_key e')"
proof -
  show "keys_uniq t M" using assms by (rule keys_uniq_subset) simp
  have "size {#x \<in># add_mset e M. dictKeyEq t (de_key e) (de_key x)#} \<le> 1"
    using assms unfolding keys_uniq_def by blast
  then have "{#x \<in># M. dictKeyEq t (de_key e) (de_key x)#} = {#}" by simp
  then show "e' \<in># M \<Longrightarrow> \<not> dictKeyEq t (de_key e) (de_key e')"
    by (auto simp: filter_mset_eq_mempty_iff)
qed

lemma dict_lookup_set:
  assumes "dict_ok t d" "dict_tables t d'" "e \<in># dict_entries d"
    and "dict_entries d' + {#e#} = dict_entries d + {#e\<lparr>de_val := v\<rparr>#}"
  shows "dict_ok t d'"
    and "dict_lookup t d' k = (if dictKeyEq t k (de_key e) then Some v else dict_lookup t d k)"
proof -
  let ?e = "e\<lparr>de_val := v\<rparr>"
  obtain M where M: "dict_entries d = add_mset e M" using assms(3) by (metis insert_DiffM)
  have M': "dict_entries d' = add_mset ?e M" using assms(4) M by simp
  have uM: "keys_uniq t (add_mset e M)" using assms(1) M by (simp add: dict_ok_def)
  have "keys_uniq t (add_mset ?e M)"
    by (rule keys_uniq_add) (use keys_uniq_addD [OF uM] in auto)
  then show ok': "dict_ok t d'" using assms(2) M' by (simp add: dict_ok_def)
  show "dict_lookup t d' k = (if dictKeyEq t k (de_key e) then Some v else dict_lookup t d k)"
  proof (cases "dictKeyEq t k (de_key e)")
    case True
    then show ?thesis using dict_lookup_entry [OF ok', of ?e k] M' by simp
  next
    case False
    then have "dict_lookup t d' k = dict_lookup t d k"
      using M M' by (intro dict_lookup_eqI [OF assms(1) ok']) auto
    then show ?thesis using False by simp
  qed
qed

lemma dict_lookup_remove:
  assumes "dict_ok t d" "dict_tables t d'" "dict_entries d = add_mset e (dict_entries d')"
  shows "dict_ok t d'"
    and "dict_lookup t d' k = (if dictKeyEq t k (de_key e) then None else dict_lookup t d k)"
proof -
  have u: "keys_uniq t (add_mset e (dict_entries d'))" using assms by (simp add: dict_ok_def)
  show ok': "dict_ok t d'" using assms(2) keys_uniq_addD(1) [OF u] by (simp add: dict_ok_def)
  show "dict_lookup t d' k = (if dictKeyEq t k (de_key e) then None else dict_lookup t d k)"
  proof (cases "dictKeyEq t k (de_key e)")
    case True
    have "\<forall>e' \<in># dict_entries d'. \<not> dictKeyEq t k (de_key e')"
      using keys_uniq_addD(2) [OF u] True eq_sym eq_trans by blast
    then show ?thesis using True dict_lookup_None [OF ok'] by simp
  next
    case False
    then have "dict_lookup t d' k = dict_lookup t d k"
      using assms(3) by (intro dict_lookup_eqI [OF assms(1) ok']) auto
    then show ?thesis using False by simp
  qed
qed

lemma dictAddRaw_spec:
  assumes ok: "dict_ok t d" and room: "dictSize d < 2 ^ 58"
  shows "\<exists>d' r. dictAddRaw c junk t d k = Some (d', r) \<and> dict_tables t d' \<and> iterators d' = iterators d \<and>
     (case r of
        Inr loc \<Rightarrow> dict_lookup t d k = None \<and> loc_ok d' loc \<and>
          entry_at d' loc = \<lparr>de_key = dictDupKey t k, de_val = junk\<rparr> \<and>
          dict_entries d' = add_mset (entry_at d' loc) (dict_entries d)
      | Inl existing \<Rightarrow> \<exists>loc. existing = Some loc \<and> loc_ok d' loc \<and> dict_entries d' = dict_entries d \<and>
          dictKeyEq t k (de_key (entry_at d' loc)) \<and> dict_lookup t d k = Some (de_val (entry_at d' loc)))"
proof -
  let ?e = "\<lparr>de_key = dictDupKey t k, de_val = junk\<rparr>"
  have tabs: "dict_tables t d" using ok by (simp add: dict_ok_def)
  obtain d1 where d1: "rehashStepIf t d = Some d1" "dict_tables t d1"
      "dict_entries d1 = dict_entries d" "iterators d1 = iterators d"
    using rehashStepIf_spec [OF tabs] by blast
  have "dictSize d1 < 2 ^ 58" using room dictSize_entries tabs d1 by metis
  then obtain d2 where d2: "dictExpandIfNeeded c d1 = Some (d2, DICT_OK)" "dict_tables t d2" "ht0 d2 \<noteq> dictReset"
      "dict_entries d2 = dict_entries d" "iterators d2 = iterators d"
    using dictExpandIfNeeded_spec [OF d1(2)] d1(3,4) by metis
  then have ok2: "dict_ok t d2" using ok by (simp add: dict_ok_def)
  have lk: "dict_lookup t d2 = dict_lookup t d" using dict_lookup_cong [OF ok ok2 d2(4)] .
  obtain r where r: "table_search t d2 k (hashFunction t k) = Some r"
      "case r of None \<Rightarrow> \<forall>e \<in># dict_entries d2. \<not> dictKeyEq t k (de_key e)
       | Some loc \<Rightarrow> loc_ok d2 loc \<and> dictKeyEq t k (de_key (entry_at d2 loc))"
    using table_search_spec [OF d2(2,3)] by blast
  show ?thesis
  proof (cases r)
    case (Some loc)
    then have "dictAddRaw c junk t d k = Some (d2, Inl (Some loc))"
      using d1(1) d2(1) r(1) by (simp add: dictAddRaw_def dictKeyIndex_def)
    moreover have "dict_lookup t d2 k = Some (de_val (entry_at d2 loc))"
      using Some r(2) loc_ok_entry [of d2 loc] dict_lookup_entry [OF ok2, of "entry_at d2 loc" k] by auto
    ultimately show ?thesis using Some r(2) d2 lk by simp
  next
    case None
    let ?tb = "if dictIsRehashing d2 then 1 else 0"
    let ?ht = "get_ht d2 ?tb"
    let ?i = "ht_index ?ht (hashFunction t k)"
    have ht: "?ht = (if dictIsRehashing d2 then ht1 d2 else ht0 d2)" by (simp add: get_ht_def)
    have inv: "ht_inv t ?ht" using dict_tables_get [OF d2(2)] .
    have "?ht \<noteq> dictReset"
      using d2(2,3) by (auto simp: get_ht_def dict_tables_def dictIsRehashing_def)
    then have i: "?i < length (ht_table ?ht)" using ht_index_less ht_inv_shape inv by blast
    let ?c = "ht_table ?ht ! ?i"
    let ?d' = "set_ht d2 ?tb ((set_bucket ?ht ?i (?e # ?c))\<lparr>ht_used := ht_used ?ht + 1\<rparr>)"
    have "dictKeyIndex c t d1 k (hashFunction t k) = Some (d2, Inr ?i)"
      using d2(1) r(1) None by (simp add: dictKeyIndex_def ht)
    then have eq: "dictAddRaw c junk t d k = Some (?d', Inr (?tb, ?i, 0))"
      using d1(1) i by (simp add: dictAddRaw_def bucket_def Let_def)
    have keys: "\<forall>e \<in> set (?e # ?c). ht_index ?ht (hashFunction t (de_key e)) = ?i"
      using ht_bucket_index [OF inv i] hash_eq [OF dup_eq [of k]] by auto
    have "dict_tables t ?d'"
      by (rule dict_tables_chain [OF d2(2) _ i keys]) auto
    moreover have "dict_entries ?d' = add_mset ?e (dict_entries d)"
      using dict_entries_set_ht [OF i, where c = "?e # ?c" and u = "ht_used ?ht + 1"] d2(4) by simp
    moreover have "entry_at ?d' (?tb, ?i, 0) = ?e" "loc_ok ?d' (?tb, ?i, 0)" "iterators ?d' = iterators d"
      using i d2(5) by (auto simp: entry_at_def loc_ok_def get_ht_def set_ht_def set_bucket_def)
    moreover have "dict_lookup t d k = None"
      using None r(2) dict_lookup_None [OF ok2] lk by simp
    ultimately show ?thesis using eq by simp
  qed
qed

lemma dictAdd_spec:
  assumes ok: "dict_ok t d" and room: "dictSize d < 2 ^ 58"
  shows "\<exists>d'. dictAdd c junk t d k v =
       Some (d', if dict_lookup t d k = None then DICT_OK else DICT_ERR) \<and>
     dict_ok t d' \<and> iterators d' = iterators d \<and>
     (\<forall>k'. dict_lookup t d' k' =
        (if dict_lookup t d k = None \<and> dictKeyEq t k' k then Some (dictDupVal t v) else dict_lookup t d k'))"
proof -
  obtain d1 r where d1: "dictAddRaw c junk t d k = Some (d1, r)" "dict_tables t d1" "iterators d1 = iterators d"
     "case r of
        Inr loc \<Rightarrow> dict_lookup t d k = None \<and> loc_ok d1 loc \<and>
          entry_at d1 loc = \<lparr>de_key = dictDupKey t k, de_val = junk\<rparr> \<and>
          dict_entries d1 = add_mset (entry_at d1 loc) (dict_entries d)
      | Inl existing \<Rightarrow> \<exists>loc. existing = Some loc \<and> loc_ok d1 loc \<and> dict_entries d1 = dict_entries d \<and>
          dictKeyEq t k (de_key (entry_at d1 loc)) \<and> dict_lookup t d k = Some (de_val (entry_at d1 loc))"
    using dictAddRaw_spec [OF ok room] by blast
  show ?thesis
  proof (cases r)
    case (Inl existing)
    then have ok1: "dict_ok t d1" "dict_entries d1 = dict_entries d" using d1 ok by (auto simp: dict_ok_def)
    then show ?thesis using Inl d1 dict_lookup_cong [OF ok ok1] by (auto simp: dictAdd_def)
  next
    case (Inr loc)
    define e where "e = entry_at d1 loc"
    define d2 where "d2 = dictSetVal t d1 loc v"
    have e: "dict_lookup t d k = None" "loc_ok d1 loc" "e = \<lparr>de_key = dictDupKey t k, de_val = junk\<rparr>"
        "dict_entries d1 = add_mset e (dict_entries d)"
      using Inr d1(4) by (auto simp: e_def)
    note sv = dictSetVal_spec [OF d1(2) e(2), of v, folded d2_def e_def]
    have ent: "dict_entries d2 = add_mset (e\<lparr>de_val := dictDupVal t v\<rparr>) (dict_entries d)"
      using sv(2) e(4) by simp
    have nodup: "dict_lookup t d (de_key (e\<lparr>de_val := dictDupVal t v\<rparr>)) = None"
      using e(1,3) dict_lookup_None [OF ok] eq_trans [OF dup_eq] by simp metis
    note add = dict_lookup_add [OF ok sv(1) ent nodup]
    have key: "dictKeyEq t k' (de_key e) \<longleftrightarrow> dictKeyEq t k' k" for k'
      using eq_iff [OF dup_eq] e(3) by auto
    show ?thesis using Inr d1(1,3) e(1) add sv(3) key by (simp add: dictAdd_def d2_def [symmetric])
  qed
qed

lemma dictReplace_spec:
  assumes ok: "dict_ok t d" and room: "dictSize d < 2 ^ 58"
  shows "\<exists>d'. dictReplace c junk t d k v =
       Some (d', case dict_lookup t d k of None \<Rightarrow> (1, [])
                 | Some old \<Rightarrow> (0, if valDestructor t then [FreeVal old] else [])) \<and>
     dict_ok t d' \<and> iterators d' = iterators d \<and>
     (\<forall>k'. dict_lookup t d' k' = (if dictKeyEq t k' k then Some (dictDupVal t v) else dict_lookup t d k'))"
proof -
  obtain d1 r where d1: "dictAddRaw c junk t d k = Some (d1, r)" "dict_tables t d1" "iterators d1 = iterators d"
     "case r of
        Inr loc \<Rightarrow> dict_lookup t d k = None \<and> loc_ok d1 loc \<and>
          entry_at d1 loc = \<lparr>de_key = dictDupKey t k, de_val = junk\<rparr> \<and>
          dict_entries d1 = add_mset (entry_at d1 loc) (dict_entries d)
      | Inl existing \<Rightarrow> \<exists>loc. existing = Some loc \<and> loc_ok d1 loc \<and> dict_entries d1 = dict_entries d \<and>
          dictKeyEq t k (de_key (entry_at d1 loc)) \<and> dict_lookup t d k = Some (de_val (entry_at d1 loc))"
    using dictAddRaw_spec [OF ok room] by blast
  show ?thesis
  proof (cases r)
    case (Inl existing)
    then obtain loc where loc: "existing = Some loc" "loc_ok d1 loc" "dict_entries d1 = dict_entries d"
        "dictKeyEq t k (de_key (entry_at d1 loc))" "dict_lookup t d k = Some (de_val (entry_at d1 loc))"
      using d1(4) by auto
    have ok1: "dict_ok t d1" using loc(3) d1(2) ok by (simp add: dict_ok_def)
    note sv = dictSetVal_spec [OF d1(2) loc(2), of v]
    note set = dict_lookup_set [OF ok1 sv(1) loc_ok_entry [OF loc(2)] sv(2)]
    have key: "dictKeyEq t k' (de_key (entry_at d1 loc)) \<longleftrightarrow> dictKeyEq t k' k" for k'
      using eq_iff [OF loc(4)] by auto
    show ?thesis using Inl d1(1,3) loc(1,5) set sv(3) key dict_lookup_cong [OF ok ok1 loc(3)]
      by (simp add: dictReplace_def dictFreeVal_def Let_def)
  next
    case (Inr loc)
    then obtain d' where "dictAdd c junk t d k v = Some (d', DICT_OK)" "dict_ok t d'" "iterators d' = iterators d"
       "\<forall>k'. dict_lookup t d' k' = (if dictKeyEq t k' k then Some (dictDupVal t v) else dict_lookup t d k')"
      using dictAdd_spec [OF ok room, of c junk k v] d1(4) by auto
    moreover have "dict_lookup t d k = None" using Inr d1(4) by simp
    ultimately show ?thesis using d1(1) Inr by (simp add: dictAdd_def dictReplace_def)
  qed
qed

lemma dictGenericDelete_spec:
  assumes ok: "dict_ok t d"
  shows "\<exists>d' he. dictGenericDelete t d k nofree =
       Some (d', he, if nofree then [] else dictFreeUnlinkedEntry t he) \<and>
     dict_ok t d' \<and> iterators d' = iterators d \<and> map_option de_val he = dict_lookup t d k \<and>
     (\<forall>e. he = Some e \<longrightarrow> dictKeyEq t k (de_key e) \<and> dict_entries d = add_mset e (dict_entries d')) \<and>
     (he = None \<longrightarrow> dict_entries d' = dict_entries d) \<and>
     (\<forall>k'. dict_lookup t d' k' = (if dictKeyEq t k' k then None else dict_lookup t d k'))"
proof -
  have tabs: "dict_tables t d" using ok by (simp add: dict_ok_def)
  have absent: "\<forall>k'. dict_lookup t d k' = (if dictKeyEq t k' k then None else dict_lookup t d k')"
    if "dict_lookup t d k = None"
    using that dict_lookup_None [OF ok] eq_sym eq_trans by (metis (no_types, lifting))
  show ?thesis
  proof (cases "ht_used (ht0 d) = 0 \<and> ht_used (ht1 d) = 0")
    case True
    then have "dict_entries d = {#}" using dictSize_entries [OF tabs] by (simp add: dictSize_def)
    then have "dict_lookup t d k = None" using dict_lookup_None [OF ok] by simp
    then show ?thesis using True ok absent by (simp add: dictGenericDelete_def dictFreeUnlinkedEntry_def)
  next
    case False
    obtain d1 where d1: "rehashStepIf t d = Some d1" "dict_tables t d1"
        "dict_entries d1 = dict_entries d" "iterators d1 = iterators d"
      using rehashStepIf_spec [OF tabs] by blast
    then have ok1: "dict_ok t d1" using ok by (simp add: dict_ok_def)
    have lk: "dict_lookup t d1 = dict_lookup t d" using dict_lookup_cong [OF ok ok1 d1(3)] .
    have "dict_entries d1 \<noteq> {#}" using False dictSize_entries [OF tabs] d1(3) by (auto simp: dictSize_def)
    then have "ht0 d1 \<noteq> dictReset" using dict_tables_nonempty d1(2) by blast
    then obtain r where r: "table_search t d1 k (hashFunction t k) = Some r"
        "case r of None \<Rightarrow> \<forall>e \<in># dict_entries d1. \<not> dictKeyEq t k (de_key e)
         | Some loc \<Rightarrow> loc_ok d1 loc \<and> dictKeyEq t k (de_key (entry_at d1 loc))"
      using table_search_spec [OF d1(2)] by blast
    show ?thesis
    proof (cases r)
      case None
      then have "dict_lookup t d k = None" using r(2) dict_lookup_None [OF ok1] lk by simp
      moreover have "dictGenericDelete t d k nofree = Some (d1, None, [])"
        using False d1(1) r(1) None by (auto simp: dictGenericDelete_def)
      ultimately show ?thesis using d1 ok1 lk absent by (simp add: dictFreeUnlinkedEntry_def)
    next
      case (Some loc)
      obtain tb idx i where l: "loc = (tb, idx, i)" by (cases loc)
      define ht cs where "ht = get_ht d1 tb" and "cs = ht_table ht ! idx"
      define he where "he = cs ! i"
      have loc: "loc_ok d1 (tb, idx, i)" "entry_at d1 loc = he" "dictKeyEq t k (de_key he)"
        using r(2) Some by (auto simp: l entry_at_def ht_def cs_def he_def)
      have i: "tb \<le> 1" "idx < length (ht_table ht)" "i < length cs"
        using loc(1) by (auto simp: loc_ok_def ht_def cs_def)
      let ?c = "take i cs @ drop (Suc i) cs"
      define d2 where "d2 = set_ht d1 tb ((set_bucket ht idx ?c)\<lparr>ht_used := ht_used ht - 1\<rparr>)"
      have eq: "dictGenericDelete t d k nofree = Some (d2, Some he, if nofree then [] else dictFreeUnlinkedEntry t (Some he))"
        using False d1(1) r(1) Some
        by (auto simp: dictGenericDelete_def l Let_def ht_def cs_def he_def d2_def dictFreeUnlinkedEntry_def)
      have inv: "ht_inv t ht" using dict_tables_get [OF d1(2)] by (simp add: ht_def)
      have used: "length cs \<le> ht_used ht"
        using length_concat_update [OF i(2), of "[]"] ht_inv_used [OF inv] by (simp add: cs_def)
      have "\<forall>e \<in> set ?c. ht_index ht (hashFunction t (de_key e)) = idx"
        using ht_bucket_index [OF inv i(2)] by (auto simp: cs_def dest: in_set_takeD in_set_dropD)
      then have tabs2: "dict_tables t d2"
        unfolding d2_def ht_def
        by (intro dict_tables_chain [OF d1(2)]) (use i used loc_not_low [OF d1(2) loc(1)] in \<open>auto simp: ht_def cs_def\<close>)
      have "dict_entries d2 + mset cs = dict_entries d + mset ?c"
        using dict_entries_set_ht [where d = d1 and tb = tb and i = idx and c = ?c and u = "ht_used ht - 1"] i(2) d1(3)
        by (simp add: d2_def ht_def cs_def)
      then have "dict_entries d2 + (mset ?c + {#he#}) = dict_entries d + mset ?c"
        using mset_delete_nth [OF i(3)] by (simp only: he_def)
      then have ent: "dict_entries d = add_mset he (dict_entries d2)" by simp
      note rm = dict_lookup_remove [OF ok tabs2 ent]
      have "dictKeyEq t k' (de_key he) \<longleftrightarrow> dictKeyEq t k' k" for k'
        using eq_iff [OF loc(3)] by auto
      moreover have "dict_lookup t d k = Some (de_val he)"
        using dict_lookup_entry [OF ok _ loc(3)] ent by simp
      moreover have "iterators d2 = iterators d" by (simp add: d2_def set_ht_def d1(4))
      ultimately show ?thesis using eq rm ent loc(3)
        by (intro exI [of _ d2] exI [of _ "Some he"]) simp
    qed
  qed
qed

lemma dictDelete_spec:
  assumes ok: "dict_ok t d"
  shows "\<exists>d' calls. dictDelete t d k =
       Some (d', if dict_lookup t d k = None then DICT_ERR else DICT_OK, calls) \<and>
     dict_ok t d' \<and> iterators d' = iterators d \<and>
     (\<forall>k'. dict_lookup t d' k' = (if dictKeyEq t k' k then None else dict_lookup t d k'))"
proof -
  obtain d' he where "dictGenericDelete t d k False = Some (d', he, dictFreeUnlinkedEntry t he)"
     "dict_ok t d'" "iterators d' = iterators d" "dict_lookup t d k = map_option de_val he"
     "\<forall>k'. dict_lookup t d' k' = (if dictKeyEq t k' k then None else dict_lookup t d k')"
    using dictGenericDelete_spec [OF ok, of k False] by metis
  then show ?thesis by (cases he) (auto simp: dictDelete_def)
qed

lemma dictClear_loop_free:
  "used = length (concat cs) \<Longrightarrow>
   filter (\<lambda>x. x \<noteq> EmptyCallback) (dictClear_loop t cb i used cs) =
   concat (map (\<lambda>he. dictFreeKey t he @ dictFreeVal t he) (concat cs))"
proof (induction cs arbitrary: i used)
  case (Cons c cs)
  have nc: "filter (\<lambda>x. x \<noteq> EmptyCallback) (concat (map (\<lambda>he. dictFreeKey t he @ dictFreeVal t he) c)) =
      concat (map (\<lambda>he. dictFreeKey t he @ dictFreeVal t he) c)" for c :: "('k, 'v) dictEntry list"
    by (induction c) (auto simp: dictFreeKey_def dictFreeVal_def)
  show ?case
  proof (cases "used = 0")
    case True
    then have "concat (c # cs) = []" using Cons.prems by simp
    then show ?thesis using True by (simp only: dictClear_loop.simps) simp
  next
    case False
    then show ?thesis using Cons nc [of c] by simp
  qed
qed simp

lemma dictEmpty_spec:
  assumes "dict_tables t d"
  shows "dict_ok t (fst (dictEmpty t cb d))" and "dict_lookup t (fst (dictEmpty t cb d)) k = None"
    and "filter (\<lambda>x. x \<noteq> EmptyCallback) (snd (dictEmpty t cb d)) =
         concat (map (\<lambda>he. dictFreeKey t he @ dictFreeVal t he)
           (concat (ht_table (ht0 d)) @ concat (ht_table (ht1 d))))"
proof -
  have u: "ht_used (ht0 d) = length (concat (ht_table (ht0 d)))" "ht_used (ht1 d) = length (concat (ht_table (ht1 d)))"
    using assms ht_inv_used by (auto simp: dict_tables_def)
  show "dict_ok t (fst (dictEmpty t cb d))"
    by (simp add: dictEmpty_def dictClear_def dict_ok_def dict_tables_def dict_entries_def keys_uniq_def)
  show "dict_lookup t (fst (dictEmpty t cb d)) k = None"
    by (simp add: dictEmpty_def dictClear_def dict_lookup_def)
  show "filter (\<lambda>x. x \<noteq> EmptyCallback) (snd (dictEmpty t cb d)) =
         concat (map (\<lambda>he. dictFreeKey t he @ dictFreeVal t he)
           (concat (ht_table (ht0 d)) @ concat (ht_table (ht1 d))))"
    using dictClear_loop_free [OF u(1)] dictClear_loop_free [OF u(2)]
    by (simp add: dictEmpty_def dictClear_def)
qed

end

end
