(* ===== verification/Key_Types.thy ===== *)
theory Key_Types
  imports Dict_Correct
begin

text \<open>
  The dictionary types of the server (\<open>server.c\<close>) whose keys are sds strings, their hash and
  comparison functions, and the contract \<open>dict_keys\<close> for each of them. An sds string is the
  list of its \<open>sdslen\<close> bytes; strings are limited to 512 MB by the default of \<open>proto-max-bulk-len\<close> and by
  \<open>checkStringLength\<close>, so the conversions of a length to \<open>int\<close> are exact. The 16-byte
  \<open>dict_hash_function_seed\<close> is a global and therefore an argument.
\<close>

type_synonym sds = "byte list"

section \<open>Hash and comparison functions\<close>

definition dictGenHashFunction :: "byte list \<Rightarrow> sds \<Rightarrow> u64" where
  "dictGenHashFunction seed key = siphash key seed"

definition dictGenCaseHashFunction :: "byte list \<Rightarrow> sds \<Rightarrow> u64" where
  "dictGenCaseHashFunction seed buf = siphash_nocase buf seed"

definition dictSdsHash :: "byte list \<Rightarrow> sds \<Rightarrow> u64" where
  "dictSdsHash seed key = dictGenHashFunction seed key"

definition dictSdsCaseHash :: "byte list \<Rightarrow> sds \<Rightarrow> u64" where
  "dictSdsCaseHash seed key = dictGenCaseHashFunction seed key"

definition dictSdsKeyCompare :: "sds \<Rightarrow> sds \<Rightarrow> bool" where
  "dictSdsKeyCompare key1 key2 =
     (let l1 = length key1; l2 = length key2
      in if l1 \<noteq> l2 then False else take l1 key1 = take l1 key2)"

text \<open>
  \<open>strcasecmp\<close> of the C library in the \<open>C\<close> locale: it compares up to the first NUL byte. An
  sds string is followed by a NUL byte that \<open>sdslen\<close> does not count.
\<close>

fun strcasecmp :: "sds \<Rightarrow> sds \<Rightarrow> int" where
  "strcasecmp [] s2 = 0 - (case s2 of [] \<Rightarrow> 0 | y # _ \<Rightarrow> siptlw (uint y))"
| "strcasecmp (x # s1) s2 =
     (let c1 = siptlw (uint x); c2 = (case s2 of [] \<Rightarrow> 0 | y # _ \<Rightarrow> siptlw (uint y))
      in if c1 \<noteq> c2 then c1 - c2 else if c1 = 0 then 0 else strcasecmp s1 (tl s2))"

definition dictSdsKeyCaseCompare :: "sds \<Rightarrow> sds \<Rightarrow> bool" where
  "dictSdsKeyCaseCompare key1 key2 \<longleftrightarrow> strcasecmp key1 key2 = 0"

section \<open>The dictionary types\<close>

definition setDictType :: "byte list \<Rightarrow> (sds, 'v) dictType" where
  "setDictType seed =
     \<lparr>hashFunction = dictSdsHash seed, keyDup = None, valDup = None,
      keyCompare = Some dictSdsKeyCompare, keyDestructor = True, valDestructor = False\<rparr>"

definition zsetDictType :: "byte list \<Rightarrow> (sds, 'v) dictType" where
  "zsetDictType seed =
     \<lparr>hashFunction = dictSdsHash seed, keyDup = None, valDup = None,
      keyCompare = Some dictSdsKeyCompare, keyDestructor = False, valDestructor = False\<rparr>"

definition dbDictType :: "byte list \<Rightarrow> (sds, 'v) dictType" where
  "dbDictType seed =
     \<lparr>hashFunction = dictSdsHash seed, keyDup = None, valDup = None,
      keyCompare = Some dictSdsKeyCompare, keyDestructor = True, valDestructor = True\<rparr>"

definition shaScriptObjectDictType :: "byte list \<Rightarrow> (sds, 'v) dictType" where
  "shaScriptObjectDictType seed =
     \<lparr>hashFunction = dictSdsCaseHash seed, keyDup = None, valDup = None,
      keyCompare = Some dictSdsKeyCaseCompare, keyDestructor = True, valDestructor = True\<rparr>"

definition keyptrDictType :: "byte list \<Rightarrow> (sds, 'v) dictType" where
  "keyptrDictType seed =
     \<lparr>hashFunction = dictSdsHash seed, keyDup = None, valDup = None,
      keyCompare = Some dictSdsKeyCompare, keyDestructor = False, valDestructor = False\<rparr>"

definition commandTableDictType :: "byte list \<Rightarrow> (sds, 'v) dictType" where
  "commandTableDictType seed =
     \<lparr>hashFunction = dictSdsCaseHash seed, keyDup = None, valDup = None,
      keyCompare = Some dictSdsKeyCaseCompare, keyDestructor = True, valDestructor = False\<rparr>"

definition hashDictType :: "byte list \<Rightarrow> (sds, 'v) dictType" where
  "hashDictType seed =
     \<lparr>hashFunction = dictSdsHash seed, keyDup = None, valDup = None,
      keyCompare = Some dictSdsKeyCompare, keyDestructor = True, valDestructor = True\<rparr>"

definition clusterNodesDictType :: "byte list \<Rightarrow> (sds, 'v) dictType" where
  "clusterNodesDictType seed =
     \<lparr>hashFunction = dictSdsHash seed, keyDup = None, valDup = None,
      keyCompare = Some dictSdsKeyCompare, keyDestructor = True, valDestructor = False\<rparr>"

definition migrateCacheDictType :: "byte list \<Rightarrow> (sds, 'v) dictType" where
  "migrateCacheDictType seed =
     \<lparr>hashFunction = dictSdsHash seed, keyDup = None, valDup = None,
      keyCompare = Some dictSdsKeyCompare, keyDestructor = True, valDestructor = False\<rparr>"

lemmas dictType_defs = setDictType_def zsetDictType_def dbDictType_def keyptrDictType_def
  hashDictType_def clusterNodesDictType_def migrateCacheDictType_def

section \<open>Dictionaries as maps\<close>

text \<open>
  Where keys compare equal only when they are equal and values are stored as given, the
  abstract state of a dictionary is the map \<open>dict_lookup t d\<close>, and every operation is the
  corresponding operation on maps.
\<close>

lemma dictSdsKeyCompare_eq [simp]: "dictSdsKeyCompare a b \<longleftrightarrow> a = b"
  by (auto simp: dictSdsKeyCompare_def Let_def)

locale dict_map = dict_keys t for t :: "('k, 'v) dictType" +
  assumes key_ident: "dictKeyEq t a b \<longleftrightarrow> a = b"
    and val_ident: "dictDupVal t v = v"
begin

lemma map_find:
  assumes "dict_ok t d"
  shows "\<exists>d' r. dictFind t d k = Some (d', r) \<and> dict_ok t d' \<and> dict_lookup t d' = dict_lookup t d \<and>
     iterators d' = iterators d \<and>
     (case r of None \<Rightarrow> dict_lookup t d k = None
      | Some loc \<Rightarrow> loc_ok d' loc \<and> de_key (entry_at d' loc) = k \<and>
                    dict_lookup t d k = Some (de_val (entry_at d' loc)))"
proof -
  obtain d' r where r: "dictFind t d k = Some (d', r)" "dict_ok t d'" "dict_entries d' = dict_entries d"
      "iterators d' = iterators d"
      "case r of None \<Rightarrow> dict_lookup t d k = None
       | Some loc \<Rightarrow> loc_ok d' loc \<and> dictKeyEq t k (de_key (entry_at d' loc)) \<and>
                     dict_lookup t d k = Some (de_val (entry_at d' loc))"
    using dictFind_spec [OF assms, of k] by blast
  moreover have "dict_lookup t d' = dict_lookup t d" using dict_lookup_cong [OF assms r(2,3)] .
  ultimately show ?thesis by (cases r) (auto simp: key_ident)
qed

lemma map_fetch:
  assumes "dict_ok t d"
  shows "\<exists>d'. dictFetchValue t d k = Some (d', dict_lookup t d k) \<and> dict_ok t d' \<and>
              dict_lookup t d' = dict_lookup t d \<and> iterators d' = iterators d"
  using dictFetchValue_spec [OF assms, of k] dict_lookup_cong [OF assms] by blast

lemma map_add:
  assumes "dict_ok t d" "dictSize d < 2 ^ 58"
  shows "\<exists>d'. dictAdd c junk t d k v =
       Some (d', if dict_lookup t d k = None then DICT_OK else DICT_ERR) \<and>
     dict_ok t d' \<and> iterators d' = iterators d \<and>
     dict_lookup t d' = (if dict_lookup t d k = None then (dict_lookup t d)(k \<mapsto> v) else dict_lookup t d)"
proof -
  obtain d' where "dictAdd c junk t d k v =
       Some (d', if dict_lookup t d k = None then DICT_OK else DICT_ERR)" "dict_ok t d'"
     "iterators d' = iterators d"
     "\<forall>k'. dict_lookup t d' k' =
        (if dict_lookup t d k = None \<and> k' = k then Some v else dict_lookup t d k')"
    using dictAdd_spec [OF assms, of c junk k v] by (auto simp: key_ident val_ident)
  moreover from this have "dict_lookup t d' =
      (if dict_lookup t d k = None then (dict_lookup t d)(k \<mapsto> v) else dict_lookup t d)"
    by (auto simp: fun_eq_iff)
  ultimately show ?thesis by blast
qed

lemma map_replace:
  assumes "dict_ok t d" "dictSize d < 2 ^ 58"
  shows "\<exists>d'. dictReplace c junk t d k v =
       Some (d', case dict_lookup t d k of None \<Rightarrow> (1, [])
                 | Some old \<Rightarrow> (0, if valDestructor t then [FreeVal old] else [])) \<and>
     dict_ok t d' \<and> iterators d' = iterators d \<and> dict_lookup t d' = (dict_lookup t d)(k \<mapsto> v)"
proof -
  obtain d' where "dictReplace c junk t d k v =
       Some (d', case dict_lookup t d k of None \<Rightarrow> (1, [])
                 | Some old \<Rightarrow> (0, if valDestructor t then [FreeVal old] else []))" "dict_ok t d'"
     "iterators d' = iterators d"
     "\<forall>k'. dict_lookup t d' k' = (if k' = k then Some v else dict_lookup t d k')"
    using dictReplace_spec [OF assms, of c junk k v] unfolding key_ident val_ident by blast
  moreover from this have "dict_lookup t d' = (dict_lookup t d)(k \<mapsto> v)" by (auto simp: fun_eq_iff)
  ultimately show ?thesis by blast
qed

lemma map_delete:
  assumes "dict_ok t d"
  shows "\<exists>d' calls. dictDelete t d k =
       Some (d', if dict_lookup t d k = None then DICT_ERR else DICT_OK, calls) \<and>
     dict_ok t d' \<and> iterators d' = iterators d \<and> dict_lookup t d' = (dict_lookup t d)(k := None)"
proof -
  obtain d' calls where "dictDelete t d k =
       Some (d', if dict_lookup t d k = None then DICT_ERR else DICT_OK, calls)" "dict_ok t d'"
     "iterators d' = iterators d"
     "\<forall>k'. dict_lookup t d' k' = (if k' = k then None else dict_lookup t d k')"
    using dictDelete_spec [OF assms, of k] unfolding key_ident by blast
  moreover from this have "dict_lookup t d' = (dict_lookup t d)(k := None)" by (auto simp: fun_eq_iff)
  ultimately show ?thesis by blast
qed

lemma map_unlink:
  assumes "dict_ok t d"
  shows "\<exists>d' he. dictUnlink t d k = Some (d', he) \<and> dict_ok t d' \<and> iterators d' = iterators d \<and>
     map_option de_val he = dict_lookup t d k \<and> (\<forall>e. he = Some e \<longrightarrow> de_key e = k) \<and>
     dict_lookup t d' = (dict_lookup t d)(k := None)"
proof -
  obtain d' he where "dictGenericDelete t d k True = Some (d', he, [])" "dict_ok t d'"
     "iterators d' = iterators d" "map_option de_val he = dict_lookup t d k"
     "\<forall>e. he = Some e \<longrightarrow> k = de_key e"
     "\<forall>k'. dict_lookup t d' k' = (if k' = k then None else dict_lookup t d k')"
    using dictGenericDelete_spec [OF assms, of k True] unfolding key_ident by auto
  moreover from this have "dict_lookup t d' = (dict_lookup t d)(k := None)" by (auto simp: fun_eq_iff)
  ultimately show ?thesis by (intro exI [of _ d'] exI [of _ he]) (auto simp: dictUnlink_def)
qed

lemma map_set_val:
  assumes "dict_ok t d" "loc_ok d loc"
  shows "dict_ok t (dictSetVal t d loc v)"
    and "dict_lookup t (dictSetVal t d loc v) = (dict_lookup t d)(de_key (entry_at d loc) \<mapsto> v)"
proof -
  have tabs: "dict_tables t d" using assms(1) by (simp add: dict_ok_def)
  note set = dictSetVal_spec [OF tabs assms(2), of v, unfolded val_ident]
  note look = dict_lookup_set [OF assms(1) set(1) loc_ok_entry [OF assms(2)] set(2)]
  show "dict_ok t (dictSetVal t d loc v)" by (rule look(1))
  show "dict_lookup t (dictSetVal t d loc v) = (dict_lookup t d)(de_key (entry_at d loc) \<mapsto> v)"
    using look(2) by (auto simp: fun_eq_iff key_ident)
qed

lemma map_add_or_find:
  assumes "dict_ok t d" "dictSize d < 2 ^ 58"
  shows "\<exists>d' loc. dictAddOrFind c junk t d k = Some (d', Some loc) \<and> dict_ok t d' \<and> loc_ok d' loc \<and>
     de_key (entry_at d' loc) = k \<and> iterators d' = iterators d \<and>
     dict_lookup t d' = (if dict_lookup t d k = None then (dict_lookup t d)(k \<mapsto> junk) else dict_lookup t d)"
proof -
  obtain d' r where r: "dictAddRaw c junk t d k = Some (d', r)" "dict_tables t d'" "iterators d' = iterators d"
     "case r of
        Inr loc \<Rightarrow> dict_lookup t d k = None \<and> loc_ok d' loc \<and>
          entry_at d' loc = \<lparr>de_key = dictDupKey t k, de_val = junk\<rparr> \<and>
          dict_entries d' = add_mset (entry_at d' loc) (dict_entries d)
      | Inl existing \<Rightarrow> \<exists>loc. existing = Some loc \<and> loc_ok d' loc \<and> dict_entries d' = dict_entries d \<and>
          dictKeyEq t k (de_key (entry_at d' loc)) \<and> dict_lookup t d k = Some (de_val (entry_at d' loc))"
    using dictAddRaw_spec [OF assms, of c junk k] by blast
  have dup: "dictDupKey t k = k" using dup_eq [of k] by (simp add: key_ident)
  show ?thesis
  proof (cases r)
    case (Inl existing)
    then obtain loc where loc: "existing = Some loc" "loc_ok d' loc" "dict_entries d' = dict_entries d"
        "k = de_key (entry_at d' loc)" "dict_lookup t d k = Some (de_val (entry_at d' loc))"
      using r(4) by (auto simp: key_ident)
    then have ok': "dict_ok t d'" using assms(1) r(2) by (simp add: dict_ok_def)
    then show ?thesis using loc r(1,3) Inl dict_lookup_cong [OF assms(1) ok' loc(3)]
      by (intro exI [of _ d'] exI [of _ loc]) (simp add: dictAddOrFind_def)
  next
    case (Inr loc)
    then have l: "dict_lookup t d k = None" "loc_ok d' loc" "entry_at d' loc = \<lparr>de_key = k, de_val = junk\<rparr>"
        "dict_entries d' = add_mset (entry_at d' loc) (dict_entries d)"
      using r(4) by (auto simp: dup)
    then have look: "dict_ok t d'"
        "\<And>k'. dict_lookup t d' k' = (if k' = k then Some junk else dict_lookup t d k')"
      using dict_lookup_add [OF assms(1) r(2) l(4)] by (simp_all add: key_ident)
    then have "dict_lookup t d' = (dict_lookup t d)(k \<mapsto> junk)" by (auto simp: fun_eq_iff)
    then show ?thesis using l r(1,3) Inr look(1)
      by (intro exI [of _ d'] exI [of _ loc]) (simp add: dictAddOrFind_def)
  qed
qed

lemma map_expand:
  assumes "dict_ok t d" "n \<le> 2 ^ 59"
  shows "\<exists>d' r. dictExpand d n = Some (d', r) \<and> dict_ok t d' \<and> dict_lookup t d' = dict_lookup t d"
proof -
  obtain d' r where e: "dictExpand d n = Some (d', r)" "dict_tables t d'" "dict_entries d' = dict_entries d"
    using dictExpand_ok [of t d n] assms by (auto simp: dict_ok_def)
  then have ok': "dict_ok t d'" using assms(1) by (simp add: dict_ok_def)
  then show ?thesis using e(1) dict_lookup_cong [OF assms(1) ok' e(3)] by blast
qed

lemma map_resize:
  assumes "dict_ok t d"
  shows "\<exists>d' r. dictResize c d = Some (d', r) \<and> dict_ok t d' \<and> dict_lookup t d' = dict_lookup t d"
proof -
  have "signed_take_bit 31 (int (ht_used (ht0 d))) < 2 ^ 31" using signed_take_bit_int_less_exp [of 31] by simp
  then show ?thesis using map_expand [OF assms] assms by (auto simp: dictResize_def Let_def)
qed

lemma map_rehash:
  assumes "dict_ok t d" "n < 214748365"
  shows "\<exists>d' b. dictRehash t d n = Some (d', b) \<and> dict_ok t d' \<and> dict_lookup t d' = dict_lookup t d \<and>
     (b \<longleftrightarrow> dictIsRehashing d')"
proof -
  obtain d' b where r: "dictRehash t d n = Some (d', b)" "rehash_post t d d' b"
    using dictRehash_spec [of t d n] assms by (auto simp: dict_ok_def)
  then have ok': "dict_ok t d'" using assms(1) by (simp add: dict_ok_def rehash_post_def)
  then show ?thesis using r dict_lookup_cong [OF assms(1) ok'] by (auto simp: rehash_post_def)
qed

lemma map_dom:
  assumes "dict_ok t d"
  shows "dom (dict_lookup t d) = de_key ` set_mset (dict_entries d)"
proof (rule set_eqI)
  fix k
  have "k \<in> dom (dict_lookup t d) \<longleftrightarrow> (\<exists>v. dict_lookup t d k = Some v)" by blast
  also have "\<dots> \<longleftrightarrow> (\<exists>e \<in># dict_entries d. k = de_key e)"
    by (simp add: dict_lookup_Some [OF assms] key_ident) blast
  finally show "k \<in> dom (dict_lookup t d) \<longleftrightarrow> k \<in> de_key ` set_mset (dict_entries d)" by blast
qed

lemma map_size:
  assumes "dict_ok t d"
  shows "dictSize d = card (dom (dict_lookup t d))" and "finite (dom (dict_lookup t d))"
proof -
  let ?N = "image_mset de_key (dict_entries d)"
  have cnt: "count (image_mset de_key M) k = size {#e \<in># M. k = de_key e#}" for M :: "('k, 'v) dictEntry multiset" and k
    by (induction M) auto
  have u: "size {#e \<in># dict_entries d. k = de_key e#} \<le> 1" for k
    using assms by (simp add: dict_ok_def keys_uniq_def key_ident)
  have "count ?N k = 1" if "k \<in># ?N" for k
    using u [of k] that cnt [of "dict_entries d" k] count_greater_zero_iff [of ?N k] by linarith
  then have "size ?N = card (set_mset ?N)" by (simp add: size_multiset_overloaded_eq)
  then show "dictSize d = card (dom (dict_lookup t d))"
    using dictSize_entries [of t d] assms by (simp add: map_dom dict_ok_def)
  show "finite (dom (dict_lookup t d))" using assms by (simp add: map_dom)
qed

text \<open>A write through a pointer to the entry of a key that is present.\<close>

lemma map_store:
  assumes ok: "dict_ok t d" and "dict_lookup t d k = Some w"
  shows "\<exists>loc. table_search t d k (hashFunction t k) = Some (Some loc) \<and> dict_ok t (dictSetVal t d loc v) \<and>
     dict_lookup t (dictSetVal t d loc v) = (dict_lookup t d)(k \<mapsto> v)"
proof -
  have tabs: "dict_tables t d" using ok by (simp add: dict_ok_def)
  obtain e where e: "e \<in># dict_entries d" "dictKeyEq t k (de_key e)"
    using assms(2) dict_lookup_Some [OF ok] by blast
  then have "dict_entries d \<noteq> {#}" by force
  then have "ht0 d \<noteq> dictReset" by (rule dict_tables_nonempty [OF tabs])
  then obtain r where r: "table_search t d k (hashFunction t k) = Some r"
      "case r of None \<Rightarrow> \<forall>e \<in># dict_entries d. \<not> dictKeyEq t k (de_key e)
       | Some loc \<Rightarrow> loc_ok d loc \<and> dictKeyEq t k (de_key (entry_at d loc))"
    using table_search_spec [OF tabs] by blast
  then obtain loc where loc: "r = Some loc" "loc_ok d loc" "k = de_key (entry_at d loc)"
    using e key_ident by (cases r) auto
  then show ?thesis using map_set_val [OF ok loc(2), of v] r(1) by auto
qed

end

section \<open>The contracts hold\<close>

text \<open>Every type whose keys are compared byte for byte.\<close>

lemma sds_dict_map:
  assumes "hashFunction t = dictSdsHash seed" "keyDup t = None" "valDup t = None"
    and "keyCompare t = Some dictSdsKeyCompare"
  shows "dict_map t"
  using assms by unfold_locales (auto simp: dictKeyEq_def dictCompareKeys_def dictDupKey_def dictDupVal_def)

interpretation set_dict: dict_map "setDictType seed" for seed
  by (rule sds_dict_map) (auto simp: dictType_defs)

interpretation zset_dict: dict_map "zsetDictType seed" for seed
  by (rule sds_dict_map) (auto simp: dictType_defs)

interpretation db_dict: dict_map "dbDictType seed" for seed
  by (rule sds_dict_map) (auto simp: dictType_defs)

interpretation keyptr_dict: dict_map "keyptrDictType seed" for seed
  by (rule sds_dict_map) (auto simp: dictType_defs)

interpretation hash_dict: dict_map "hashDictType seed" for seed
  by (rule sds_dict_map) (auto simp: dictType_defs)

interpretation cluster_nodes_dict: dict_map "clusterNodesDictType seed" for seed
  by (rule sds_dict_map) (auto simp: dictType_defs)

interpretation migrate_cache_dict: dict_map "migrateCacheDictType seed" for seed
  by (rule sds_dict_map) (auto simp: dictType_defs)

section \<open>Case-insensitive keys\<close>

lemma siptlw_byte: "siptlw (uint (a::byte)) = siptlw (uint b) \<longleftrightarrow> lower a = lower b"
proof -
  have "uint (lower c) = siptlw (uint c)" for c
    using uint_lt2p [of c] by (simp add: lower_def siptlw_def uint_word_of_int)
  then show ?thesis by (metis word_uint_eq_iff)
qed

lemma siptlw_zero: "siptlw (uint (a::byte)) = 0 \<longleftrightarrow> a = 0"
  using uint_0_iff [of a] by (auto simp: siptlw_def)

lemma strcasecmp_zero:
  "0 \<notin> set a \<Longrightarrow> 0 \<notin> set b \<Longrightarrow> strcasecmp a b = 0 \<longleftrightarrow> map lower a = map lower b"
proof (induction a b rule: strcasecmp.induct)
  case (1 s2)
  then show ?case by (auto simp: siptlw_zero split: list.splits)
next
  case (2 x s1 s2)
  then show ?case by (cases s2) (auto simp: Let_def siptlw_zero siptlw_byte)
qed

section \<open>Properties\<close>

text \<open>
  C34. The case-insensitive hash and comparison agree on keys without NUL bytes: keys that
  compare equal have the same hash.
\<close>

theorem case_keys_hash_agrees:
  assumes "0 \<notin> set a" "0 \<notin> set b" "dictKeyEq (commandTableDictType seed) a b"
  shows "hashFunction (commandTableDictType seed) a = hashFunction (commandTableDictType seed) b"
proof -
  have "map lower a = map lower b"
    using assms strcasecmp_zero [OF assms(1,2)]
    by (auto simp: dictKeyEq_def dictCompareKeys_def commandTableDictType_def dictSdsKeyCaseCompare_def)
  then show ?thesis
    by (simp add: commandTableDictType_def dictSdsCaseHash_def dictGenCaseHashFunction_def siphash_nocase_lower)
qed

theorem case_keys_hash_agrees_witness:
  "hashFunction (commandTableDictType (replicate 16 0)) [0x67, 0x65, 0x74] =
   hashFunction (commandTableDictType (replicate 16 0)) [0x47, 0x45, 0x54]"
  by (rule case_keys_hash_agrees)
     (simp_all add: dictKeyEq_def dictCompareKeys_def commandTableDictType_def dictSdsKeyCaseCompare_def siptlw_def)

text \<open>C35. \<open>siphash_nocase\<close> is \<open>siphash\<close> of the lower-cased input.\<close>

theorem siphash_nocase_is_lower: "siphash_nocase p k = siphash (map lower p) k"
  by (rule siphash_nocase_lower)

end
