(* ===== verification/Dict_Map.thy ===== *)
theory Dict_Map
  imports Key_Types
begin

text \<open>
  Dictionaries over whole executions: any sequence of operations on a dictionary of the server
  behaves like the same sequence on a finite map, independently of when tables are expanded
  and of how far incremental rehashing has got. Rehashing always completes, also when it is
  driven by a clock (\<open>dictRehashMilliseconds\<close>).
\<close>

section \<open>Rehashing against a clock\<close>

text \<open>
  \<open>clock i\<close> is what the \<open>i\<close>-th call of \<open>timeInMilliseconds\<close> returns; call 0 is \<open>start\<close>. The
  counter \<open>int rehashes\<close> wraps around.
\<close>

partial_function (option) dictRehashMilliseconds_loop ::
  "('k, 'v) dictType \<Rightarrow> (nat \<Rightarrow> int) \<Rightarrow> int \<Rightarrow> nat \<Rightarrow> int \<Rightarrow> ('k, 'v) dict \<Rightarrow> (('k, 'v) dict \<times> int) option" where
  "dictRehashMilliseconds_loop t clock ms i rehashes d =
     Option.bind (dictRehash t d 100) (\<lambda>(d, more).
       if more then
         (let rehashes = signed_take_bit 31 (rehashes + 100) in
          if clock i - clock 0 > ms then Some (d, rehashes)
          else dictRehashMilliseconds_loop t clock ms (Suc i) rehashes d)
       else Some (d, rehashes))"

definition dictRehashMilliseconds ::
  "('k, 'v) dictType \<Rightarrow> (nat \<Rightarrow> int) \<Rightarrow> ('k, 'v) dict \<Rightarrow> int \<Rightarrow> (('k, 'v) dict \<times> int) option" where
  "dictRehashMilliseconds t clock d ms = dictRehashMilliseconds_loop t clock ms 1 0 d"

text \<open>The number of buckets still to be moved bounds the number of further steps.\<close>

definition rehash_left :: "('k, 'v) dict \<Rightarrow> nat" where
  "rehash_left d = (if dictIsRehashing d then nat (int (length (ht_table (ht0 d))) - rehashidx d) else 0)"

lemma dictRehash_progress:
  assumes "dict_tables t d" "0 < n" "n < 214748365"
  shows "\<exists>d' b. dictRehash t d n = Some (d', b) \<and> dict_tables t d' \<and> dict_entries d' = dict_entries d \<and>
           iterators d' = iterators d \<and> (b \<longleftrightarrow> dictIsRehashing d') \<and> (b \<longrightarrow> rehash_left d' < rehash_left d)"
proof -
  obtain d' b where r: "dictRehash t d n = Some (d', b)" "rehash_post t d d' b" "b \<longrightarrow> rehashidx d < rehashidx d'"
    using dictRehash_spec [OF assms(1,3)] assms(2) by auto
  have "rehash_left d' < rehash_left d" if b
  proof -
    have "dictIsRehashing d" using r(1) that by (auto simp: dictRehash_def split: if_splits)
    moreover have "rehashidx d' < int (length (ht_table (ht0 d')))" "dictIsRehashing d'"
      using r(2) that ht_inv_size by (fastforce simp: rehash_post_def dict_tables_def dictIsRehashing_def split: if_splits)+
    ultimately show ?thesis using r(2,3) that by (auto simp: rehash_left_def rehash_post_def)
  qed
  then show ?thesis using r by (auto simp: rehash_post_def)
qed

lemma dictRehashMilliseconds_loop_spec:
  assumes "dict_tables t d"
  shows "\<exists>d' n. dictRehashMilliseconds_loop t clock ms i r d = Some (d', n) \<and> dict_tables t d' \<and>
           dict_entries d' = dict_entries d \<and> (\<not> dictIsRehashing d' \<or> (\<exists>j \<ge> i. clock j - clock 0 > ms))"
  using assms
proof (induction "rehash_left d" arbitrary: d i r rule: less_induct)
  case less
  obtain d1 b where r: "dictRehash t d 100 = Some (d1, b)" "dict_tables t d1" "dict_entries d1 = dict_entries d"
      "b \<longleftrightarrow> dictIsRehashing d1" "b \<longrightarrow> rehash_left d1 < rehash_left d"
    using dictRehash_progress [OF less.prems, of 100] by auto
  show ?case
  proof (cases "b \<and> \<not> clock i - clock 0 > ms")
    case True
    then obtain d' n where "dictRehashMilliseconds_loop t clock ms (Suc i) (signed_take_bit 31 (r + 100)) d1 = Some (d', n)"
        "dict_tables t d'" "dict_entries d' = dict_entries d1"
        "\<not> dictIsRehashing d' \<or> (\<exists>j \<ge> Suc i. clock j - clock 0 > ms)"
      using less.hyps [of d1 "Suc i" "signed_take_bit 31 (r + 100)"] r by blast
    then show ?thesis using True r(1,3)
      by (subst dictRehashMilliseconds_loop.simps) (auto simp: Let_def dest: Suc_leD)
  next
    case False
    then show ?thesis using r by (subst dictRehashMilliseconds_loop.simps) (auto simp: Let_def)
  qed
qed

fun rehash_steps :: "('k, 'v) dictType \<Rightarrow> nat \<Rightarrow> ('k, 'v) dict \<Rightarrow> ('k, 'v) dict option" where
  "rehash_steps t 0 d = Some d"
| "rehash_steps t (Suc n) d = Option.bind (dictRehash t d 1) (\<lambda>(d', _). rehash_steps t n d')"

lemma rehash_steps_spec:
  assumes "dict_tables t d" "rehash_left d \<le> n"
  shows "\<exists>d'. rehash_steps t n d = Some d' \<and> \<not> dictIsRehashing d' \<and> dict_tables t d' \<and> dict_entries d' = dict_entries d"
  using assms
proof (induction n arbitrary: d)
  case 0
  then have "\<not> dictIsRehashing d"
    using ht_inv_size by (fastforce simp: rehash_left_def dict_tables_def dictIsRehashing_def split: if_splits)
  then show ?case using 0 by simp
next
  case (Suc n)
  obtain d1 b where r: "dictRehash t d 1 = Some (d1, b)" "dict_tables t d1" "dict_entries d1 = dict_entries d"
      "b \<longleftrightarrow> dictIsRehashing d1" "b \<longrightarrow> rehash_left d1 < rehash_left d"
    using dictRehash_progress [OF Suc.prems(1), of 1] by auto
  have "rehash_left d1 \<le> n" using r(4,5) Suc.prems(2) by (cases b) (auto simp: rehash_left_def)
  then show ?case using Suc.IH [OF r(2)] r(1,3) by simp
qed

section \<open>Sequences of operations\<close>

datatype ('k, 'v) dict_op = OpAdd 'k 'v | OpReplace 'k 'v | OpDelete 'k | OpFetch 'k |
  OpRehash nat | OpExpand nat | OpResize

text \<open>
  What an operation returns: the status of \<open>dictAdd\<close> and \<open>dictDelete\<close>, the number of \<open>dictReplace\<close>, the
  value of \<open>dictFetchValue\<close>. The operations on the tables return nothing that depends on the entries only.
\<close>

datatype 'v dict_out = Added dict_res | Replaced nat | Deleted dict_res | Fetched "'v option" | Resized

text \<open>The arguments for which the tables can be allocated and no \<open>int\<close> overflows.\<close>

fun op_fits :: "('k, 'v) dict_op \<Rightarrow> bool" where
  "op_fits (OpRehash n) \<longleftrightarrow> int n * 10 < 2 ^ 31"
| "op_fits (OpExpand n) \<longleftrightarrow> n \<le> 2 ^ 59"
| "op_fits _ \<longleftrightarrow> True"

fun dict_step ::
  "bool \<Rightarrow> 'v \<Rightarrow> ('k, 'v) dictType \<Rightarrow> ('k, 'v) dict_op \<Rightarrow> ('k, 'v) dict \<Rightarrow> (('k, 'v) dict \<times> 'v dict_out) option" where
  "dict_step c junk t (OpAdd k v) d = map_option (\<lambda>(d', r). (d', Added r)) (dictAdd c junk t d k v)"
| "dict_step c junk t (OpReplace k v) d = map_option (\<lambda>(d', r, _). (d', Replaced r)) (dictReplace c junk t d k v)"
| "dict_step c junk t (OpDelete k) d = map_option (\<lambda>(d', r, _). (d', Deleted r)) (dictDelete t d k)"
| "dict_step c junk t (OpFetch k) d = map_option (\<lambda>(d', r). (d', Fetched r)) (dictFetchValue t d k)"
| "dict_step c junk t (OpRehash n) d = map_option (\<lambda>(d', _). (d', Resized)) (dictRehash t d n)"
| "dict_step c junk t (OpExpand n) d = map_option (\<lambda>(d', _). (d', Resized)) (dictExpand d n)"
| "dict_step c junk t OpResize d = map_option (\<lambda>(d', _). (d', Resized)) (dictResize c d)"

fun dict_run ::
  "bool \<Rightarrow> 'v \<Rightarrow> ('k, 'v) dictType \<Rightarrow> ('k, 'v) dict_op list \<Rightarrow> ('k, 'v) dict \<Rightarrow>
   (('k, 'v) dict \<times> 'v dict_out list) option" where
  "dict_run c junk t [] d = Some (d, [])"
| "dict_run c junk t (op # ops) d =
     do {
       (d1, r) \<leftarrow> dict_step c junk t op d;
       (d2, rs) \<leftarrow> dict_run c junk t ops d1;
       Some (d2, r # rs)
     }"

text \<open>The same operations on a map.\<close>

fun map_step :: "('k, 'v) dict_op \<Rightarrow> ('k \<rightharpoonup> 'v) \<Rightarrow> ('k \<rightharpoonup> 'v) \<times> 'v dict_out" where
  "map_step (OpAdd k v) m = (if m k = None then (m(k \<mapsto> v), Added DICT_OK) else (m, Added DICT_ERR))"
| "map_step (OpReplace k v) m = (m(k \<mapsto> v), Replaced (if m k = None then 1 else 0))"
| "map_step (OpDelete k) m = (m(k := None), Deleted (if m k = None then DICT_ERR else DICT_OK))"
| "map_step (OpFetch k) m = (m, Fetched (m k))"
| "map_step _ m = (m, Resized)"

fun map_run :: "('k, 'v) dict_op list \<Rightarrow> ('k \<rightharpoonup> 'v) \<Rightarrow> ('k \<rightharpoonup> 'v) \<times> 'v dict_out list" where
  "map_run [] m = (m, [])"
| "map_run (op # ops) m =
     (let (m1, r) = map_step op m; (m2, rs) = map_run ops m1 in (m2, r # rs))"

lemma card_dom_upd: "finite (dom m) \<Longrightarrow> card (dom (m(k \<mapsto> v))) \<le> Suc (card (dom m))"
  by (simp add: card_insert_if)

lemma card_dom_del: "finite (dom m) \<Longrightarrow> card (dom (m(k := None))) \<le> card (dom m)"
  by (simp add: card_Diff1_le)

lemma card_dom_step: "finite (dom m) \<Longrightarrow> card (dom (fst (map_step op m))) \<le> Suc (card (dom m))"
  by (cases op) (auto simp: card_insert_if card_Diff_singleton_if split: if_splits)

context dict_map
begin

lemma step_refines:
  assumes ok: "dict_ok t d" and room: "dictSize d < 2 ^ 58" and fits: "op_fits op"
  shows "\<exists>d' r. dict_step c junk t op d = Some (d', r) \<and> dict_ok t d' \<and>
           map_step op (dict_lookup t d) = (dict_lookup t d', r)"
proof (cases op)
  case (OpAdd k v)
  then show ?thesis using map_add [OF ok room, of c junk k v] by auto
next
  case (OpReplace k v)
  then show ?thesis using map_replace [OF ok room, of c junk k v] by (fastforce split: option.splits)
next
  case (OpDelete k)
  then show ?thesis using map_delete [OF ok, of k] by auto
next
  case (OpFetch k)
  then show ?thesis using map_fetch [OF ok, of k] by auto
next
  case (OpRehash n)
  then show ?thesis using map_rehash [OF ok, of n] fits by auto
next
  case (OpExpand n)
  then show ?thesis using map_expand [OF ok, of n] fits by auto
next
  case OpResize
  then show ?thesis using map_resize [OF ok, of c] by auto
qed

lemma run_refines:
  assumes "dict_ok t d" "dictSize d + length ops < 2 ^ 58" "list_all op_fits ops"
  shows "\<exists>d' rs. dict_run c junk t ops d = Some (d', rs) \<and> dict_ok t d' \<and>
           map_run ops (dict_lookup t d) = (dict_lookup t d', rs)"
  using assms
proof (induction ops arbitrary: d)
  case Nil
  then show ?case by simp
next
  case (Cons op ops)
  obtain d1 r where step: "dict_step c junk t op d = Some (d1, r)" "dict_ok t d1"
      "map_step op (dict_lookup t d) = (dict_lookup t d1, r)"
    using step_refines [OF Cons.prems(1), of op c junk] Cons.prems(2,3) by auto
  have "dictSize d1 \<le> Suc (dictSize d)"
    using card_dom_step [OF map_size(2) [OF Cons.prems(1)], of op] step(3)
    by (simp add: map_size(1) [OF Cons.prems(1)] map_size(1) [OF step(2)])
  then obtain d' rs where "dict_run c junk t ops d1 = Some (d', rs)" "dict_ok t d'"
      "map_run ops (dict_lookup t d1) = (dict_lookup t d', rs)"
    using Cons.IH [OF step(2)] Cons.prems(2,3) by fastforce
  then show ?case using step by simp
qed

end

section \<open>Properties\<close>

text \<open>
  C3. Every sequence of fewer than \<open>2 ^ 58\<close> operations on a fresh key space dictionary runs without
  undefined behaviour, returns what the same operations return on a map (the values of \<open>dictFetchValue\<close> and
  the results of \<open>dictAdd\<close>, \<open>dictReplace\<close> and \<open>dictDelete\<close>), and ends in a dictionary that represents the
  final map. Explicit calls of \<open>dictExpand\<close> ask for at most \<open>2 ^ 59\<close> buckets, so that the size of the
  table in bytes does not wrap around, and calls of \<open>dictRehash\<close> for so few steps that ten times their
  number is an \<open>int\<close>.
\<close>

theorem dict_refines_map:
  fixes junk :: 'v
  assumes "length ops < 2 ^ 58" "list_all op_fits ops"
  shows "\<exists>d rs. dict_run c junk (dbDictType seed) ops dictCreate = Some (d, rs) \<and> dict_ok (dbDictType seed) d \<and>
           map_run ops Map.empty = (dict_lookup (dbDictType seed) d, rs)"
proof -
  have "dict_lookup (dbDictType seed) (dictCreate :: (sds, 'v) dict) = Map.empty"
    by (simp add: dict_lookup_def dictCreate_def fun_eq_iff)
  moreover have "dictSize (dictCreate :: (sds, 'v) dict) + length ops < 2 ^ 58"
    using assms(1) by (simp add: dictSize_def dictCreate_def)
  ultimately show ?thesis
    using db_dict.run_refines [OF dictCreate_ok [of "dbDictType seed"], of ops c junk] assms(2) by simp
qed

theorem dict_refines_map_witness:
  "\<exists>d. dict_run True (0 :: int) (dbDictType (replicate 16 0))
     [OpAdd [1] 5, OpAdd [1] 6, OpFetch [1], OpExpand 64, OpRehash 1, OpReplace [2] 7, OpDelete [1], OpDelete [1], OpFetch [1],
      OpFetch [2]]
     dictCreate = Some (d, [Added DICT_OK, Added DICT_ERR, Fetched (Some 5), Resized, Resized, Replaced 1, Deleted DICT_OK,
      Deleted DICT_ERR, Fetched None, Fetched (Some 7)])"
  using dict_refines_map [of "[OpAdd [1] (5 :: int), OpAdd [1] 6, OpFetch [1], OpExpand 64, OpRehash 1, OpReplace [2] 7,
     OpDelete [1], OpDelete [1], OpFetch [1], OpFetch [2]]" True 0 "replicate 16 0"]
  by (simp del: dict_run.simps) blast

text \<open>
  C30. Rehashing always completes: as many single steps as the old table has buckets finish it,
  and the dictionary keeps its entries.
\<close>

theorem rehash_completes:
  assumes "dict_tables t d"
  shows "\<exists>d'. rehash_steps t (ht_size (ht0 d)) d = Some d' \<and> \<not> dictIsRehashing d' \<and> dict_entries d' = dict_entries d"
proof -
  have "rehash_left d \<le> ht_size (ht0 d)"
    using assms ht_inv_size [of t "ht0 d"] by (auto simp: rehash_left_def dict_tables_def dictIsRehashing_def split: if_splits)
  then show ?thesis using rehash_steps_spec [OF assms] by blast
qed

text \<open>A dictionary of four buckets that has just started to grow to eight.\<close>

definition growing_dict :: "(sds, int) dict" where
  "growing_dict = fst (the (dictExpand (fst (the (dictExpand dictCreate 4))) 8))"

lemma growing_dict_tables: "dict_tables t growing_dict"
proof -
  have "dict_tables t (fst (the (dictExpand d n)))" if "dict_tables t d" "n \<le> 2 ^ 59" for d :: "(sds, int) dict" and n
    using dictExpand_ok [OF that] by auto
  then show ?thesis unfolding growing_dict_def using dictCreate_ok [of t] by (simp add: dict_ok_def)
qed

theorem rehash_completes_witness:
  "\<exists>d'. rehash_steps (dbDictType []) (ht_size (ht0 growing_dict)) growing_dict = Some d' \<and> \<not> dictIsRehashing d' \<and>
     dict_entries d' = dict_entries growing_dict"
  by (rule rehash_completes [OF growing_dict_tables])

text \<open>
  C31. \<open>dictRehashMilliseconds\<close> returns whatever the clock shows; it stops early only after the
  clock has passed the limit, and the entries are kept.
\<close>

theorem rehash_milliseconds_returns:
  assumes "dict_tables t d"
  shows "\<exists>d' n. dictRehashMilliseconds t clock d ms = Some (d', n) \<and> dict_tables t d' \<and>
           dict_entries d' = dict_entries d \<and> (dictIsRehashing d' \<longrightarrow> (\<exists>i. clock i - clock 0 > ms))"
  using dictRehashMilliseconds_loop_spec [OF assms, of clock ms 1 0] unfolding dictRehashMilliseconds_def by blast

theorem rehash_milliseconds_returns_witness:
  "\<exists>d' n. dictRehashMilliseconds (dbDictType []) (\<lambda>_. 7) growing_dict 1 = Some (d', n) \<and>
     dict_tables (dbDictType []) d' \<and> dict_entries d' = dict_entries growing_dict"
  using rehash_milliseconds_returns [OF growing_dict_tables, of "dbDictType []" "\<lambda>_. 7" 1] by blast

end
