(* ===== verification/Dict_Scan.thy ===== *)
theory Dict_Scan
  imports Key_Types
begin

text \<open>
  The stateless cursor iteration of \<open>dict.c\<close> (\<open>rev\<close>, \<open>dictScan\<close>), which \<open>SCAN\<close>, \<open>SSCAN\<close> and
  \<open>HSCAN\<close> use and during which the table may be resized between calls. The calls to
  \<open>bucketfn\<close> and \<open>fn\<close> are returned in order; they get pointers into the table and, as
  \<open>dictScan\<close> requires, do not relink it. \<open>unsigned long\<close> has 64 bits.
\<close>

section \<open>Bit reversal\<close>

function rev_loop :: "nat \<Rightarrow> u64 \<Rightarrow> u64 \<Rightarrow> u64" where
  "rev_loop s msk v =
     (let s = s div 2 in
      if s > 0 then
        (let msk = msk XOR push_bit s msk;
             v = (drop_bit s v AND msk) OR (push_bit s v AND NOT msk)
         in rev_loop s msk v)
      else v)"
  by pat_completeness auto
termination by (relation "measure fst") auto

definition revl :: "u64 \<Rightarrow> u64" where
  \<comment> \<open>the static function \<open>rev\<close>\<close>
  "revl v = rev_loop 64 (NOT 0) v"

section \<open>The scan step\<close>

datatype ('k, 'v) scan_call = ScanBucket nat nat | ScanEntry "('k, 'v) dictEntry"

definition scan_emit ::
  "bool \<Rightarrow> nat \<Rightarrow> ('k, 'v) dictht \<Rightarrow> u64 \<Rightarrow> ('k, 'v) scan_call list option" where
  "scan_emit bucketfn tb ht v =
     (let idx = ht_index ht v in
      map_option (\<lambda>c. (if bucketfn then [ScanBucket tb idx] else []) @ map ScanEntry c) (bucket ht idx))"

partial_function (option) dictScan_loop ::
  "bool \<Rightarrow> nat \<Rightarrow> ('k, 'v) dictht \<Rightarrow> u64 \<Rightarrow> u64 \<Rightarrow> u64 \<Rightarrow> (u64 \<times> ('k, 'v) scan_call list) option" where
  "dictScan_loop bucketfn tb t1 m0 m1 v =
     Option.bind (scan_emit bucketfn tb t1 v) (\<lambda>es.
       let v = (((v OR m0) + 1) AND NOT m0) OR (v AND m0) in
       if v AND (m0 XOR m1) \<noteq> 0
       then Option.bind (dictScan_loop bucketfn tb t1 m0 m1 v) (\<lambda>(v, es'). Some (v, es @ es'))
       else Some (v, es))"

definition dictScan_next :: "u64 \<Rightarrow> u64 \<Rightarrow> u64" where
  "dictScan_next m0 v =
     (let v = v OR NOT m0; v = revl v; v = v + 1; v = revl v in v)"

definition dictScan ::
  "('k, 'v) dict \<Rightarrow> u64 \<Rightarrow> bool \<Rightarrow> (u64 \<times> ('k, 'v) scan_call list) option" where
  "dictScan d v bucketfn =
     (if dictSize d = 0 then Some (0, [])
      else if \<not> dictIsRehashing d then do {
        let m0 = ht_sizemask (ht0 d);
        es \<leftarrow> scan_emit bucketfn 0 (ht0 d) v;
        Some (dictScan_next m0 v, es)
      }
      else do {
        let (i0, i1) = (if ht_size (ht0 d) > ht_size (ht1 d) then (1, 0) else (0, 1));
        let t0 = get_ht d i0;
        let t1 = get_ht d i1;
        let m0 = ht_sizemask t0;
        let m1 = ht_sizemask t1;
        es \<leftarrow> scan_emit bucketfn i0 t0 v;
        (v, es') \<leftarrow> dictScan_loop bucketfn i1 t1 m0 m1 v;
        Some (dictScan_next m0 v, es @ es')
      })"

section \<open>Correctness of the reversal\<close>

lemma masks:
  "(NOT 0 :: u64) XOR push_bit 32 (NOT 0) = 0x00000000FFFFFFFF"
  "(0x00000000FFFFFFFF :: u64) XOR push_bit 16 0x00000000FFFFFFFF = 0x0000FFFF0000FFFF"
  "(0x0000FFFF0000FFFF :: u64) XOR push_bit 8 0x0000FFFF0000FFFF = 0x00FF00FF00FF00FF"
  "(0x00FF00FF00FF00FF :: u64) XOR push_bit 4 0x00FF00FF00FF00FF = 0x0F0F0F0F0F0F0F0F"
  "(0x0F0F0F0F0F0F0F0F :: u64) XOR push_bit 2 0x0F0F0F0F0F0F0F0F = 0x3333333333333333"
  "(0x3333333333333333 :: u64) XOR push_bit 1 0x3333333333333333 = 0x5555555555555555"
  by code_simp+

definition rev_step :: "nat \<Rightarrow> u64 \<Rightarrow> u64 \<Rightarrow> u64" where
  "rev_step s msk v = (drop_bit s v AND msk) OR (push_bit s v AND NOT msk)"

lemma rev_loop_step:
  assumes "s' = s div 2" "0 < s'" "m' = m XOR push_bit s' m"
  shows "rev_loop s m v = rev_loop s' m' (rev_step s' m' v)"
  by (subst rev_loop.simps) (use assms in \<open>simp only: Let_def rev_step_def if_True\<close>)

lemma revl_steps:
  "revl v = rev_step 1 0x5555555555555555 (rev_step 2 0x3333333333333333 (rev_step 4 0x0F0F0F0F0F0F0F0F
     (rev_step 8 0x00FF00FF00FF00FF (rev_step 16 0x0000FFFF0000FFFF (rev_step 32 0x00000000FFFFFFFF v)))))"
proof -
  note st = rev_loop_step [OF _ _ masks(1) [symmetric]] rev_loop_step [OF _ _ masks(2) [symmetric]]
    rev_loop_step [OF _ _ masks(3) [symmetric]] rev_loop_step [OF _ _ masks(4) [symmetric]]
    rev_loop_step [OF _ _ masks(5) [symmetric]] rev_loop_step [OF _ _ masks(6) [symmetric]]
  have "rev_loop 1 m w = w" for m w by (subst rev_loop.simps) simp
  then show ?thesis unfolding revl_def
    by (subst st(1), simp, simp, subst st(2), simp, simp, subst st(3), simp, simp,
        subst st(4), simp, simp, subst st(5), simp, simp, subst st(6), simp, simp, simp only:)
qed

text \<open>Each step exchanges the bits whose positions differ in the bit \<open>s\<close>.\<close>

lemma bit_rev_step:
  "bit (rev_step s msk v) i \<longleftrightarrow>
     i < 64 \<and> (if bit msk i then i + s < 64 \<and> bit v (i + s) else s \<le> i \<and> bit v (i - s))"
  by (auto simp: rev_step_def bit_simps add.commute dest: bit_imp_le_length)

lemma even_div_split:
  fixes i s :: nat
  assumes "0 < s"
  shows "(even (i div (2 * s)) \<noteq> (s \<le> i \<and> even ((i - s) div (2 * s)))) \<longleftrightarrow> even (i div s)"
proof -
  define q where "q = i div s"
  have "(i - s) div s = q - 1" using assms by (cases "s \<le> i") (simp_all add: q_def le_div_geq)
  then have "i div (2 * s) = q div 2" "(i - s) div (2 * s) = (q - 1) div 2"
    by (simp_all add: q_def div_mult2_eq mult.commute [of 2])
  moreover have "s \<le> i \<longleftrightarrow> 1 \<le> q" unfolding q_def using assms by (simp add: Suc_le_eq div_greater_zero_iff)
  ultimately have "(even (i div (2 * s)) \<noteq> (s \<le> i \<and> even ((i - s) div (2 * s)))) \<longleftrightarrow>
     (even (q div 2) \<noteq> (1 \<le> q \<and> even ((q - 1) div 2)))" by simp
  also have "\<dots> \<longleftrightarrow> even q" by presburger
  finally show ?thesis by (simp add: q_def)
qed

definition alternating :: "nat \<Rightarrow> u64 \<Rightarrow> bool" where
  "alternating s m \<longleftrightarrow> (\<forall>i < 64. bit m i \<longleftrightarrow> even (i div s))"

lemma alternating_step:
  assumes "alternating (2 * s) m" "m' = m XOR push_bit s m" "0 < s"
  shows "alternating s m'"
  unfolding alternating_def
proof (intro allI impI)
  fix i :: nat assume "i < 64"
  then show "bit m' i \<longleftrightarrow> even (i div s)"
    using even_div_split [OF assms(3), of i] assms(1,2)
    by (auto simp: alternating_def bit_xor_iff bit_push_bit_iff)
qed

lemma mask_bits:
  "alternating 32 0x00000000FFFFFFFF" "alternating 16 0x0000FFFF0000FFFF" "alternating 8 0x00FF00FF00FF00FF"
  "alternating 4 0x0F0F0F0F0F0F0F0F" "alternating 2 0x3333333333333333" "alternating 1 0x5555555555555555"
proof -
  have "alternating (2 * 32) (NOT 0)" by (simp add: alternating_def bit_not_iff)
  from alternating_step [OF this masks(1) [symmetric]] show a1: "alternating 32 0x00000000FFFFFFFF" by simp
  then show a2: "alternating 16 0x0000FFFF0000FFFF"
    using alternating_step [OF _ masks(2) [symmetric]] by simp
  then show a3: "alternating 8 0x00FF00FF00FF00FF"
    using alternating_step [OF _ masks(3) [symmetric]] by simp
  then show a4: "alternating 4 0x0F0F0F0F0F0F0F0F"
    using alternating_step [OF _ masks(4) [symmetric]] by simp
  then show a5: "alternating 2 0x3333333333333333"
    using alternating_step [OF _ masks(5) [symmetric]] by simp
  then show "alternating 1 0x5555555555555555"
    using alternating_step [OF _ masks(6) [symmetric]] by simp
qed

definition flip :: "nat \<Rightarrow> nat \<Rightarrow> nat" where
  "flip s i = (if even (i div s) then i + s else i - s)"

lemma flip_less:
  assumes "i < 64" "2 * s * k = 64"
  shows "flip s i < 64"
proof (cases "even (i div s)")
  case True
  have "i div s < 2 * k" using assms by (intro less_mult_imp_div_less) (simp add: algebra_simps)
  moreover obtain q where "i div s = 2 * q" using True by blast
  ultimately have "i div s + 2 \<le> 2 * k" by simp
  then have "s * (i div s + 2) \<le> s * (2 * k)" by (rule mult_le_mono2)
  moreover have "0 < s" using assms(2) by (cases s) auto
  then have "i < s * (i div s + 1)" using dividend_less_div_times [of s i] by (simp add: algebra_simps)
  ultimately show ?thesis using True assms by (simp add: flip_def algebra_simps)
next
  case False
  then show ?thesis using assms by (simp add: flip_def)
qed

definition blockrev :: "nat \<Rightarrow> nat \<Rightarrow> nat" where
  "blockrev s i = s * (i div s) + (s - 1 - i mod s)"

lemma flip_blockrev:
  assumes "0 < s"
  shows "flip s (blockrev s i) = blockrev (2 * s) i"
proof -
  define q r where "q = i div s" and "r = i mod s"
  have i: "i = s * q + r" "r < s" using assms by (auto simp: q_def r_def)
  have b: "blockrev s i = s * q + (s - 1 - r)" by (simp add: blockrev_def q_def r_def)
  have d: "blockrev s i div s = q" unfolding b using i(2) assms by (subst div_mult_self4) auto
  show ?thesis
  proof (cases "even q")
    case True
    then obtain p where "q = 2 * p" by blast
    then have "i = (2 * s) * p + r" "r < 2 * s" using i by auto
    then have "i div (2 * s) = p" "i mod (2 * s) = r" by auto
    then have "blockrev (2 * s) i = s * q + (2 * s - 1 - r)" using \<open>q = 2 * p\<close> by (simp add: blockrev_def)
    moreover have "flip s (blockrev s i) = s * q + (s - 1 - r) + s" unfolding flip_def d using True b by simp
    ultimately show ?thesis using i(2) by simp
  next
    case False
    then obtain p where p: "q = 2 * p + 1" by (metis oddE)
    then have "i = (2 * s) * p + (s + r)" "s + r < 2 * s" using i by (auto simp: algebra_simps)
    then have "i div (2 * s) = p" "i mod (2 * s) = s + r" by auto
    then have "blockrev (2 * s) i + s = s * q + (s - 1 - r)" using p i(2) by (simp add: blockrev_def algebra_simps)
    moreover have "flip s (blockrev s i) = s * q + (s - 1 - r) - s" unfolding flip_def d using False b by simp
    ultimately show ?thesis by simp
  qed
qed

lemma flip_all: "i < 64 \<Longrightarrow> flip 32 (flip 16 (flip 8 (flip 4 (flip 2 (flip 1 i))))) = 63 - i"
proof -
  have "flip 1 i = blockrev 2 i" using flip_blockrev [of 1 i] by (simp add: blockrev_def)
  then have "flip 32 (flip 16 (flip 8 (flip 4 (flip 2 (flip 1 i))))) = blockrev 64 i"
    using flip_blockrev [of 2 i] flip_blockrev [of 4 i] flip_blockrev [of 8 i] flip_blockrev [of 16 i]
      flip_blockrev [of 32 i] by simp
  then show "i < 64 \<Longrightarrow> ?thesis" by (simp add: blockrev_def)
qed

lemma rev_step_flip:
  assumes "i < 64" "2 * s * k = 64" "alternating s msk"
  shows "bit (rev_step s msk v) i \<longleftrightarrow> bit v (flip s i)"
proof -
  have "0 < s" using assms(2) by (cases s) auto
  then have "s \<le> i" if "odd (i div s)"
    using that by (metis div_less even_zero not_le)
  then show ?thesis using assms flip_less [OF assms(1,2)]
    by (auto simp: alternating_def bit_rev_step flip_def)
qed

lemma bit_revl: "bit (revl v) i \<longleftrightarrow> i < 64 \<and> bit v (63 - i)"
proof (cases "i < 64")
  case True
  have l1: "flip 1 i < 64" using flip_less [of i 1 32] True by simp
  have l2: "flip 2 (flip 1 i) < 64" using flip_less [of _ 2 16] l1 by simp
  have l3: "flip 4 (flip 2 (flip 1 i)) < 64" using flip_less [of _ 4 8] l2 by simp
  have l4: "flip 8 (flip 4 (flip 2 (flip 1 i))) < 64" using flip_less [of _ 8 4] l3 by simp
  have l5: "flip 16 (flip 8 (flip 4 (flip 2 (flip 1 i)))) < 64" using flip_less [of _ 16 2] l4 by simp
  have "bit (revl v) i = bit v (flip 32 (flip 16 (flip 8 (flip 4 (flip 2 (flip 1 i))))))"
    unfolding revl_steps
    using rev_step_flip [OF True _ mask_bits(6), of 32] rev_step_flip [OF l1 _ mask_bits(5), of 16]
      rev_step_flip [OF l2 _ mask_bits(4), of 8] rev_step_flip [OF l3 _ mask_bits(3), of 4]
      rev_step_flip [OF l4 _ mask_bits(2), of 2] rev_step_flip [OF l5 _ mask_bits(1), of 1] by simp
  then show ?thesis using flip_all [OF True] True by simp
next
  case False
  then show ?thesis using bit_imp_le_length by fastforce
qed

lemma revl_revl [simp]: "revl (revl v) = v"
  by (rule bit_word_eqI) (auto simp: bit_revl)

text \<open>Agreement on the low \<open>n\<close> bits is agreement of the reversed words on the high \<open>n\<close> bits.\<close>

definition R :: "u64 \<Rightarrow> nat" where "R v = unat (revl v)"

lemma R_less: "R v < 2 ^ 64"
  using unsigned_less [of "revl v"] by (simp add: R_def)

lemma R_zero [simp]: "R 0 = 0"
proof -
  have "revl 0 = 0" by (rule bit_word_eqI) (simp add: bit_revl)
  then show ?thesis by (simp add: R_def)
qed

lemma R_low_bits:
  assumes "n \<le> 64"
  shows "R v div 2 ^ (64 - n) = R h div 2 ^ (64 - n) \<longleftrightarrow> v AND mask n = h AND mask n"
proof -
  have "unat (drop_bit k w) = unat w div 2 ^ k" for k and w :: u64
    unfolding unat_drop_bit_eq by (rule drop_bit_eq_div)
  then have "R v div 2 ^ (64 - n) = R h div 2 ^ (64 - n) \<longleftrightarrow>
        drop_bit (64 - n) (revl v) = drop_bit (64 - n) (revl h)"
    unfolding R_def word_unat_eq_iff by simp
  also have "\<dots> \<longleftrightarrow> (\<forall>i < n. bit v i = bit h i)"
  proof
    assume eq: "drop_bit (64 - n) (revl v) = drop_bit (64 - n) (revl h)"
    show "\<forall>i < n. bit v i = bit h i"
    proof (intro allI impI)
      fix i assume "i < n"
      then have i: "64 - n + (n - 1 - i) = 63 - i" "63 - i < 64" "63 - (63 - i) = i" using assms by linarith+
      have "bit (drop_bit (64 - n) (revl v)) (n - 1 - i) = bit (drop_bit (64 - n) (revl h)) (n - 1 - i)"
        by (simp only: eq)
      then show "bit v i = bit h i" unfolding bit_drop_bit_eq o_def i(1) bit_revl i(3) using i(2) by blast
    qed
  next
    assume low: "\<forall>i < n. bit v i = bit h i"
    show "drop_bit (64 - n) (revl v) = drop_bit (64 - n) (revl h)"
    proof (rule bit_word_eqI)
      fix i
      have "63 - (64 - n + i) < n" if "64 - n + i < 64" using that assms by linarith
      then show "bit (drop_bit (64 - n) (revl v)) i = bit (drop_bit (64 - n) (revl h)) i"
        unfolding bit_drop_bit_eq o_def bit_revl using low by blast
    qed
  qed
  also have "\<dots> \<longleftrightarrow> v AND mask n = h AND mask n"
    using assms by (auto simp: bit_eq_iff bit_and_iff bit_mask_iff dest: less_le_trans)
  finally show ?thesis .
qed

section \<open>Cursor arithmetic\<close>

lemma or_mask_split: "v OR mask n = (v AND NOT (mask n)) + mask n" for v :: u64
  by (subst disjunctive_add) (auto simp: bit_simps intro: bit_word_eqI)

lemma and_mask_split: "(v AND NOT (mask n)) + (v AND mask n) = v" for v :: u64
  by (subst disjunctive_add) (auto simp: bit_simps intro: bit_word_eqI)

lemma or_mask_incr: "(v OR mask n) + 1 = push_bit n (drop_bit n v + 1)" for v :: u64
proof -
  have "mask n + 1 = (2 ^ n :: u64)" by (simp add: mask_eq_exp_minus_1)
  then have "(v OR mask n) + 1 = (v AND NOT (mask n)) + 2 ^ n" by (simp add: or_mask_split add.assoc)
  moreover have "v AND NOT (mask n) = push_bit n (drop_bit n v)" by (rule bit_word_eqI) (auto simp: bit_simps)
  ultimately show ?thesis by (simp add: push_bit_eq_mult algebra_simps)
qed

lemma scan_incr:
  fixes v :: u64
  assumes "n < 64"
  shows "(((v OR mask n) + 1) AND NOT (mask n)) OR (v AND mask n) = v + 2 ^ n"
proof -
  let ?p = "push_bit n (drop_bit n v + 1)"
  have "?p AND NOT (mask n) = ?p" by (rule bit_word_eqI) (auto simp: bit_simps)
  moreover have "?p OR (v AND mask n) = ?p + (v AND mask n)"
    by (subst disjunctive_add) (auto simp: bit_simps)
  moreover have "v AND NOT (mask n) = push_bit n (drop_bit n v)" by (rule bit_word_eqI) (auto simp: bit_simps)
  then have "?p = (v AND NOT (mask n)) + 2 ^ n" by (simp add: push_bit_eq_mult algebra_simps)
  then have "?p + (v AND mask n) = v + 2 ^ n" using and_mask_split [of v n] by (simp add: algebra_simps)
  ultimately show ?thesis unfolding or_mask_incr by simp
qed

lemma unat_or_mask:
  fixes x :: u64
  assumes "k \<le> 64"
  shows "unat (x OR mask k) = unat x div 2 ^ k * 2 ^ k + (2 ^ k - 1)"
proof -
  have "unat (x OR mask k) = unat x OR mask k"
    by (rule bit_eqI) (use assms in \<open>auto simp: bit_simps\<close>)
  also have "\<dots> = push_bit k (drop_bit k (unat x)) OR mask k"
    by (rule bit_eqI) (auto simp: bit_simps)
  also have "\<dots> = push_bit k (drop_bit k (unat x)) + mask k"
    by (rule disjunctive_add [symmetric]) (auto simp: bit_simps)
  finally show ?thesis by (simp add: push_bit_eq_mult drop_bit_eq_div mask_eq_exp_minus_1)
qed

lemma revl_or: "revl (v OR NOT (mask n)) = revl v OR mask (64 - n)"
  by (rule bit_word_eqI) (auto simp: bit_revl bit_simps)

lemma R_next:
  assumes "0 < n" "n \<le> 64"
  shows "R (dictScan_next (mask n) v) = (R v div 2 ^ (64 - n) + 1) * 2 ^ (64 - n) mod 2 ^ 64"
proof -
  let ?k = "64 - n" and ?w = "revl v OR mask (64 - n)"
  have "R (dictScan_next (mask n) v) = unat (?w + 1)"
    by (simp add: R_def dictScan_next_def revl_or)
  also have "\<dots> = (unat ?w + 1) mod 2 ^ 64" by (simp add: unat_word_ariths)
  also have "unat ?w + 1 = (R v div 2 ^ ?k + 1) * 2 ^ ?k"
    using unat_or_mask [of ?k "revl v"] by (simp add: R_def)
  finally show ?thesis .
qed

lemma mask_diff_zero:
  fixes v :: u64
  assumes "n0 \<le> n1" "n1 \<le> 64"
  shows "v AND (mask n0 XOR mask n1) = 0 \<longleftrightarrow> unat v mod 2 ^ n1 < 2 ^ n0"
proof -
  let ?w = "v AND mask n1"
  have "v AND (mask n0 XOR mask n1) = ?w AND NOT (mask n0)"
    by (rule bit_word_eqI) (use assms in \<open>auto simp: bit_simps\<close>)
  moreover have "?w AND NOT (mask n0) = 0 \<longleftrightarrow> ?w AND mask n0 = ?w"
    using and_mask_split [of ?w n0] by (metis add_0 add_cancel_right_left)
  moreover have "?w AND mask n0 = ?w \<longleftrightarrow> unat ?w mod 2 ^ n0 = unat ?w"
    using assms by (simp only: word_unat_eq_iff unat_and_mask)
  moreover have "unat ?w = unat v mod 2 ^ n1" using assms by (simp add: unat_and_mask)
  ultimately show ?thesis by (metis mod_less mod_less_divisor zero_less_numeral zero_less_power)
qed

lemma unat_incr:
  assumes "n0 \<le> n1" "n1 < 64"
  shows "unat (v + 2 ^ n0 :: u64) mod 2 ^ n1 = (unat v + 2 ^ n0) mod 2 ^ n1"
proof -
  have "(2::nat) ^ n0 < 2 ^ 64" using assms by (intro power_strict_increasing) auto
  then have "unat (of_nat (2 ^ n0) :: u64) = 2 ^ n0" by (simp only: unsigned_of_nat take_bit_eq_mod) simp
  then have "unat (2 ^ n0 :: u64) = 2 ^ n0" by simp
  moreover have "(2::nat) ^ n1 dvd 2 ^ 64" using assms by (intro le_imp_power_dvd) simp
  ultimately show ?thesis by (simp add: unat_word_ariths mod_mod_cancel)
qed

end
