(* ===== verification/Dict_Scan_Correct.thy ===== *)
theory Dict_Scan_Correct
  imports Dict_Scan
begin

text \<open>
  What the cursor iteration guarantees. One call of \<open>dictScan\<close> returns, advances the cursor in
  reversed bit order and emits every entry whose hash lies between the two cursors, provided
  the call is \<open>scan_safe\<close>. A whole iteration from cursor 0 back to 0 then emits every key that
  is present at every call, whatever happens to the dictionary in between. For calls that are
  not safe (a table that shrinks by a factor of four or more while it is being rehashed) the
  last section shows an iteration that misses a key.
\<close>

section \<open>One call\<close>

lemma scan_emit_Some:
  "idx = ht_index ht v \<Longrightarrow> idx < length (ht_table ht) \<Longrightarrow>
   \<exists>es. scan_emit bf tb ht v = Some es \<and> ScanEntry ` set (ht_table ht ! idx) \<subseteq> set es"
  by (auto simp: scan_emit_def bucket_def Let_def)

lemma congruent_gap:
  fixes V j :: nat
  assumes "V \<le> j" "j < V + 2 ^ n" "j mod 2 ^ n = V mod 2 ^ n"
  shows "j = V"
  using assms by (metis add_diff_inverse_nat add_less_cancel_left le_imp_less_or_eq mod_eq_dvd_iff_nat
      nat_dvd_not_less not_le zero_less_diff)

lemma dictScan_loop_spec:
  assumes ht: "length (ht_table ht) = 2 ^ n1" "ht_sizemask ht = mask n1" and n: "n0 \<le> n1" "n1 < 64"
  shows "\<exists>v' es. dictScan_loop bf tb ht (mask n0) (mask n1) v = Some (v', es) \<and>
     v' AND mask n0 = v AND mask n0 \<and>
     (\<forall>j. unat v mod 2 ^ n1 \<le> j \<and> j < 2 ^ n1 \<and> j mod 2 ^ n0 = unat v mod 2 ^ n0 \<longrightarrow>
          ScanEntry ` set (ht_table ht ! j) \<subseteq> set es)"
proof (induction "2 ^ n1 - unat v mod 2 ^ n1" arbitrary: v rule: less_induct)
  case less
  define V where "V = unat v mod 2 ^ n1"
  define w where "w = v + 2 ^ n0"
  have V: "V < 2 ^ n1" "V = ht_index ht v" by (simp_all add: V_def ht_index_def ht(2) unat_and_mask)
  have Vm: "V mod 2 ^ n0 = unat v mod 2 ^ n0"
    using n(1) by (simp add: V_def mod_mod_cancel le_imp_power_dvd)
  obtain es where es: "scan_emit bf tb ht v = Some es" "ScanEntry ` set (ht_table ht ! V) \<subseteq> set es"
    using scan_emit_Some [OF V(2)] V(1) ht(1) by metis
  have w: "(((v OR mask n0) + 1) AND NOT (mask n0)) OR (v AND mask n0) = w"
    unfolding w_def using n by (intro scan_incr) simp
  have wV: "unat w mod 2 ^ n1 = (V + 2 ^ n0) mod 2 ^ n1"
    unfolding w_def V_def using unat_incr [OF n, of v] by (simp add: mod_add_left_eq)
  have wm: "unat w mod 2 ^ n0 = unat v mod 2 ^ n0"
    unfolding w_def using unat_incr [of n0 n0 v] n by simp
  then have wl: "w AND mask n0 = v AND mask n0" by (simp only: word_unat_eq_iff unat_and_mask)
  have unf: "dictScan_loop bf tb ht (mask n0) (mask n1) v =
     (if unat w mod 2 ^ n1 < 2 ^ n0 then Some (w, es)
      else Option.bind (dictScan_loop bf tb ht (mask n0) (mask n1) w) (\<lambda>(v, es'). Some (v, es @ es')))"
    by (subst dictScan_loop.simps) (use n in \<open>simp add: es(1) w mask_diff_zero Let_def\<close>)
  show ?case
  proof (cases "V + 2 ^ n0 < 2 ^ n1")
    case True
    then have wV': "unat w mod 2 ^ n1 = V + 2 ^ n0" using wV by simp
    then have "2 ^ n1 - unat w mod 2 ^ n1 < 2 ^ n1 - unat v mod 2 ^ n1"
      unfolding wV' V_def [symmetric] using V(1) by (intro diff_less_mono2) simp_all
    from less [OF this] obtain v' es' where r: "dictScan_loop bf tb ht (mask n0) (mask n1) w = Some (v', es')"
        "v' AND mask n0 = w AND mask n0"
        "\<forall>j. V + 2 ^ n0 \<le> j \<and> j < 2 ^ n1 \<and> j mod 2 ^ n0 = unat v mod 2 ^ n0 \<longrightarrow>
          ScanEntry ` set (ht_table ht ! j) \<subseteq> set es'"
      unfolding wV' wm by blast
    have "ScanEntry ` set (ht_table ht ! j) \<subseteq> set (es @ es')"
      if "V \<le> j" "j < 2 ^ n1" "j mod 2 ^ n0 = unat v mod 2 ^ n0" for j
    proof (cases "j < V + 2 ^ n0")
      case True
      then have "j = V" using congruent_gap [OF that(1)] that(3) Vm by simp
      then show ?thesis using es(2) by auto
    next
      case False
      then have "ScanEntry ` set (ht_table ht ! j) \<subseteq> set es'" using r(3) that by (meson not_le)
      then show ?thesis by auto
    qed
    then show ?thesis using unf wV' r(1,2) wl by (auto simp: V_def [symmetric])
  next
    case False
    then have "2 ^ n1 \<le> V + 2 ^ n0" "V + 2 ^ n0 - 2 ^ n1 < 2 ^ n0" using V(1) by auto
    moreover have "(2::nat) ^ n0 \<le> 2 ^ n1" using n by (simp add: power_increasing)
    ultimately have "unat w mod 2 ^ n1 < 2 ^ n0"
      unfolding wV by (metis le_mod_geq mod_less less_le_trans)
    moreover have "ScanEntry ` set (ht_table ht ! j) \<subseteq> set es"
      if "V \<le> j" "j < 2 ^ n1" "j mod 2 ^ n0 = unat v mod 2 ^ n0" for j
      using congruent_gap [of V j n0] that Vm es(2) False by auto
    ultimately show ?thesis using unf wl by (auto simp: V_def [symmetric])
  qed
qed

text \<open>
  In reversed order a call at cursor \<open>v\<close> is responsible for the hashes from \<open>v\<close> up to the cursor
  it returns: they agree with \<open>v\<close> on the bits of the smaller mask.
\<close>

definition in_step :: "u64 \<Rightarrow> u64 \<Rightarrow> u64 \<Rightarrow> bool" where
  "in_step v v' h \<longleftrightarrow> R v \<le> R h \<and> (v' = 0 \<or> R h < R v')"

lemma R_inject: "R v = R w \<Longrightarrow> v = w"
  unfolding R_def by (metis revl_revl word_unat_eq_iff)

lemma R_next_cases:
  assumes "0 < n" "n \<le> 64"
  shows "dictScan_next (mask n) v = 0 \<and> (R v div 2 ^ (64 - n) + 1) * 2 ^ (64 - n) = 2 ^ 64 \<or>
         R (dictScan_next (mask n) v) = (R v div 2 ^ (64 - n) + 1) * 2 ^ (64 - n)"
proof -
  let ?s = "2 ^ (64 - n) :: nat" and ?q = "R v div 2 ^ (64 - n)"
  have p: "2 ^ 64 = 2 ^ n * ?s" using assms by (simp flip: power_add)
  then have "?q < 2 ^ n" using R_less [of v] by (intro less_mult_imp_div_less) simp
  then have "(?q + 1) * ?s \<le> 2 ^ 64" unfolding p by (intro mult_le_mono1) simp
  then consider "(?q + 1) * ?s = 2 ^ 64" | "(?q + 1) * ?s < 2 ^ 64" by linarith
  then show ?thesis
  proof cases
    case 1
    then have "R (dictScan_next (mask n) v) = R 0" using R_next [OF assms, of v] by simp
    then show ?thesis using 1 R_inject by blast
  next
    case 2
    then show ?thesis using R_next [OF assms, of v] by simp
  qed
qed

lemma R_progress: "0 < n \<Longrightarrow> n \<le> 64 \<Longrightarrow> dictScan_next (mask n) v = 0 \<or> R v < R (dictScan_next (mask n) v)"
  using R_next_cases [of n v] dividend_less_div_times [of "2 ^ (64 - n)" "R v"] by (auto simp: algebra_simps)

lemma in_step_class:
  assumes "in_step v (dictScan_next (mask n) v) h" "0 < n" "n \<le> 64"
  shows "unat h mod 2 ^ n = unat v mod 2 ^ n"
proof -
  let ?s = "2 ^ (64 - n) :: nat" and ?q = "R v div 2 ^ (64 - n)"
  have "R h < (?q + 1) * ?s"
    using R_next_cases [OF assms(2,3), of v] R_less [of h] assms(1) by (auto simp: in_step_def)
  then have "R h div ?s < ?q + 1" by (rule less_mult_imp_div_less)
  moreover have "?q \<le> R h div ?s" using assms(1) by (intro div_le_mono) (simp add: in_step_def)
  ultimately have "v AND mask n = h AND mask n" using R_low_bits [OF assms(3), of v h] by simp
  then show ?thesis by (metis unat_and_mask)
qed

lemma bit_R: "n < 64 \<Longrightarrow> bit v n \<longleftrightarrow> odd (R v div 2 ^ (63 - n))"
proof -
  assume "n < 64"
  then have "bit v n \<longleftrightarrow> bit (R v) (63 - n)" by (auto simp: R_def bit_unsigned_iff bit_revl)
  then show ?thesis by (simp add: bit_iff_odd)
qed

lemma in_step_pair:
  assumes "in_step v v' h" "unat h mod 2 ^ n = unat v mod 2 ^ n" "n < 64"
  shows "unat v mod 2 ^ Suc n \<le> unat h mod 2 ^ Suc n"
proof -
  have split: "unat w mod 2 ^ Suc n = 2 ^ n * of_bool (bit w n) + unat w mod 2 ^ n" for w :: u64
    unfolding take_bit_eq_mod [symmetric] take_bit_Suc_from_most using assms(3) by (simp add: bit_unsigned_iff)
  let ?s = "2 ^ (63 - n) :: nat"
  have le: "R v div ?s \<le> R h div ?s" using assms(1) by (intro div_le_mono) (simp add: in_step_def)
  have "v AND mask n = h AND mask n" using assms(2) by (metis word_unat_eq_iff unat_and_mask)
  then have "R v div 2 ^ (64 - n) = R h div 2 ^ (64 - n)" using assms(3) R_low_bits [of n v h] by simp
  moreover have "(2::nat) ^ (64 - n) = ?s * 2" using assms(3) by (simp flip: power_Suc2 add: Suc_diff_le [symmetric] Suc_diff_Suc)
  ultimately have "R v div ?s div 2 = R h div ?s div 2" by (simp add: div_mult2_eq)
  moreover have "odd a \<Longrightarrow> odd b" if "a div 2 = b div 2" "a \<le> b" for a b :: nat using that by presburger
  ultimately have "odd (R v div ?s) \<Longrightarrow> odd (R h div ?s)" using le by blast
  then have "bit v n \<Longrightarrow> bit h n" using assms(3) by (simp add: bit_R)
  then show ?thesis using split [of v] split [of h] assms(2) by auto
qed

text \<open>
  The two tables of a dictionary that is being rehashed, the smaller one first. A call is
  \<open>scan_safe\<close> when the dictionary is not rehashing, when the cursor has no bits between the two
  masks, or when the larger table is at most twice the smaller one.
\<close>

definition scan_tables :: "('k, 'v) dict \<Rightarrow> ('k, 'v) dictht \<times> ('k, 'v) dictht" where
  "scan_tables d = (if ht_size (ht0 d) > ht_size (ht1 d) then (ht1 d, ht0 d) else (ht0 d, ht1 d))"

definition scan_safe :: "('k, 'v) dict \<Rightarrow> u64 \<Rightarrow> bool" where
  "scan_safe d v \<longleftrightarrow> \<not> dictIsRehashing d \<or>
     (case scan_tables d of (t0, t1) \<Rightarrow>
        unat v mod ht_size t1 < ht_size t0 \<or> ht_size t1 \<le> 2 * ht_size t0)"

definition scan_entries :: "('k, 'v) scan_call list \<Rightarrow> ('k, 'v) dictEntry set" where
  "scan_entries es = {e. ScanEntry e \<in> set es}"

text \<open>What one call promises: progress in reversed order and every entry it is responsible for.\<close>

definition scan_post ::
  "('k, 'v) dictType \<Rightarrow> ('k, 'v) dict \<Rightarrow> u64 \<Rightarrow> u64 \<Rightarrow> ('k, 'v) scan_call list \<Rightarrow> bool" where
  "scan_post t d v v' es \<longleftrightarrow>
     (v' = 0 \<or> R v < R v') \<and>
     (\<forall>e \<in># dict_entries d. in_step v v' (hashFunction t (de_key e)) \<longrightarrow> e \<in> scan_entries es)"

lemma ht_shapeE:
  assumes "ht_shape t ht"
  obtains n where "0 < n" "n < 64" "ht_size ht = 2 ^ n" "length (ht_table ht) = 2 ^ n" "ht_sizemask ht = mask n"
proof -
  obtain n where "2 \<le> n" "n \<le> 63" "ht_size ht = 2 ^ n" "length (ht_table ht) = 2 ^ n" "ht_sizemask ht = mask n"
    using assms unfolding ht_shape_def by blast
  then show thesis using that [of n] by simp
qed

lemma ht_index_mod: "ht_sizemask ht = mask n \<Longrightarrow> ht_index ht h = unat h mod 2 ^ n"
  by (simp add: ht_index_def unat_and_mask)

lemma dictScan_plain:
  assumes tabs: "dict_tables t d" and size: "dictSize d \<noteq> 0" and nr: "\<not> dictIsRehashing d"
  shows "\<exists>v' es. dictScan d v bf = Some (v', es) \<and> scan_post t d v v' es"
proof -
  have h1: "ht1 d = dictReset" and i0: "ht_inv t (ht0 d)"
    using tabs nr by (auto simp: dict_tables_def dictIsRehashing_def)
  then have "ht0 d \<noteq> dictReset" using size by (auto simp: dictSize_def)
  then have shape: "ht_shape t (ht0 d)" using ht_inv_shape [OF i0] by blast
  then obtain n where n: "0 < n" "n < 64" "length (ht_table (ht0 d)) = 2 ^ n" "ht_sizemask (ht0 d) = mask n"
    by (elim ht_shapeE)
  let ?v = "dictScan_next (mask n) v"
  obtain es where es: "scan_emit bf 0 (ht0 d) v = Some es"
      "ScanEntry ` set (ht_table (ht0 d) ! (unat v mod 2 ^ n)) \<subseteq> set es"
    using scan_emit_Some [of "unat v mod 2 ^ n" "ht0 d" v bf 0] n by (auto simp: ht_index_mod)
  have "e \<in> scan_entries es" if "e \<in># dict_entries d" "in_step v ?v (hashFunction t (de_key e))" for e
  proof -
    have "e \<in> set (concat (ht_table (ht0 d)))" using that(1) by (simp add: dict_entries_def h1)
    then have "e \<in> set (ht_table (ht0 d) ! (unat (hashFunction t (de_key e)) mod 2 ^ n))"
      using ht_shape_member [OF shape] ht_index_mod [OF n(4)] by metis
    then show ?thesis using in_step_class [OF that(2)] n es(2) by (auto simp: scan_entries_def)
  qed
  then have "scan_post t d v ?v es" using R_progress [of n v] n by (simp add: scan_post_def)
  then show ?thesis using size nr es(1) n(4) by (auto simp: dictScan_def)
qed

lemma scan_tables_shape:
  assumes "dict_tables t d" "dictIsRehashing d" "scan_tables d = (t0, t1)"
  shows "ht_shape t t0" "ht_shape t t1" "ht_size t0 \<le> ht_size t1"
    and "e \<in># dict_entries d \<Longrightarrow> e \<in> set (concat (ht_table t0)) \<or> e \<in> set (concat (ht_table t1))"
  using assms ht_inv_shape
  by (auto simp: scan_tables_def dict_tables_def dictIsRehashing_def dict_entries_def split: if_splits)

lemma dictScan_rehash:
  assumes tabs: "dict_tables t d" and size: "dictSize d \<noteq> 0" and re: "dictIsRehashing d"
    and safe: "scan_safe d v"
  shows "\<exists>v' es. dictScan d v bf = Some (v', es) \<and> scan_post t d v v' es"
proof -
  obtain t0 t1 where t: "scan_tables d = (t0, t1)" by fastforce
  note sh = scan_tables_shape [OF tabs re t]
  obtain n0 where n0: "0 < n0" "n0 < 64" "ht_size t0 = 2 ^ n0" "length (ht_table t0) = 2 ^ n0" "ht_sizemask t0 = mask n0"
    using sh(1) by (elim ht_shapeE)
  obtain n1 where n1: "0 < n1" "n1 < 64" "ht_size t1 = 2 ^ n1" "length (ht_table t1) = 2 ^ n1" "ht_sizemask t1 = mask n1"
    using sh(2) by (elim ht_shapeE)
  have le: "n0 \<le> n1" using sh(3) n0(3) n1(3) by (simp add: power_le_imp_le_exp)
  obtain i0 i1 where i: "(if ht_size (ht0 d) > ht_size (ht1 d) then (1, 0) else (0, 1)) = (i0, i1 :: nat)"
      "get_ht d i0 = t0" "get_ht d i1 = t1"
    using t by (auto simp: scan_tables_def get_ht_def split: if_splits)
  obtain es where es: "scan_emit bf i0 t0 v = Some es" "ScanEntry ` set (ht_table t0 ! (unat v mod 2 ^ n0)) \<subseteq> set es"
    using scan_emit_Some [of "unat v mod 2 ^ n0" t0 v bf i0] n0 by (auto simp: ht_index_mod)
  obtain w es' where loop: "dictScan_loop bf i1 t1 (mask n0) (mask n1) v = Some (w, es')"
      "w AND mask n0 = v AND mask n0"
      "\<forall>j. unat v mod 2 ^ n1 \<le> j \<and> j < 2 ^ n1 \<and> j mod 2 ^ n0 = unat v mod 2 ^ n0 \<longrightarrow>
          ScanEntry ` set (ht_table t1 ! j) \<subseteq> set es'"
    using dictScan_loop_spec [OF n1(4,5) le n1(2), of bf i1 v] by blast
  have "x OR NOT (mask n0) = (x AND mask n0) OR NOT (mask n0)" for x :: u64
    by (rule bit_word_eqI) (auto simp: bit_simps)
  then have "w OR NOT (mask n0) = v OR NOT (mask n0)" using loop(2) by metis
  then have nxt: "dictScan_next (mask n0) w = dictScan_next (mask n0) v" by (simp add: dictScan_next_def)
  let ?v = "dictScan_next (mask n0) v"
  have "e \<in> scan_entries (es @ es')" if e: "e \<in># dict_entries d" and st: "in_step v ?v (hashFunction t (de_key e))" for e
  proof -
    let ?h = "hashFunction t (de_key e)"
    have cls: "unat ?h mod 2 ^ n0 = unat v mod 2 ^ n0" using in_step_class [OF st] n0 by simp
    have hi: "unat v mod 2 ^ n1 \<le> unat ?h mod 2 ^ n1"
    proof (cases "unat v mod 2 ^ n1 < 2 ^ n0")
      case True
      then have "unat v mod 2 ^ n1 = unat v mod 2 ^ n0" using le by (metis mod_less mod_mod_cancel le_imp_power_dvd)
      also have "\<dots> \<le> unat ?h mod 2 ^ n1" unfolding cls [symmetric]
        using le by (metis mod_mod_cancel le_imp_power_dvd mod_less_eq_dividend)
      finally show ?thesis .
    next
      case False
      then have "2 ^ n1 \<le> (2::nat) ^ Suc n0" using safe re n0(3) n1(3) t by (simp add: scan_safe_def)
      then have "n1 \<le> Suc n0" by (rule power_le_imp_le_exp [rotated]) simp
      moreover have "n1 \<noteq> n0" using False mod_less_divisor by (metis zero_less_numeral zero_less_power)
      ultimately have "n1 = Suc n0" using le by simp
      then show ?thesis using in_step_pair [OF st cls] n0(2) by simp
    qed
    from sh(4) [OF e] show ?thesis
    proof
      assume "e \<in> set (concat (ht_table t0))"
      then have "e \<in> set (ht_table t0 ! (unat ?h mod 2 ^ n0))"
        using ht_shape_member [OF sh(1)] ht_index_mod [OF n0(5)] by metis
      then show ?thesis using es(2) cls by (auto simp: scan_entries_def)
    next
      assume "e \<in> set (concat (ht_table t1))"
      then have "e \<in> set (ht_table t1 ! (unat ?h mod 2 ^ n1))"
        using ht_shape_member [OF sh(2)] ht_index_mod [OF n1(5)] by metis
      moreover have "unat ?h mod 2 ^ n1 mod 2 ^ n0 = unat v mod 2 ^ n0"
        using cls le by (simp add: mod_mod_cancel le_imp_power_dvd)
      ultimately show ?thesis using loop(3) hi by (fastforce simp: scan_entries_def)
    qed
  qed
  then have "scan_post t d v ?v (es @ es')" using R_progress [of n0 v] n0 by (simp add: scan_post_def)
  moreover have "dictScan d v bf = Some (?v, es @ es')"
    using size re i es(1) loop(1) n0(5) n1(5) nxt by (simp add: dictScan_def Let_def)
  ultimately show ?thesis by blast
qed

lemma dictScan_spec:
  assumes "dict_tables t d" "scan_safe d v"
  shows "\<exists>v' es. dictScan d v bf = Some (v', es) \<and> scan_post t d v v' es"
proof (cases "dictSize d = 0")
  case True
  then have "dict_entries d = {#}" using dictSize_entries [OF assms(1)] by simp
  then show ?thesis using True by (simp add: dictScan_def scan_post_def)
next
  case False
  then show ?thesis using dictScan_plain [OF assms(1)] dictScan_rehash [OF assms(1)] assms(2) by blast
qed

section \<open>A whole iteration\<close>

text \<open>
  An iteration is a sequence of calls, each on the state the dictionary has at that moment:
  between two calls it may be changed and resized in any way. The result is the last cursor
  and the concatenation of what the calls emitted.
\<close>

fun scan_run ::
  "('k, 'v) dict list \<Rightarrow> u64 \<Rightarrow> bool \<Rightarrow> (u64 \<times> ('k, 'v) scan_call list) option" where
  "scan_run [] v bf = Some (v, [])"
| "scan_run (d # ds) v bf =
     do {
       (v', es) \<leftarrow> dictScan d v bf;
       (v'', es') \<leftarrow> scan_run ds v' bf;
       Some (v'', es @ es')
     }"

text \<open>Every call of the run finds a well-formed dictionary and is safe at its cursor.\<close>

fun scan_run_safe :: "('k, 'v) dictType \<Rightarrow> ('k, 'v) dict list \<Rightarrow> u64 \<Rightarrow> bool" where
  "scan_run_safe t [] v \<longleftrightarrow> True"
| "scan_run_safe t (d # ds) v \<longleftrightarrow>
     dict_tables t d \<and> scan_safe d v \<and>
     (case dictScan d v False of Some (v', _) \<Rightarrow> scan_run_safe t ds v' | None \<Rightarrow> False)"

lemma scan_entries_append [simp]: "scan_entries (es @ es') = scan_entries es \<union> scan_entries es'"
  by (auto simp: scan_entries_def)

lemma scan_run_returns:
  "scan_run_safe t ds v \<Longrightarrow> \<exists>v' es. scan_run ds v False = Some (v', es)"
  by (induction ds arbitrary: v) (fastforce split: option.splits)+

lemma scan_run_covers:
  assumes "scan_run_safe t ds v" "scan_run ds v False = Some (0, es)" "ds \<noteq> []"
    and "\<forall>d \<in> set ds. \<exists>e \<in># dict_entries d. de_key e = k" "R v \<le> R (hashFunction t k)"
  shows "\<exists>e \<in> scan_entries es. de_key e = k"
  using assms
proof (induction ds arbitrary: v es)
  case Nil
  then show ?case by simp
next
  case (Cons d ds)
  obtain v1 es1 where step: "dictScan d v False = Some (v1, es1)" "scan_post t d v v1 es1"
    using dictScan_spec [of t d v False] Cons.prems(1) by auto
  obtain es2 where rest: "scan_run ds v1 False = Some (0, es2)" "es = es1 @ es2"
    using Cons.prems(2) step(1) by (auto simp: bind_eq_Some_conv split: prod.splits)
  obtain e where e: "e \<in># dict_entries d" "de_key e = k" using Cons.prems(4) by auto
  show ?case
  proof (cases "in_step v v1 (hashFunction t k)")
    case True
    then have "e \<in> scan_entries es1" using step(2) e by (auto simp: scan_post_def)
    then show ?thesis using e(2) rest(2) by auto
  next
    case False
    then have v1: "v1 \<noteq> 0" "R v1 \<le> R (hashFunction t k)" using Cons.prems(5) by (auto simp: in_step_def)
    then have "ds \<noteq> []" using rest(1) by auto
    moreover have "scan_run_safe t ds v1" using Cons.prems(1) step(1) by simp
    ultimately have "\<exists>e \<in> scan_entries es2. de_key e = k"
      using Cons.IH [OF _ rest(1)] Cons.prems(4) v1(2) by simp
    then show ?thesis using rest(2) by auto
  qed
qed

section \<open>Growing tables\<close>

text \<open>The cursor a call returns has no bits above the smaller mask.\<close>

definition scan_size :: "('k, 'v) dict \<Rightarrow> nat" where
  "scan_size d = (if dictIsRehashing d then min (ht_size (ht0 d)) (ht_size (ht1 d)) else ht_size (ht0 d))"

lemma dictScan_next_small:
  assumes "n \<le> 64"
  shows "unat (dictScan_next (mask n) v) < 2 ^ n"
proof -
  let ?w = "dictScan_next (mask n) v"
  have "\<not> bit ?w i" if "n \<le> i" for i
  proof (cases "i < 64")
    case True
    let ?x = "revl v OR mask (64 - n)"
    have "(?x + 1) AND mask (64 - n) = 0"
      unfolding or_mask_incr by (rule bit_word_eqI) (auto simp: bit_simps)
    then have "\<not> bit ((?x + 1) AND mask (64 - n)) (63 - i)" by simp
    moreover have "63 - i < 64 - n" "63 - i < 64" using that True by linarith+
    ultimately have "\<not> bit (?x + 1) (63 - i)" by (simp add: bit_and_iff bit_mask_iff)
    then show ?thesis by (simp add: dictScan_next_def revl_or bit_revl)
  qed (auto dest: bit_imp_le_length)
  then have "?w = ?w AND mask n" by (intro bit_word_eqI) (auto simp: bit_simps intro: ccontr)
  then have "unat ?w = unat ?w mod 2 ^ n" by (metis unat_and_mask)
  then show ?thesis by (metis mod_less_divisor zero_less_numeral zero_less_power)
qed

lemma dictScan_cursor:
  assumes tabs: "dict_tables t d" and size: "dictSize d \<noteq> 0" and call: "dictScan d v bf = Some (v', es)"
  shows "unat v' < scan_size d"
proof (cases "dictIsRehashing d")
  case False
  have "ht0 d \<noteq> dictReset" "ht_inv t (ht0 d)"
    using tabs size False by (auto simp: dict_tables_def dictSize_def dictIsRehashing_def)
  then obtain n where "n < 64" "ht_size (ht0 d) = 2 ^ n" "ht_sizemask (ht0 d) = mask n"
    using ht_inv_shape ht_shapeE by metis
  moreover have "v' = dictScan_next (ht_sizemask (ht0 d)) v"
    using call size False by (auto simp: dictScan_def bind_eq_Some_conv)
  ultimately show ?thesis using False dictScan_next_small [of n v] by (simp add: scan_size_def)
next
  case True
  obtain t0 t1 where t: "scan_tables d = (t0, t1)" by fastforce
  obtain n where n: "n < 64" "ht_size t0 = 2 ^ n" "ht_sizemask t0 = mask n"
    using scan_tables_shape(1) [OF tabs True t] by (elim ht_shapeE)
  have "\<exists>w. v' = dictScan_next (ht_sizemask t0) w"
    using call size True t
    by (auto simp: dictScan_def bind_eq_Some_conv get_ht_def scan_tables_def Let_def split: if_splits)
  moreover have "scan_size d = ht_size t0" using True t by (auto simp: scan_size_def scan_tables_def split: if_splits)
  ultimately show ?thesis using dictScan_next_small [of n] n by auto
qed

lemma scan_safe_small: "unat v < scan_size d \<Longrightarrow> scan_safe d v"
proof -
  assume v: "unat v < scan_size d"
  obtain t0 t1 where t: "scan_tables d = (t0, t1)" by fastforce
  have "unat v mod ht_size t1 < ht_size t0" if "dictIsRehashing d"
    using v t that le_less_trans [OF mod_less_eq_dividend [of "unat v" "ht_size t1"], of "ht_size t0"]
    by (auto simp: scan_size_def scan_tables_def split: if_splits)
  then show ?thesis using t by (auto simp: scan_safe_def)
qed

lemma growing_run_safe:
  assumes "\<forall>d \<in> set ds. dict_tables t d \<and> dictSize d \<noteq> 0" "sorted (map scan_size ds)"
    and "\<forall>d \<in> set ds. unat v < scan_size d"
  shows "scan_run_safe t ds v"
  using assms
proof (induction ds arbitrary: v)
  case Nil
  then show ?case by simp
next
  case (Cons d ds)
  have safe: "scan_safe d v" using Cons.prems(3) by (intro scan_safe_small) simp
  obtain v1 es1 where step: "dictScan d v False = Some (v1, es1)"
    using dictScan_spec [of t d v False] Cons.prems(1) safe by auto
  have "unat v1 < scan_size d" using Cons.prems(1) by (intro dictScan_cursor [OF _ _ step, of t]) simp_all
  then have "\<forall>d \<in> set ds. unat v1 < scan_size d" using Cons.prems(2) by fastforce
  then show ?case using Cons step safe by simp
qed

lemma scan_size_pos:
  assumes "dict_tables t d" "dictSize d \<noteq> 0"
  shows "0 < scan_size d"
proof (cases "dictIsRehashing d")
  case True
  obtain t0 t1 where t: "scan_tables d = (t0, t1)" by fastforce
  have "0 < ht_size t0" using scan_tables_shape(1) [OF assms(1) True t] ht_shape_size [of t t0] by auto
  then show ?thesis using True t by (auto simp: scan_size_def scan_tables_def split: if_splits)
next
  case False
  have "ht0 d \<noteq> dictReset" "ht_inv t (ht0 d)"
    using assms False by (auto simp: dict_tables_def dictSize_def dictIsRehashing_def)
  then have "0 < ht_size (ht0 d)" using ht_inv_shape ht_shape_size by fastforce
  then show ?thesis using False by (simp add: scan_size_def)
qed

lemma entry_size: "dict_tables t d \<Longrightarrow> e \<in># dict_entries d \<Longrightarrow> dictSize d \<noteq> 0"
  using dictSize_entries [of t d] by (auto simp: size_eq_0_iff_empty)

lemma scan_run_Cons:
  "dictScan d v bf = Some (v1, es1) \<Longrightarrow> scan_run ds v1 bf = Some (v2, es2) \<Longrightarrow>
   scan_run (d # ds) v bf = Some (v2, es1 @ es2)"
  by simp

lemma scan_ends:
  assumes "dict_tables t d" "dictSize d \<noteq> 0" "unat v < scan_size d"
  shows "\<exists>n es. scan_run (replicate (Suc n) d) v False = Some (0, es)"
  using assms(3)
proof (induction "2 ^ 64 - R v" arbitrary: v rule: less_induct)
  case less
  obtain v1 es1 where step: "dictScan d v False = Some (v1, es1)" "scan_post t d v v1 es1"
    using dictScan_spec [OF assms(1) scan_safe_small [OF less.prems], of False] by blast
  show ?case
  proof (cases "v1 = 0")
    case True
    then show ?thesis using step(1) by (intro exI [of _ 0]) simp
  next
    case False
    then have "2 ^ 64 - R v1 < 2 ^ 64 - R v"
      using step(2) R_less [of v1] by (intro diff_less_mono2) (auto simp: scan_post_def)
    from less.hyps [OF this dictScan_cursor [OF assms(1,2) step(1)]]
    obtain n es where "scan_run (replicate (Suc n) d) v1 False = Some (0, es)" by blast
    then have "scan_run (replicate (Suc (Suc n)) d) v False = Some (0, es1 @ es)"
      unfolding replicate.simps(2) [of "Suc n"] by (rule scan_run_Cons [OF step(1)])
    then show ?thesis by blast
  qed
qed

section \<open>Small examples\<close>

text \<open>
  A dictionary with identity hashing. \<open>scan_ex1\<close> has 16 buckets and the key 4; \<open>dictResize\<close>
  starts to shrink it to 4 buckets (\<open>scan_ex2\<close>). \<open>scan_ex4\<close> has 4 buckets and the same key.
\<close>

lemma revl_power: "k < 64 \<Longrightarrow> revl (2 ^ k) = 2 ^ (63 - k)"
  by (rule bit_word_eqI) (auto simp: bit_revl bit_exp_iff)

lemma R_small: "R 1 = 2 ^ 63" "R 2 = 2 ^ 62" "R 8 = 2 ^ 60" "R 3 = 2 ^ 63 + 2 ^ 62"
proof -
  have r: "revl 1 = 2 ^ 63" "revl 2 = 2 ^ 62" "revl 8 = 2 ^ 60"
    using revl_power [of 0] revl_power [of 1] revl_power [of 3] by simp_all
  then show "R 1 = 2 ^ 63" "R 2 = 2 ^ 62" "R 8 = 2 ^ 60" by (simp_all add: R_def)
  have "revl (a OR b) = revl a OR revl b" for a b by (rule bit_word_eqI) (auto simp: bit_revl bit_or_iff)
  from this [of 1 2] show "R 3 = 2 ^ 63 + 2 ^ 62" by (simp add: R_def r)
qed

lemma next_by_R:
  assumes "0 < n" "n \<le> 64" "v AND mask n = w AND mask n"
    and "(R w div 2 ^ (64 - n) + 1) * 2 ^ (64 - n) mod 2 ^ 64 = R u"
  shows "dictScan_next (mask n) v = u"
  using R_next [OF assms(1,2), of v] R_low_bits [OF assms(2), of v w] assms(3,4) by (intro R_inject) simp

lemma next_cursors:
  "dictScan_next 3 0 = 2" "dictScan_next 3 2 = 1" "dictScan_next 3 1 = 3" "dictScan_next 3 3 = 0"
  "dictScan_next 15 0 = 8" "dictScan_next 3 16 = 2" "dictScan_next 3 18 = 1" "dictScan_next 3 17 = 3" "dictScan_next 3 19 = 0"
proof -
  show "dictScan_next 3 0 = 2" using next_by_R [of 2 0 0 2] by (simp add: R_small mask_numeral)
  show "dictScan_next 3 2 = 1" using next_by_R [of 2 2 2 1] by (simp add: R_small mask_numeral)
  show "dictScan_next 3 1 = 3" using next_by_R [of 2 1 1 3] by (simp add: R_small mask_numeral)
  show "dictScan_next 3 3 = 0" using next_by_R [of 2 3 3 0] by (simp add: R_small mask_numeral)
  show "dictScan_next 15 0 = 8" using next_by_R [of 4 0 0 8] by (simp add: R_small mask_numeral)
  show "dictScan_next 3 16 = 2" using next_by_R [of 2 16 0 2] by (simp add: R_small mask_numeral)
  show "dictScan_next 3 18 = 1" using next_by_R [of 2 18 2 1] by (simp add: R_small mask_numeral)
  show "dictScan_next 3 17 = 3" using next_by_R [of 2 17 1 3] by (simp add: R_small mask_numeral)
  show "dictScan_next 3 19 = 0" using next_by_R [of 2 19 3 0] by (simp add: R_small mask_numeral)
qed

definition scan_ex_type :: "(u64, unit) dictType" where
  "scan_ex_type = \<lparr>hashFunction = (\<lambda>k. k), keyDup = None, valDup = None, keyCompare = None,
     keyDestructor = False, valDestructor = False\<rparr>"

definition scan_ex_big :: "(u64, unit) dictht" where
  "scan_ex_big = \<lparr>ht_table = (replicate 16 [])[4 := [\<lparr>de_key = 4, de_val = ()\<rparr>]],
     ht_size = 16, ht_sizemask = 15, ht_used = 1\<rparr>"

definition scan_ex_small :: "(u64, unit) dictht" where
  "scan_ex_small = \<lparr>ht_table = replicate 4 [], ht_size = 4, ht_sizemask = 3, ht_used = 0\<rparr>"

definition scan_ex1 :: "(u64, unit) dict" where
  "scan_ex1 = \<lparr>ht0 = scan_ex_big, ht1 = dictReset, rehashidx = -1, iterators = 0\<rparr>"

definition scan_ex2 :: "(u64, unit) dict" where
  "scan_ex2 = \<lparr>ht0 = scan_ex_big, ht1 = scan_ex_small, rehashidx = 0, iterators = 0\<rparr>"

lemmas scan_ex_defs = scan_ex_big_def scan_ex_small_def scan_ex1_def scan_ex2_def

lemma power4: "dictNextPower 4 = 4" "dictNextPower 16 = 16"
  unfolding dictNextPower_def by (simp_all add: while_unfold)

lemma scan_ex1_built: "dictAdd True () scan_ex_type (fst (the (dictExpand dictCreate 16))) 4 () = Some (scan_ex1, DICT_OK)"
proof -
  have "fst (the (dictExpand dictCreate 16)) = scan_ex1\<lparr>ht0 := scan_ex_big\<lparr>ht_table := replicate 16 [], ht_used := 0\<rparr>\<rparr>"
    by (simp add: dictExpand_def power4 dictCreate_def dictIsRehashing_def Let_def scan_ex_defs)
  then show ?thesis
    by (simp add: dictAdd_def dictAddRaw_def rehashStepIf_def dictIsRehashing_def dictKeyIndex_def dictExpandIfNeeded_def
      table_search_def ht_index_def bucket_def scan_ex_defs scan_ex_type_def get_ht_def set_ht_def set_bucket_def
      dictSetVal_def dictDupKey_def dictDupVal_def Let_def)
qed

lemma scan_ex2_built: "dictResize True scan_ex1 = Some (scan_ex2, DICT_OK)"
  by (simp add: dictResize_def dictExpand_def power4 dictIsRehashing_def Let_def scan_ex_defs)

definition scan_ex4 :: "(u64, unit) dict" where
  "scan_ex4 = \<lparr>ht0 = scan_ex_small\<lparr>ht_table := [[\<lparr>de_key = 4, de_val = ()\<rparr>], [], [], []], ht_used := 1\<rparr>,
     ht1 = dictReset, rehashidx = -1, iterators = 0\<rparr>"

lemma scan_ex4_call:
  "dictScan scan_ex4 v False = Some (dictScan_next 3 v,
     if unat v mod 4 = 0 then [ScanEntry \<lparr>de_key = 4, de_val = ()\<rparr>] else [])"
proof -
  have "ht_index (ht0 scan_ex4) v = unat v mod 4"
    using ht_index_mod [of "ht0 scan_ex4" 2 v] by (simp add: scan_ex4_def scan_ex_small_def mask_numeral)
  moreover have "unat v mod 4 = 0 \<or> unat v mod 4 = 1 \<or> unat v mod 4 = 2 \<or> unat v mod 4 = 3" by presburger
  moreover have "ht_sizemask (ht0 scan_ex4) = 3" "dictSize scan_ex4 \<noteq> 0" "\<not> dictIsRehashing scan_ex4"
      "ht_table (ht0 scan_ex4) = [[\<lparr>de_key = 4, de_val = ()\<rparr>], [], [], []]"
    by (simp_all add: scan_ex4_def scan_ex_small_def dictSize_def dictIsRehashing_def)
  ultimately show ?thesis by (auto simp: dictScan_def scan_emit_def bucket_def)
qed

lemma scan_ex4_tables: "dict_tables scan_ex_type scan_ex4"
proof -
  have "(3::u64) = mask 2" by (simp add: mask_numeral)
  then have "ht_shape scan_ex_type (ht0 scan_ex4)"
    unfolding ht_shape_def
    by (auto intro!: exI [of _ 2] simp: scan_ex4_def scan_ex_small_def ht_index_def scan_ex_type_def
        less_Suc_eq nth_Cons split: nat.splits)
  then show ?thesis by (simp add: dict_tables_def ht_inv_def scan_ex4_def scan_ex_small_def)
qed

lemma scan_ex4_run:
  "scan_run [scan_ex4, scan_ex4, scan_ex4, scan_ex4] 0 False =
     Some (0, [ScanEntry \<lparr>de_key = 4, de_val = ()\<rparr>])"
  by (simp add: scan_ex4_call next_cursors)

section \<open>Shrinking from 16 to 4 buckets\<close>

text \<open>The calls on a dictionary that is being rehashed from 16 to 4 buckets, bucket by bucket.\<close>

lemma shrink_loop:
  assumes "ht_sizemask ht = 15" "length (ht_table ht) = 16"
  shows "dictScan_loop False tb ht 3 15 v =
     (let w = v + 4; es = map ScanEntry (ht_table ht ! (unat v mod 16)) in
      if unat w mod 16 < 4 then Some (w, es)
      else Option.bind (dictScan_loop False tb ht 3 15 w) (\<lambda>(v, es'). Some (v, es @ es')))"
proof -
  have "ht_index ht v = unat v mod 16" using ht_index_mod [of ht 4 v] assms(1) by (simp add: mask_numeral)
  then have e: "scan_emit False tb ht v = Some (map ScanEntry (ht_table ht ! (unat v mod 16)))"
    using assms(2) by (simp add: scan_emit_def bucket_def)
  have m: "(w AND (3 XOR 15) = 0) = (unat w mod 16 < 4)" for w :: u64
    using mask_diff_zero [of 2 4 w] by (simp add: mask_numeral)
  have n: "(((v OR 3) + 1) AND NOT 3) OR (v AND 3) = v + 4"
    using scan_incr [of 2 v] by (simp add: mask_numeral)
  show ?thesis
    by (subst dictScan_loop.simps) (simp only: e n m Let_def, simp add: case_prod_unfold)
qed

lemma shrink_loops:
  assumes "ht_sizemask ht = 15" "length (ht_table ht) = 16"
  defines "es is \<equiv> map ScanEntry (concat (map ((!) (ht_table ht)) is))"
  shows "dictScan_loop False tb ht 3 15 8 = Some (16, es [8, 12])"
    "dictScan_loop False tb ht 3 15 2 = Some (18, es [2, 6, 10, 14])"
    "dictScan_loop False tb ht 3 15 1 = Some (17, es [1, 5, 9, 13])"
    "dictScan_loop False tb ht 3 15 3 = Some (19, es [3, 7, 11, 15])"
  unfolding es_def by (subst shrink_loop [OF assms(1,2)], simp)+

lemma shrink_call:
  assumes "dictIsRehashing d" "ht_size (ht0 d) = 16" "ht_size (ht1 d) = 4" "dictSize d \<noteq> 0"
    "ht_sizemask (ht0 d) = 15" "ht_sizemask (ht1 d) = 3" "length (ht_table (ht1 d)) = 4"
    "dictScan_loop False 0 (ht0 d) 3 15 v = Some (w, es)"
  shows "dictScan d v False = Some (dictScan_next 3 w, map ScanEntry (ht_table (ht1 d) ! (unat v mod 4)) @ es)"
proof -
  have "ht_index (ht1 d) v = unat v mod 4" using ht_index_mod [of "ht1 d" 2 v] assms(6) by (simp add: mask_numeral)
  then have "scan_emit False 1 (ht1 d) v = Some (map ScanEntry (ht_table (ht1 d) ! (unat v mod 4)))"
    using assms(7) by (simp add: scan_emit_def bucket_def)
  then show ?thesis using assms by (simp add: dictScan_def get_ht_def)
qed

lemma table_masks:
  assumes "ht_inv t ht" "ht_size ht = 2 ^ n" "0 < n" "n < 64"
  shows "ht_sizemask ht = mask n" "length (ht_table ht) = 2 ^ n"
proof -
  have "ht_shape t ht" using assms(1,2) by (auto simp: ht_inv_def)
  then show "ht_sizemask ht = mask n" "length (ht_table ht) = 2 ^ n" using assms(2) by (auto simp: ht_shape_def)
qed

lemma bucket_index:
  assumes "ht_inv t ht" "e \<in> set (ht_table ht ! i)" "i < length (ht_table ht)"
  shows "ht_index ht (hashFunction t (de_key e)) = i"
  using assms by (auto simp: ht_inv_def ht_shape_def)

lemma uniq_tables:
  assumes "dict_ok t d" "e \<in> set (concat (ht_table (ht0 d)))" "x \<in> set (concat (ht_table (ht1 d)))"
  shows "de_key x \<noteq> de_key e"
proof
  assume eq: "de_key x = de_key e"
  let ?P = "\<lambda>y. dictKeyEq t (de_key e) (de_key y)"
  have "?P e" "?P x" by (simp_all add: dictKeyEq_def eq)
  then have "e \<in># filter_mset ?P (mset (concat (ht_table (ht0 d))))" "x \<in># filter_mset ?P (mset (concat (ht_table (ht1 d))))"
    using assms(2,3) by simp_all
  then have "filter_mset ?P (mset (concat (ht_table (ht0 d)))) \<noteq> {#}" "filter_mset ?P (mset (concat (ht_table (ht1 d)))) \<noteq> {#}"
    by (metis empty_iff set_mset_empty)+
  then have "0 < size (filter_mset ?P (mset (concat (ht_table (ht0 d)))))" "0 < size (filter_mset ?P (mset (concat (ht_table (ht1 d)))))"
    unfolding nonempty_has_size .
  then have "2 \<le> size (filter_mset ?P (dict_entries d))" unfolding dict_entries_def filter_union_mset size_union by linarith
  moreover have "size (filter_mset ?P (dict_entries d)) \<le> 1" using assms(1) unfolding dict_ok_def keys_uniq_def by blast
  ultimately show False by linarith
qed

section \<open>Properties\<close>

text \<open>C33. \<open>rev\<close> reverses the 64 bits of its argument.\<close>

theorem rev_reverses: "bit (revl v) i \<longleftrightarrow> i < 64 \<and> bit v (63 - i)"
  by (rule bit_revl)

text \<open>
  C4. A complete iteration (cursor 0 back to 0) emits every key that is in the dictionary at
  every call, whatever resizing and rehashing happens between the calls, if every call is safe.
\<close>

theorem scan_complete:
  assumes "scan_run_safe t ds 0" "ds \<noteq> []" "scan_run ds 0 False = Some (0, es)"
    and "\<forall>d \<in> set ds. \<exists>e \<in># dict_entries d. de_key e = k"
  shows "\<exists>e \<in> scan_entries es. de_key e = k"
  using scan_run_covers [OF assms(1,3,2,4)] by simp

theorem scan_complete_witness:
  "\<exists>e \<in> scan_entries [ScanEntry \<lparr>de_key = 4 :: u64, de_val = ()\<rparr>]. de_key e = 4"
proof (rule scan_complete [OF _ _ scan_ex4_run])
  show "scan_run_safe scan_ex_type [scan_ex4, scan_ex4, scan_ex4, scan_ex4] 0"
    by (simp add: scan_ex4_tables scan_ex4_call next_cursors scan_safe_def)
       (simp add: scan_ex4_def dictIsRehashing_def)
qed (simp_all add: scan_ex4_def scan_ex_small_def dict_entries_def)

text \<open>
  C17. While the smaller table of the dictionary never shrinks during the iteration, every call
  returns, and an iteration that ends with cursor 0 has emitted every key present throughout.
\<close>

theorem scan_complete_growing:
  assumes "\<forall>d \<in> set ds. dict_tables t d \<and> (\<exists>e \<in># dict_entries d. de_key e = k)"
    and "sorted (map scan_size ds)" "ds \<noteq> []"
  shows "\<exists>v es. scan_run ds 0 False = Some (v, es) \<and> (v = 0 \<longrightarrow> (\<exists>e \<in> scan_entries es. de_key e = k))"
proof -
  have ok: "\<forall>d \<in> set ds. dict_tables t d \<and> dictSize d \<noteq> 0" using assms(1) entry_size by blast
  then have "scan_run_safe t ds 0"
    using scan_size_pos by (intro growing_run_safe [OF ok assms(2)]) fastforce
  then show ?thesis using scan_run_returns scan_run_covers [of t ds 0 _ k] assms by fastforce
qed

theorem scan_complete_growing_witness:
  "\<exists>v es. scan_run [scan_ex4, scan_ex4] 0 False = Some (v, es) \<and> (v = 0 \<longrightarrow> (\<exists>e \<in> scan_entries es. de_key e = 4))"
  by (rule scan_complete_growing [of _ scan_ex_type])
     (simp_all add: scan_ex4_tables, simp add: scan_ex4_def scan_ex_small_def dict_entries_def)

text \<open>C32. On a dictionary that is not changed the iteration ends: the cursor comes back to 0.\<close>

theorem scan_terminates:
  assumes "dict_tables t d"
  shows "\<exists>n es. scan_run (replicate (Suc n) d) 0 False = Some (0, es)"
proof (cases "dictSize d = 0")
  case True
  then show ?thesis by (intro exI [of _ 0]) (simp add: dictScan_def)
next
  case False
  then show ?thesis using scan_ends [OF assms False] scan_size_pos [OF assms False] by simp
qed

theorem scan_terminates_witness: "\<exists>n es. scan_run (replicate (Suc n) scan_ex4) 0 False = Some (0, es)"
  by (rule scan_terminates [OF scan_ex4_tables])

text \<open>
  C36. An iteration can miss keys while the dictionary shrinks. Whatever the key type and the other
  entries are: if a dictionary of 16 buckets is scanned once, then begins to shrink to 4 buckets, and
  the remaining calls run to cursor 0, no call emits a key that waits in bucket 4 of the old table,
  although the key is present at every call.
\<close>

theorem scan_shrink_misses:
  assumes "dict_ok t d1" "\<not> dictIsRehashing d1" "ht_size (ht0 d1) = 16" "\<exists>e \<in># dict_entries d1. de_key e = k"
    and "dict_ok t d2" "dictIsRehashing d2" "ht_size (ht0 d2) = 16" "ht_size (ht1 d2) = 4"
    and "\<exists>e \<in> set (ht_table (ht0 d2) ! 4). de_key e = k"
  shows "\<exists>es. scan_run [d1, d2, d2, d2, d2] 0 False = Some (0, es) \<and> (\<forall>e \<in> scan_entries es. de_key e \<noteq> k)"
proof -
  let ?A = "ht_table (ht0 d1)" and ?B = "ht_table (ht0 d2)" and ?C = "ht_table (ht1 d2)"
  obtain e where e: "e \<in> set (?B ! 4)" "de_key e = k" using assms(9) by blast
  have inv: "ht_inv t (ht0 d1)" "ht_inv t (ht0 d2)" "ht_inv t (ht1 d2)" "dict_tables t d1" "dict_tables t d2"
    using assms(1,5) by (simp_all add: dict_ok_def dict_tables_def)
  have A: "ht_sizemask (ht0 d1) = 15" "length ?A = 16"
    using table_masks [OF inv(1), of 4] assms(3) by (simp_all add: mask_numeral)
  have B: "ht_sizemask (ht0 d2) = 15" "length ?B = 16"
    using table_masks [OF inv(2), of 4] assms(7) by (simp_all add: mask_numeral)
  have C: "ht_sizemask (ht1 d2) = 3" "length ?C = 4"
    using table_masks [OF inv(3), of 2] assms(8) by (simp_all add: mask_numeral)
  have eB: "e \<in> set (concat ?B)" using e(1) B(2) by (auto intro!: bexI [of _ "?B ! 4"])
  have ne: "dictSize d1 \<noteq> 0" "dictSize d2 \<noteq> 0"
    using entry_size [OF inv(4)] entry_size [OF inv(5), of e] assms(4) eB by (auto simp: dict_entries_def)
  have "ht_index (ht0 d1) 0 = 0" by (simp add: ht_index_def)
  then have 1: "dictScan d1 0 False = Some (8, map ScanEntry (?A ! 0))"
    using assms(2) ne(1) A by (simp add: dictScan_def scan_emit_def bucket_def next_cursors)
  note call = shrink_call [OF assms(6-8) ne(2) B(1) C]
  let ?s = "\<lambda>c is. map ScanEntry (?C ! c) @ map ScanEntry (concat (map ((!) ?B) is))"
  have 2: "dictScan d2 8 False = Some (2, ?s 0 [8, 12])" "dictScan d2 2 False = Some (1, ?s 2 [2, 6, 10, 14])"
    "dictScan d2 1 False = Some (3, ?s 1 [1, 5, 9, 13])" "dictScan d2 3 False = Some (0, ?s 3 [3, 7, 11, 15])"
    by (subst call [OF shrink_loops(1) [OF B]], simp add: next_cursors)
       (subst call [OF shrink_loops(2) [OF B]], simp add: next_cursors,
        subst call [OF shrink_loops(3) [OF B]], simp add: next_cursors,
        subst call [OF shrink_loops(4) [OF B]], simp add: next_cursors)
  let ?es = "map ScanEntry (?A ! 0) @ ?s 0 [8, 12] @ ?s 2 [2, 6, 10, 14] @ ?s 1 [1, 5, 9, 13] @ ?s 3 [3, 7, 11, 15] @ []"
  let ?L = "?A ! 0 @ concat (map ((!) ?C) [0, 2, 1, 3]) @ concat (map ((!) ?B) [8, 12, 2, 6, 10, 14, 1, 5, 9, 13, 3, 7, 11, 15])"
  have es: "scan_run [d1, d2, d2, d2, d2] 0 False = Some (0, ?es)" by (simp only: scan_run.simps 1 2 bind.bind_lunit prod.case)
  have L: "scan_entries ?es = set ?L" unfolding scan_entries_def by auto
  have "de_key x \<noteq> k" if "x \<in> set ?L" for x
  proof -
    have k4: "ht_index (ht0 d2) (hashFunction t k) = 4" using bucket_index [OF inv(2) e(1)] B(2) e(2) by simp
    then have a4: "ht_index (ht0 d1) (hashFunction t k) = 4" using A(1) B(1) by (simp add: ht_index_def)
    have "x \<in> set (?A ! 0) \<or> (\<exists>i \<in> set [0, 2, 1, 3]. x \<in> set (?C ! i)) \<or>
        (\<exists>i \<in> set [8, 12, 2, 6, 10, 14, 1, 5, 9, 13, 3, 7, 11, 15]. x \<in> set (?B ! i))"
      using that unfolding set_append set_concat set_map by blast
    then show ?thesis
    proof (elim disjE bexE)
      assume "x \<in> set (?A ! 0)"
      then show ?thesis using bucket_index [OF inv(1), of x 0] a4 A(2) by auto
    next
      fix i assume i: "i \<in> set [0, 2, 1, 3]" "x \<in> set (?C ! i)"
      have "i < length ?C" using i(1) C(2) by auto
      then have "x \<in> set (concat ?C)" using i(2) nth_mem by auto
      then show ?thesis using uniq_tables [OF assms(5) eB] e(2) by simp
    next
      fix i assume i: "i \<in> set [8, 12, 2, 6, 10, 14, 1, 5, 9, 13, 3, 7, 11, 15]" "x \<in> set (?B ! i)"
      have "i < length ?B" "i \<noteq> 4" using i(1) B(2) by auto
      then show ?thesis using bucket_index [OF inv(2) i(2)] k4 by auto
    qed
  qed
  then show ?thesis using es unfolding L [symmetric] by blast
qed

lemma scan_ex_ok: "dict_ok scan_ex_type scan_ex1" "dict_ok scan_ex_type scan_ex2"
proof -
  have m: "(15::u64) = mask 4" "(3::u64) = mask 2" by (simp_all add: mask_numeral)
  have big: "ht_inv scan_ex_type scan_ex_big"
    unfolding ht_inv_def ht_shape_def
    by (auto intro!: disjI2 exI [of _ 4] simp: scan_ex_big_def m nth_list_update ht_index_def scan_ex_type_def split: if_splits)
       (simp add: mask_numeral, simp add: numeral_eq_Suc)
  have small: "ht_inv scan_ex_type scan_ex_small"
    unfolding ht_inv_def ht_shape_def by (auto intro!: disjI2 exI [of _ 2] simp: scan_ex_small_def m)
  have nr: "scan_ex_big \<noteq> dictReset" "scan_ex_small \<noteq> dictReset" "ht_size scan_ex_big = 16"
    by (auto simp: scan_ex_defs dictReset_def)
  have c: "concat (ht_table scan_ex_big) = [\<lparr>de_key = 4, de_val = ()\<rparr>]" "concat (ht_table scan_ex_small) = []"
    by (simp add: scan_ex_big_def, simp add: numeral_eq_Suc) (simp add: scan_ex_small_def)
  show "dict_ok scan_ex_type scan_ex1" "dict_ok scan_ex_type scan_ex2"
    using big small nr
    by (simp_all add: dict_ok_def dict_tables_def scan_ex1_def scan_ex2_def keys_uniq_def dict_entries_def c)
qed

theorem scan_shrink_misses_witness:
  "dictAdd True () scan_ex_type (fst (the (dictExpand dictCreate 16))) 4 () = Some (scan_ex1, DICT_OK) \<and>
   dictResize True scan_ex1 = Some (scan_ex2, DICT_OK) \<and>
   (\<exists>es. scan_run [scan_ex1, scan_ex2, scan_ex2, scan_ex2, scan_ex2] 0 False = Some (0, es) \<and> 4 \<notin> de_key ` scan_entries es)"
proof -
  have "\<exists>es. scan_run [scan_ex1, scan_ex2, scan_ex2, scan_ex2, scan_ex2] 0 False = Some (0, es) \<and> (\<forall>e \<in> scan_entries es. de_key e \<noteq> 4)"
    by (rule scan_shrink_misses [OF scan_ex_ok(1) _ _ _ scan_ex_ok(2)]) (simp_all add: scan_ex_defs dictIsRehashing_def dict_entries_def,
        use set_update_memI [of 4 "replicate 16 []" "[\<lparr>de_key = 4 :: u64, de_val = ()\<rparr>]"] in force)
  then show ?thesis using scan_ex1_built scan_ex2_built by auto
qed

end
