(* ===== verification/Util.thy ===== *)
theory Util
  imports Redis_Prelude
begin

text \<open>
  Number and string utilities (\<open>util.c\<close>) and byte-order conversion (\<open>endianconv.c\<close>):
  decimal conversion in both directions.
  Characters are bytes. \<open>unsigned long long\<close> values are naturals below \<open>2 ^ 64\<close> and the
  overflow tests of the code are written out; the destination buffer of \<open>ll2string\<close> is a block
  of memory, and writing outside it is \<open>None\<close>.
\<close>

abbreviation ch_minus :: byte where "ch_minus \<equiv> 0x2D"
abbreviation ch_0 :: byte where "ch_0 \<equiv> 0x30"

definition isdigit :: "byte \<Rightarrow> bool" where
  "isdigit c \<longleftrightarrow> 0x30 \<le> c \<and> c \<le> 0x39"

definition LLONG_MAX :: int where "LLONG_MAX = 2 ^ 63 - 1"
definition LLONG_MIN :: int where "LLONG_MIN = - (2 ^ 63)"

section \<open>Printing integers\<close>

function digits10 :: "nat \<Rightarrow> nat" where
  "digits10 v =
     (if v < 10 then 1 else if v < 100 then 2 else if v < 1000 then 3
      else if v < 1000000000000 then
        (if v < 100000000 then
           (if v < 1000000 then
              (if v < 10000 then 4 else 5 + of_bool (v \<ge> 100000))
            else 7 + of_bool (v \<ge> 10000000))
         else if v < 10000000000 then 9 + of_bool (v \<ge> 1000000000)
         else 11 + of_bool (v \<ge> 100000000000))
      else 12 + digits10 (v div 1000000000000))"
  by pat_completeness auto
termination by (relation "measure id") auto

definition sdigits10 :: "int \<Rightarrow> nat" where
  "sdigits10 v =
     (if v < 0 then
        (let uv = (if v \<noteq> LLONG_MIN then nat (- v) else nat LLONG_MAX + 1) in digits10 uv + 1)
      else digits10 (nat v))"

text \<open>The table \<open>"000102...9899"\<close> of the hundred two-digit strings.\<close>

definition digits :: "byte list" where
  "digits = concat (map (\<lambda>i. [0x30 + of_nat (i div 10), 0x30 + of_nat (i mod 10)]) [0..<100])"

function ll2string_loop :: "mem \<Rightarrow> nat \<Rightarrow> nat \<Rightarrow> (mem \<times> nat \<times> nat) option" where
  "ll2string_loop dst value next =
     (if value \<ge> 100 then
        (let i = (value mod 100) * 2;
             value = value div 100
         in do {
           dst \<leftarrow> mem_write dst next [digits ! (i + 1)];
           dst \<leftarrow> (if next = 0 then None else mem_write dst (next - 1) [digits ! i]);
           if next < 2 then None else ll2string_loop dst value (next - 2)
         })
      else Some (dst, value, next))"
  by pat_completeness auto
termination by (relation "measure (\<lambda>(_, value, _). value)") auto

definition ll2string_last :: "mem \<Rightarrow> nat \<Rightarrow> nat \<Rightarrow> mem option" where
  "ll2string_last dst value next =
     (if value < 10 then mem_write dst next [0x30 + of_nat value]
      else do {
        let i = value * 2;
        dst \<leftarrow> mem_write dst next [digits ! (i + 1)];
        if next = 0 then None else mem_write dst (next - 1) [digits ! i]
      })"

definition ll2string :: "mem \<Rightarrow> nat \<Rightarrow> int \<Rightarrow> (mem \<times> nat) option" where
  "ll2string dst dstlen svalue =
     (let negative = svalue < 0;
          value = (if svalue < 0 then (if svalue \<noteq> LLONG_MIN then nat (- svalue) else nat LLONG_MAX + 1)
                   else nat svalue);
          len = digits10 value + of_bool negative
      in if len \<ge> dstlen then Some (dst, 0)
         else do {
           dst \<leftarrow> mem_write dst len [0];
           (dst, value, next) \<leftarrow> ll2string_loop dst value (len - 1);
           dst \<leftarrow> ll2string_last dst value next;
           dst \<leftarrow> (if negative then mem_write dst 0 [ch_minus] else Some dst);
           Some (dst, len)
         })"

section \<open>Parsing integers\<close>

definition ULLONG_MAX :: nat where "ULLONG_MAX = 2 ^ 64 - 1"

text \<open>The digit loop: \<open>None\<close> is the \<open>return 0\<close> on overflow; the unread rest is returned too.\<close>

fun string2ll_loop :: "nat \<Rightarrow> byte list \<Rightarrow> (nat \<times> byte list) option" where
  "string2ll_loop v [] = Some (v, [])"
| "string2ll_loop v (c # s) =
     (if isdigit c then
        (if v > ULLONG_MAX div 10 then None
         else
           let v = v * 10; d = unat (c - ch_0) in
           if v > ULLONG_MAX - d then None else string2ll_loop (v + d) s)
      else Some (v, c # s))"

definition string2ll :: "byte list \<Rightarrow> int option" where
  "string2ll s =
     (if s = [] then None
      else if length s = 1 \<and> s ! 0 = ch_0 then Some 0
      else
        let negative = (s ! 0 = ch_minus); p = (if negative then drop 1 s else s) in
        if p = [] then None
        else if 0x31 \<le> p ! 0 \<and> p ! 0 \<le> 0x39 then
          (case string2ll_loop (unat (p ! 0 - ch_0)) (drop 1 p) of
             None \<Rightarrow> None
           | Some (v, rest) \<Rightarrow>
               if rest \<noteq> [] then None
               else if negative then
                 (if v > nat (- (LLONG_MIN + 1)) + 1 then None else Some (- int v))
               else if v > nat LLONG_MAX then None else Some (int v))
        else if p ! 0 = ch_0 \<and> length s = 1 then Some 0
        else None)"

definition string2l :: "byte list \<Rightarrow> int option" where
  \<comment> \<open>\<open>long\<close> has 64 bits, so the range test never fails\<close>
  "string2l s =
     (case string2ll s of
        None \<Rightarrow> None
      | Some llval \<Rightarrow> if llval < LLONG_MIN \<or> llval > LLONG_MAX then None else Some llval)"

section \<open>Byte order\<close>

definition memrev16 :: "mem \<Rightarrow> mem" where
  "memrev16 x = x[0 := x ! 1, 1 := x ! 0]"

definition memrev32 :: "mem \<Rightarrow> mem" where
  "memrev32 x = (let x' = x[0 := x ! 3, 3 := x ! 0] in x'[1 := x' ! 2, 2 := x' ! 1])"

definition memrev64 :: "mem \<Rightarrow> mem" where
  "memrev64 x =
     (let x1 = x[0 := x ! 7, 7 := x ! 0];
          x2 = x1[1 := x1 ! 6, 6 := x1 ! 1];
          x3 = x2[2 := x2 ! 5, 5 := x2 ! 2]
      in x3[3 := x3 ! 4, 4 := x3 ! 3])"

definition intrev16 :: "int \<Rightarrow> int" where
  "intrev16 v = le_dec (memrev16 (le_enc 2 v))"

definition intrev32 :: "int \<Rightarrow> int" where
  "intrev32 v = le_dec (memrev32 (le_enc 4 v))"

definition intrev64 :: "int \<Rightarrow> int" where
  "intrev64 v = le_dec (memrev64 (le_enc 8 v))"

declare digits10.simps [simp del] ll2string_loop.simps [simp del]

end
