(* ===== verification/Util_Correct.thy ===== *)
theory Util_Correct
  imports Util
begin

text \<open>
  Decimal conversion is correct in both directions: \<open>digits10\<close> counts the digits, \<open>ll2string\<close>
  writes exactly the canonical decimal representation and stays inside its buffer, and
  \<open>string2ll\<close> accepts exactly the canonical representations of the 64-bit integers.
\<close>

section \<open>Decimal representation\<close>

fun dec :: "nat \<Rightarrow> byte list" where
  "dec n = (if n < 10 then [0x30 + of_nat n] else dec (n div 10) @ [0x30 + of_nat (n mod 10)])"

declare dec.simps [simp del]

definition repr :: "int \<Rightarrow> byte list" where
  "repr v = (if v < 0 then ch_minus # dec (nat (- v)) else dec (nat v))"

lemma dec_small: "n < 10 \<Longrightarrow> dec n = [0x30 + of_nat n]"
  by (simp add: dec.simps)

lemma dec_large: "10 \<le> n \<Longrightarrow> dec n = dec (n div 10) @ [0x30 + of_nat (n mod 10)]"
  by (subst dec.simps) simp

lemma dec_ne [simp]: "dec n \<noteq> []"
  by (subst dec.simps) simp

lemma length_dec: "10 ^ k \<le> n \<Longrightarrow> n < 10 ^ Suc k \<Longrightarrow> length (dec n) = Suc k"
proof (induction k arbitrary: n)
  case 0
  then show ?case by (simp add: dec_small)
next
  case (Suc k)
  have "10 ^ k \<le> n div 10" using Suc.prems(1) by (simp add: less_eq_div_iff_mult_less_eq)
  moreover have "n div 10 < 10 ^ Suc k" using Suc.prems(2) by (simp add: div_less_iff_less_mult)
  moreover have "10 \<le> n" using Suc.prems(1) by (metis le_trans power_Suc mult.commute nat_mult_le_cancel_disj one_le_numeral one_le_power mult.right_neutral)
  ultimately show ?case using Suc.IH by (simp add: dec_large)
qed

lemma length_dec_div: "10 ^ k \<le> n \<Longrightarrow> length (dec n) = k + length (dec (n div 10 ^ k))"
proof (induction k arbitrary: n)
  case 0
  then show ?case by simp
next
  case (Suc k)
  have n: "10 \<le> n" "10 ^ k \<le> n div 10"
    using Suc.prems by (auto simp: less_eq_div_iff_mult_less_eq intro: le_trans [OF _ Suc.prems])
  then show ?case using Suc.IH [OF n(2)] by (simp add: dec_large div_mult2_eq)
qed

lemma digits10_length: "digits10 v = length (dec v)"
proof (induction v rule: digits10.induct)
  case (1 v)
  show ?case
  proof (cases "v < 1000000000000")
    case True
    then consider "v < 10" | "10 \<le> v" "v < 100" | "100 \<le> v" "v < 1000" | "1000 \<le> v" "v < 10000" |
      "10000 \<le> v" "v < 100000" | "100000 \<le> v" "v < 1000000" | "1000000 \<le> v" "v < 10000000" |
      "10000000 \<le> v" "v < 100000000" | "100000000 \<le> v" "v < 1000000000" | "1000000000 \<le> v" "v < 10000000000" |
      "10000000000 \<le> v" "v < 100000000000" | "100000000000 \<le> v" "v < 1000000000000" by (meson leI)
    then show ?thesis
    proof cases
      case 1
      then show ?thesis by (subst digits10.simps) (simp add: dec_small)
    next
      case 2
      then show ?thesis using length_dec [of 1 v] by (subst digits10.simps) simp
    next
      case 3
      then show ?thesis using length_dec [of 2 v] by (subst digits10.simps) simp
    next
      case 4
      then show ?thesis using length_dec [of 3 v] by (subst digits10.simps) simp
    next
      case 5
      then show ?thesis using length_dec [of 4 v] by (subst digits10.simps) simp
    next
      case 6
      then show ?thesis using length_dec [of 5 v] by (subst digits10.simps) simp
    next
      case 7
      then show ?thesis using length_dec [of 6 v] by (subst digits10.simps) simp
    next
      case 8
      then show ?thesis using length_dec [of 7 v] by (subst digits10.simps) simp
    next
      case 9
      then show ?thesis using length_dec [of 8 v] by (subst digits10.simps) simp
    next
      case 10
      then show ?thesis using length_dec [of 9 v] by (subst digits10.simps) simp
    next
      case 11
      then show ?thesis using length_dec [of 10 v] by (subst digits10.simps) simp
    next
      case 12
      then show ?thesis using length_dec [of 11 v] by (subst digits10.simps) simp
    qed
  next
    case False
    then have "length (dec v) = 12 + length (dec (v div 1000000000000))"
      using length_dec_div [of 12 v] by simp
    then show ?thesis using 1 False by (subst digits10.simps) simp
  qed
qed

lemma dec_100: "100 \<le> n \<Longrightarrow> dec n = dec (n div 100) @ [0x30 + of_nat (n mod 100 div 10), 0x30 + of_nat (n mod 10)]"
proof -
  assume n: "100 \<le> n"
  have "dec n = dec (n div 10) @ [0x30 + of_nat (n mod 10)]" using n by (simp add: dec_large)
  also have "dec (n div 10) = dec (n div 10 div 10) @ [0x30 + of_nat (n div 10 mod 10)]"
    using n by (subst dec_large) auto
  also have "n div 10 div 10 = n div 100" by (simp add: div_mult2_eq [symmetric])
  also have "n div 10 mod 10 = n mod 100 div 10" using mod_mult2_eq [of n 10 10] by simp
  finally show ?thesis by simp
qed

lemma nth_pairs:
  "i < n \<Longrightarrow> concat (map (\<lambda>i. [f i, g i]) [0..<n]) ! (i * 2) = f i \<and>
             concat (map (\<lambda>i. [f i, g i]) [0..<n]) ! (i * 2 + 1) = g i"
proof (induction n)
  case (Suc n)
  have len: "length (concat (map (\<lambda>i. [f i, g i]) [0..<n])) = n * 2" by (simp add: length_concat comp_def sum_list_triv)
  show ?case
  proof (cases "i < n")
    case True
    then show ?thesis using Suc.IH len by (simp add: nth_append)
  next
    case False
    then have "i = n" using Suc.prems by simp
    then show ?thesis using len by (simp add: nth_append)
  qed
qed simp

lemma digits_nth:
  "i < 100 \<Longrightarrow> digits ! (i * 2) = 0x30 + of_nat (i div 10)"
  "i < 100 \<Longrightarrow> digits ! (i * 2 + 1) = 0x30 + of_nat (i mod 10)"
  unfolding digits_def
  using nth_pairs [of i 100 "\<lambda>i. 0x30 + of_nat (i div 10)" "\<lambda>i. 0x30 + of_nat (i mod 10)"] by auto

section \<open>\<open>ll2string\<close>\<close>

text \<open>Two adjacent single-byte stores, the higher one first.\<close>

lemma store_pair:
  assumes "1 \<le> pos" "pos < length m"
  shows "mem_write m pos [b] \<bind> (\<lambda>m. if pos = 0 then None else mem_write m (pos - 1) [a]) =
         Some (take (pos - 1) m @ [a, b] @ drop (Suc pos) m)"
proof -
  have "drop (pos - 1 + 1) (take pos m @ [b] @ drop (pos + 1) m) = [b] @ drop (Suc pos) m"
    using assms by simp
  then show ?thesis using assms by (simp add: mem_write_def min_def)
qed

definition loop_post :: "nat \<Rightarrow> mem \<Rightarrow> nat \<Rightarrow> nat \<Rightarrow> mem \<times> nat \<times> nat \<Rightarrow> bool" where
  "loop_post off dst val pos r \<longleftrightarrow> (case r of (dst', val', pos') \<Rightarrow>
     \<exists>w. dst' = take (Suc pos') dst @ w @ drop (Suc pos) dst \<and> val' < 100 \<and> pos' \<le> pos \<and>
         Suc pos' = off + length (dec val') \<and> dec val = dec val' @ w)"

lemma loop_post_step:
  assumes "loop_post off (take (pos - 1) dst @ [a, b] @ drop (Suc pos) dst) (val div 100) (pos - 2) r"
    and "dec val = dec (val div 100) @ [a, b]" "2 \<le> pos" "pos < length dst"
  shows "loop_post off dst val pos r"
proof -
  obtain dst' val' pos' where r: "r = (dst', val', pos')" by (cases r)
  let ?dst = "take (pos - 1) dst @ [a, b] @ drop (Suc pos) dst"
  from assms(1) obtain w where w: "dst' = take (Suc pos') ?dst @ w @ drop (Suc (pos - 2)) ?dst" "val' < 100"
      "pos' \<le> pos - 2" "Suc pos' = off + length (dec val')" "dec (val div 100) = dec val' @ w"
    unfolding r loop_post_def by auto
  have "Suc pos' \<le> pos - 1" "pos - 1 \<le> length dst" using w(3) assms(3,4) by auto
  then have "take (Suc pos') ?dst = take (Suc pos') dst" by simp
  moreover have "drop (Suc (pos - 2)) ?dst = [a, b] @ drop (Suc pos) dst" using assms(3,4) by simp
  ultimately have "dst' = take (Suc pos') dst @ (w @ [a, b]) @ drop (Suc pos) dst" using w(1) by simp
  then show ?thesis unfolding r loop_post_def using w(2-5) assms(2,3) by auto
qed

lemma ll2string_loop_spec:
  "Suc pos = off + length (dec val) \<Longrightarrow> pos < length dst \<Longrightarrow>
   \<exists>r. ll2string_loop dst val pos = Some r \<and> loop_post off dst val pos r"
proof (induction val arbitrary: dst pos rule: less_induct)
  case (less val)
  show ?case
  proof (cases "val \<ge> 100")
    case False
    then show ?thesis using less.prems by (subst ll2string_loop.simps) (simp add: loop_post_def)
  next
    case True
    let ?a = "0x30 + of_nat (val mod 100 div 10) :: byte" and ?b = "0x30 + of_nat (val mod 10) :: byte"
    have d: "dec val = dec (val div 100) @ [?a, ?b]" using dec_100 [OF True] .
    have "1 \<le> length (dec (val div 100))" by (simp add: Suc_le_eq)
    then have nx: "2 \<le> pos" "Suc (pos - 2) = off + length (dec (val div 100))" using less.prems(1) d by simp_all
    have m: "digits ! (val mod 100 * 2) = ?a" "digits ! (val mod 100 * 2 + 1) = ?b"
      using digits_nth [of "val mod 100"] by (auto simp: mod_mod_cancel)
    let ?dst = "take (pos - 1) dst @ [?a, ?b] @ drop (Suc pos) dst"
    have "mem_write dst pos [?b] \<bind> (\<lambda>m. if pos = 0 then None else mem_write m (pos - 1) [?a]) = Some ?dst"
      using nx(1) less.prems(2) by (intro store_pair) auto
    then obtain dst1 where st: "mem_write dst pos [?b] = Some dst1" "mem_write dst1 (pos - 1) [?a] = Some ?dst"
      using nx(1) by (auto simp: bind_eq_Some_conv)
    have unf: "ll2string_loop dst val pos = ll2string_loop ?dst (val div 100) (pos - 2)"
      using True nx(1) m st by (subst ll2string_loop.simps) (simp add: Let_def)
    have "pos - 2 < length ?dst" "val div 100 < val" using less.prems(2) nx(1) True by auto
    then obtain r where "ll2string_loop ?dst (val div 100) (pos - 2) = Some r" "loop_post off ?dst (val div 100) (pos - 2) r"
      using less.IH [OF _ nx(2), of ?dst] by blast
    then show ?thesis using loop_post_step [OF _ d nx(1) less.prems(2)] unf by auto
  qed
qed

lemma ll2string_spec:
  assumes "int_fits 8 v" "dstlen \<le> length dst" "length (repr v) < dstlen"
  shows "ll2string dst dstlen v = Some (repr v @ [0] @ drop (Suc (length (repr v))) dst, length (repr v))"
proof -
  define u where "u = nat \<bar>v\<bar>"
  define neg where "neg = (of_bool (v < 0) :: nat)"
  have mag: "(if v < 0 then (if v \<noteq> LLONG_MIN then nat (- v) else nat LLONG_MAX + 1) else nat v) = u"
    using assms(1) by (auto simp: u_def LLONG_MIN_def LLONG_MAX_def int_fits_def)
  define len where "len = length (dec u) + neg"
  have len: "length (repr v) = len" by (auto simp: repr_def u_def neg_def len_def)
  have lt: "len < length dst" "len < dstlen" using assms(2,3) len by auto
  have pos: "1 \<le> length (dec u)" by (simp add: Suc_le_eq)
  let ?dst = "take len dst @ [0] @ drop (len + 1) dst"
  have w1: "mem_write dst len [0] = Some ?dst" using lt by (simp add: mem_write_def)
  have s1: "Suc (len - 1) = neg + length (dec u)" using pos by (simp add: len_def)
  have "len - 1 < length ?dst" using lt by simp
  then obtain dst2 val pos' where loop: "ll2string_loop ?dst u (len - 1) = Some (dst2, val, pos')"
      "loop_post neg ?dst u (len - 1) (dst2, val, pos')"
    using ll2string_loop_spec [OF s1, of ?dst] by (metis prod_cases3)
  then obtain w where w: "dst2 = take (Suc pos') ?dst @ w @ drop (Suc (len - 1)) ?dst" "val < 100" "pos' \<le> len - 1"
      "Suc pos' = neg + length (dec val)" "dec u = dec val @ w"
    unfolding loop_post_def by auto
  have sl: "Suc (len - 1) = len" using pos by (simp add: len_def)
  have dst2: "dst2 = take (Suc pos') dst @ w @ [0] @ drop (len + 1) dst"
    using w(1,3) lt sl by (simp add: min_def)
  define dst3 where "dst3 = take neg dst @ dec u @ [0] @ drop (len + 1) dst"
  have fin: "ll2string_last dst2 val pos' = Some dst3"
  proof (cases "val < 10")
    case True
    then have p: "pos' = neg" using w(4) by (simp add: dec_small)
    have "len = Suc (length w) + neg" using True w(5) by (simp add: len_def dec_small)
    then show ?thesis using True p w(5) lt
      by (simp add: ll2string_last_def dst2 dst3_def mem_write_def dec_small)
  next
    case False
    then have dv: "dec val = [0x30 + of_nat (val div 10), 0x30 + of_nat (val mod 10)]"
      using w(2) by (simp add: dec_large dec_small)
    then have p: "pos' = neg + 1" using w(4) by simp
    have dg: "digits ! (val * 2) = 0x30 + of_nat (val div 10)" "digits ! (val * 2 + 1) = 0x30 + of_nat (val mod 10)"
      using digits_nth [OF w(2)] by auto
    have ln: "len = Suc (Suc (length w)) + neg" using w(5) dv by (simp add: len_def)
    have "pos' < length dst2" using p w(3) lt ln by (simp add: dst2)
    then have "mem_write dst2 pos' [digits ! (val * 2 + 1)] \<bind>
        (\<lambda>m. if pos' = 0 then None else mem_write m (pos' - 1) [digits ! (val * 2)]) =
        Some (take (pos' - 1) dst2 @ [digits ! (val * 2), digits ! (val * 2 + 1)] @ drop (Suc pos') dst2)"
      using p by (intro store_pair) auto
    moreover have "take (pos' - 1) dst2 @ [digits ! (val * 2), digits ! (val * 2 + 1)] @ drop (Suc pos') dst2 = dst3"
      unfolding dg using p w(5) lt dv ln by (simp add: dst2 dst3_def)
    ultimately show ?thesis using False by (simp add: ll2string_last_def)
  qed
  have sign: "(if v < 0 then mem_write dst3 0 [ch_minus] else Some dst3) = Some (repr v @ [0] @ drop (Suc len) dst)"
  proof (cases "v < 0")
    case True
    then have "neg = 1" "repr v = ch_minus # dec u" by (simp_all add: neg_def repr_def u_def)
    then show ?thesis using True lt by (cases dst) (simp_all add: dst3_def mem_write_def)
  next
    case False
    then have "neg = 0" "repr v = dec u" by (simp_all add: neg_def repr_def u_def)
    then show ?thesis using False by (simp add: dst3_def)
  qed
  have L: "digits10 u + of_bool (v < 0) = len" by (simp add: digits10_length len_def neg_def)
  have "ll2string dst dstlen v = (if len \<ge> dstlen then Some (dst, 0)
     else do {
       dst \<leftarrow> mem_write dst len [0];
       (dst, val, pos) \<leftarrow> ll2string_loop dst u (len - 1);
       dst \<leftarrow> ll2string_last dst val pos;
       dst \<leftarrow> (if v < 0 then mem_write dst 0 [ch_minus] else Some dst);
       Some (dst, len)
     })"
    unfolding ll2string_def Let_def mag L by (rule refl)
  then show ?thesis using w1 loop(1) fin sign lt(2) len by simp
qed

section \<open>\<open>string2ll\<close>\<close>

definition dig :: "byte \<Rightarrow> nat" where "dig c = unat (c - ch_0)"

definition dval :: "nat \<Rightarrow> byte list \<Rightarrow> nat" where
  "dval v s = foldl (\<lambda>v c. v * 10 + dig c) v s"

lemma dval_simps [simp]: "dval v [] = v" "dval v (c # s) = dval (v * 10 + dig c) s"
    "dval v (s @ [c]) = dval v s * 10 + dig c"
  by (simp_all add: dval_def)

lemma isdigit_iff: "isdigit c \<longleftrightarrow> 48 \<le> unat c \<and> unat c \<le> 57"
  by (simp add: isdigit_def word_le_nat_alt)

lemma unat_digit: "n < 10 \<Longrightarrow> unat (0x30 + of_nat n :: byte) = 48 + n"
proof -
  assume n: "n < 10"
  have "unat (of_nat n :: byte) = n mod 256" by (simp only: unsigned_of_nat take_bit_eq_mod) simp
  then show ?thesis using n by (simp add: unat_word_ariths)
qed

lemma dig_unat: "isdigit c \<Longrightarrow> dig c = unat c - 48"
  by (simp add: dig_def isdigit_iff unat_sub word_le_nat_alt)

lemma dig_digit [simp]: "n < 10 \<Longrightarrow> isdigit (0x30 + of_nat n)" "n < 10 \<Longrightarrow> dig (0x30 + of_nat n) = n"
proof -
  show d: "n < 10 \<Longrightarrow> isdigit (0x30 + of_nat n)" by (simp add: isdigit_iff unat_digit)
  show "n < 10 \<Longrightarrow> dig (0x30 + of_nat n) = n" using d dig_unat unat_digit by simp
qed

lemma digit_dig: "isdigit c \<Longrightarrow> 0x30 + of_nat (dig c) = c" and dig_less: "isdigit c \<Longrightarrow> dig c < 10"
proof -
  show d: "isdigit c \<Longrightarrow> dig c < 10" by (auto simp: dig_unat isdigit_iff)
  show "isdigit c \<Longrightarrow> 0x30 + of_nat (dig c) = c" by (simp add: dig_def)
qed

lemma dval_dec: "dval 0 (dec n) = n" and dec_digits: "\<forall>c \<in> set (dec n). isdigit c"
proof (induction n rule: less_induct)
  case (less n)
  { case 1
    show ?case
    proof (cases "n < 10")
      case False
      then show ?thesis using less(1) [of "n div 10"] by (simp add: dec_large)
    qed (simp add: dec_small)
  next
    case 2
    show ?case
    proof (cases "n < 10")
      case False
      then show ?thesis using less(2) [of "n div 10"] by (simp add: dec_large)
    qed (simp add: dec_small)
  }
qed

lemma dval_ge: "v \<le> dval v s"
proof (induction s arbitrary: v)
  case (Cons c s)
  show ?case using Cons.IH [of "v * 10 + dig c"] by simp
qed simp

lemma string2ll_loop_step:
  assumes "isdigit c"
  shows "string2ll_loop v (c # s) = (if v * 10 + dig c \<le> ULLONG_MAX then string2ll_loop (v * 10 + dig c) s else None)"
proof -
  have c: "dig c < 10" using assms dig_less by blast
  have "(v > ULLONG_MAX div 10 \<or> v * 10 > ULLONG_MAX - dig c) \<longleftrightarrow> \<not> v * 10 + dig c \<le> ULLONG_MAX"
    using c by (auto simp: ULLONG_MAX_def)
  then show ?thesis using assms by (auto simp: Let_def dig_def [symmetric])
qed

lemma string2ll_loop_digits:
  assumes "\<forall>c \<in> set s. isdigit c" "v \<le> ULLONG_MAX"
  shows "string2ll_loop v s = (if dval v s \<le> ULLONG_MAX then Some (dval v s, []) else None)"
  using assms
proof (induction s arbitrary: v)
  case (Cons c s)
  let ?v = "v * 10 + dig c"
  have c: "isdigit c" using Cons.prems by simp
  show ?case
  proof (cases "?v \<le> ULLONG_MAX")
    case True
    then show ?thesis using Cons.IH [of ?v] Cons.prems
      by (simp add: string2ll_loop_step [OF c] del: string2ll_loop.simps)
  next
    case False
    then have "\<not> dval ?v s \<le> ULLONG_MAX" using dval_ge [of ?v s] by linarith
    then show ?thesis using False
      by (simp add: string2ll_loop_step [OF c] del: string2ll_loop.simps)
  qed
qed simp

lemma string2ll_loop_rest: "string2ll_loop v s = Some (w, []) \<Longrightarrow> \<forall>c \<in> set s. isdigit c"
proof (induction s arbitrary: v)
  case (Cons c s)
  then have c: "isdigit c" by (auto split: if_splits)
  then show ?case using Cons unfolding string2ll_loop_step [OF c] by (auto split: if_splits)
qed simp

text \<open>Digit strings without a leading zero are the canonical representations.\<close>

lemma dec_dval:
  assumes "\<forall>c \<in> set s. isdigit c" "s \<noteq> []" "hd s \<noteq> ch_0 \<or> length s = 1"
  shows "dec (dval 0 s) = s"
  using assms
proof (induction s rule: rev_induct)
  case (snoc c s)
  have "isdigit c" using snoc.prems(1) by simp
  then have c: "dig c < 10" "0x30 + of_nat (dig c) = c" using dig_less digit_dig by blast+
  show ?case
  proof (cases "s = []")
    case True
    then show ?thesis using c by (simp add: dec_small)
  next
    case False
    then have hd: "hd s \<noteq> ch_0" and ds: "\<forall>c \<in> set s. isdigit c" using snoc.prems by auto
    have IH: "dec (dval 0 s) = s" using snoc.IH [OF ds False] hd by blast
    have ge: "1 \<le> dval 0 s"
    proof -
      obtain d s' where s: "s = d # s'" using False by (cases s) auto
      have d: "isdigit d" "d \<noteq> ch_0" using hd ds s by auto
      have "dig d \<noteq> 0"
      proof
        assume "dig d = 0"
        then show False using digit_dig [OF d(1)] d(2) by simp
      qed
      then show ?thesis using dval_ge [of "dig d" s'] by (simp add: s)
    qed
    have "dval 0 (s @ [c]) = dval 0 s * 10 + dig c" by (simp add: dval_def)
    moreover have "(dval 0 s * 10 + dig c) div 10 = dval 0 s" "(dval 0 s * 10 + dig c) mod 10 = dig c"
      using c(1) by simp_all
    moreover have "10 \<le> dval 0 s * 10 + dig c" using ge by linarith
    ultimately show ?thesis using dec_large IH c(2) by metis
  qed
qed simp

lemma dec_hd: "n \<noteq> 0 \<Longrightarrow> 0x31 \<le> hd (dec n) \<and> hd (dec n) \<le> 0x39"
proof (induction n rule: less_induct)
  case (less n)
  show ?case
  proof (cases "n < 10")
    case True
    then show ?thesis using less.prems unat_digit [OF True] by (simp add: dec_small word_le_nat_alt)
  next
    case False
    then show ?thesis using less.IH [of "n div 10"] by (simp add: dec_large)
  qed
qed

lemma digit_not_minus: "isdigit c \<Longrightarrow> c \<noteq> ch_minus"
  by (auto simp: isdigit_def)

lemma string2ll_digits:
  assumes "\<forall>c \<in> set p. isdigit c" "p \<noteq> []"
  shows "string2ll_loop (unat (p ! 0 - ch_0)) (drop 1 p) =
           (if dval 0 p \<le> ULLONG_MAX then Some (dval 0 p, []) else None)"
proof -
  obtain c s where p: "p = c # s" using assms(2) by (cases p) auto
  then have "dig c < 10" using assms(1) dig_less by simp
  then have "dig c \<le> ULLONG_MAX" by (simp add: ULLONG_MAX_def)
  then show ?thesis using string2ll_loop_digits [of s "dig c"] assms(1) by (simp add: p dig_def)
qed

definition string2ll_result :: "bool \<Rightarrow> (nat \<times> byte list) option \<Rightarrow> int option" where
  "string2ll_result neg r =
     (case r of None \<Rightarrow> None
      | Some (u, rest) \<Rightarrow> if rest \<noteq> [] then None
          else if neg then (if u > nat (- (LLONG_MIN + 1)) + 1 then None else Some (- int u))
          else if u > nat LLONG_MAX then None else Some (int u))"

lemma string2ll_eq:
  assumes "s \<noteq> []" "\<not> (length s = 1 \<and> s ! 0 = ch_0)" "neg = (s ! 0 = ch_minus)" "p = (if neg then drop 1 s else s)"
  shows "string2ll s = (if p = [] then None
     else if 0x31 \<le> p ! 0 \<and> p ! 0 \<le> 0x39 then string2ll_result neg (string2ll_loop (unat (p ! 0 - ch_0)) (drop 1 p))
     else if p ! 0 = ch_0 \<and> length s = 1 then Some 0 else None)"
  unfolding string2ll_def Let_def string2ll_result_def if_not_P [OF assms(1)] if_not_P [OF assms(2)] assms(3,4) by (rule refl)

lemma string2ll_result_Some:
  "string2ll_result neg r = Some v \<longleftrightarrow>
     (\<exists>u. r = Some (u, []) \<and> v = (if neg then - int u else int u) \<and> (if neg then int u \<le> 2 ^ 63 else int u \<le> LLONG_MAX))"
  by (auto simp: string2ll_result_def LLONG_MIN_def LLONG_MAX_def split: option.splits)

lemma string2ll_repr:
  assumes "int_fits 8 v"
  shows "string2ll (repr v) = Some v"
proof -
  define u where "u = nat \<bar>v\<bar>"
  have u: "u \<le> ULLONG_MAX" "v \<ge> 0 \<Longrightarrow> int u \<le> LLONG_MAX" "v < 0 \<Longrightarrow> int u \<le> 2 ^ 63"
    using assms by (auto simp: u_def int_fits_def ULLONG_MAX_def LLONG_MAX_def)
  have loop: "string2ll_loop (unat (dec u ! 0 - ch_0)) (drop 1 (dec u)) = Some (u, [])"
    using string2ll_digits [OF dec_digits dec_ne, of u] u(1) by (simp add: dval_dec)
  show ?thesis
  proof (cases "u = 0")
    case True
    then show ?thesis by (simp add: u_def repr_def dec_small string2ll_def)
  next
    case False
    then have hd: "0x31 \<le> dec u ! 0" "dec u ! 0 \<le> 0x39" using dec_hd [of u] by (auto simp: hd_conv_nth)
    then have c: "0x31 \<le> dec u ! 0 \<and> dec u ! 0 \<le> 0x39" by blast
    have ne: "dec u ! 0 \<noteq> ch_minus" "dec u ! 0 \<noteq> ch_0" using hd by auto
    define neg where "neg = (repr v ! 0 = ch_minus)"
    have neg: "neg = (v < 0)" "(if neg then drop 1 (repr v) else repr v) = dec u"
      using ne(1) by (auto simp: neg_def repr_def u_def)
    have "repr v \<noteq> []" "\<not> (length (repr v) = 1 \<and> repr v ! 0 = ch_0)" using ne(2) by (auto simp: repr_def u_def)
    from string2ll_eq [OF this neg_def neg(2) [symmetric]]
    have "string2ll (repr v) = string2ll_result neg (Some (u, []))"
      unfolding loop if_not_P [OF dec_ne] if_P [OF c] .
    also have "\<dots> = Some v" unfolding string2ll_result_Some using u(2,3) neg(1) by (auto simp: u_def)
    finally show ?thesis .
  qed
qed

lemma string2ll_repr_inv:
  assumes "string2ll s = Some v"
  shows "s = repr v \<and> int_fits 8 v"
proof (cases "length s = 1 \<and> s ! 0 = ch_0")
  case True
  then have "s = [ch_0]" by (metis One_nat_def length_0_conv length_Suc_conv nth_Cons_0)
  then show ?thesis using assms by (auto simp: string2ll_def repr_def dec_small int_fits_def)
next
  case False
  define neg p where "neg = (s ! 0 = ch_minus)" and "p = (if neg then drop 1 s else s)"
  have s: "s \<noteq> []" using assms by (auto simp: string2ll_def)
  then have sp: "s = (if neg then [ch_minus] else []) @ p" by (cases s) (auto simp: neg_def p_def)
  define r where "r = string2ll_loop (unat (p ! 0 - ch_0)) (drop 1 p)"
  note eq = string2ll_eq [OF s False neg_def p_def, folded r_def]
  have p0: "p \<noteq> []" using eq assms by auto
  have n0: "\<not> (p ! 0 = ch_0 \<and> length s = 1)"
  proof
    assume a: "p ! 0 = ch_0 \<and> length s = 1"
    then have "\<not> neg" using False s p0 by (auto simp: p_def)
    then show False using a False by (simp add: p_def)
  qed
  have p1: "p \<noteq> []" "0x31 \<le> p ! 0 \<and> p ! 0 \<le> 0x39" using eq assms n0 by (auto split: if_splits)
  then have "string2ll_result neg r = Some v" using eq assms by simp
  then obtain u where u: "string2ll_loop (unat (p ! 0 - ch_0)) (drop 1 p) = Some (u, [])"
      "p \<noteq> []" "0x31 \<le> p ! 0" "p ! 0 \<le> 0x39"
      "v = (if neg then - int u else int u)" "if neg then int u \<le> 2 ^ 63 else int u \<le> LLONG_MAX"
    using p1 unfolding string2ll_result_Some r_def by blast
  have p0: "isdigit (p ! 0)" "p ! 0 \<noteq> ch_0" using u(3,4) by (auto simp: isdigit_iff word_le_nat_alt)
  have "\<forall>c \<in> set (drop 1 p). isdigit c" using string2ll_loop_rest [OF u(1)] .
  then have dp: "\<forall>c \<in> set p. isdigit c" using p0(1) u(2) by (cases p) auto
  have hd: "hd p \<noteq> ch_0" using p0(2) u(2) by (simp add: hd_conv_nth)
  have "dval 0 p = u" using string2ll_digits [OF dp u(2)] u(1) by (auto split: if_splits)
  then have dec: "dec u = p" using dec_dval [OF dp u(2)] hd by simp
  have "u \<noteq> 0"
  proof
    assume "u = 0"
    then show False using p0(2) dec [symmetric] by (simp add: dec_small)
  qed
  then have "s = repr v" using u(5) sp dec by (auto simp: repr_def split: if_splits)
  then show ?thesis using u(5,6) \<open>u \<noteq> 0\<close> by (auto simp: int_fits_def LLONG_MAX_def split: if_splits)
qed

section \<open>Byte order\<close>

lemma memrev_rev:
  "length x = 2 \<Longrightarrow> memrev16 x = rev x" "length x = 4 \<Longrightarrow> memrev32 x = rev x" "length x = 8 \<Longrightarrow> memrev64 x = rev x"
  by (auto simp: memrev16_def memrev32_def memrev64_def Let_def length_Suc_conv numeral_eq_Suc)

text \<open>Reversing the byte order twice gives back the integer.\<close>

lemma intrev_involutive:
  "intrev16 (intrev16 v) = v mod 2 ^ 16 \<and> intrev32 (intrev32 v) = v mod 2 ^ 32 \<and> intrev64 (intrev64 v) = v mod 2 ^ 64"
proof -
  have "le_enc n (le_dec (rev (le_enc n v))) = rev (le_enc n v)" for n by (rule le_enc_dec_n) simp
  then show ?thesis by (simp add: intrev16_def intrev32_def intrev64_def memrev_rev le_dec_enc)
qed

section \<open>Properties\<close>

text \<open>
  C26. \<open>ll2string\<close> writes the decimal representation and a terminating NUL byte at the start of
  a large enough buffer, leaves the rest of the buffer alone and returns the length.
\<close>

theorem ll2string_prints:
  assumes "int_fits 8 v" "dstlen \<le> length dst" "length (repr v) < dstlen"
  shows "ll2string dst dstlen v = Some (repr v @ [0] @ drop (Suc (length (repr v))) dst, length (repr v))"
  by (rule ll2string_spec [OF assms])

theorem ll2string_prints_witness:
  "ll2string (replicate 8 7) 8 (-120) = Some ([0x2D, 0x31, 0x32, 0x30, 0, 7, 7, 7], 4)"
proof -
  have r: "repr (-120) = [0x2D, 0x31, 0x32, 0x30]" by (simp add: repr_def dec_large dec_small)
  show ?thesis using ll2string_prints [of "-120" 8 "replicate 8 7"] by (simp add: r int_fits_def numeral_eq_Suc)
qed

text \<open>
  C25. \<open>string2ll\<close> accepts exactly the canonical representations of the 64-bit integers, so that
  a parsed number prints back to the same string.
\<close>

theorem string2ll_iff_repr: "string2ll s = Some v \<longleftrightarrow> int_fits 8 v \<and> s = repr v"
  using string2ll_repr string2ll_repr_inv by blast

end
