(* ===== verification/Server.thy ===== *)
theory Server
  imports Key_Types Util_Correct
begin

text \<open>
  The state of the server (\<open>server.h\<close>): objects, databases, clients and the global
  \<open>struct redisServer\<close>, as far as the keyspace, the string commands, expiration and
  transactions use them.

  Objects are values. The code updates an object in place only where it is private to a
  key (\<open>dbUnshareStringValue\<close>, the test \<open>refcount == 1\<close> of \<open>INCR\<close>), so sharing is not observable;
  the reference counts that the code tests are read from \<open>refcount_at\<close> and \<open>argv_refcount\<close>, about
  which nothing is assumed. Values of the types other than strings are addresses that the
  keyspace only passes on.

  A pointer to a database is its index in \<open>server.db\<close>, a pointer to a client is the
  client's number. \<open>mstime\<close> is the clock during one command. Signed 64-bit arithmetic wraps.
  Calls into parts of the server outside the model are recorded in \<open>calls\<close>, in order.
  \<open>commands\<close> and \<open>orig_commands\<close> are what \<open>dictFetchValue\<close> finds in the two command tables, which are filled at
  startup; \<open>cmd_has_keys\<close> says that \<open>getkeys_proc\<close> is set or \<open>firstkey\<close> is not 0.
\<close>

section \<open>C integers and strings\<close>

definition wrap64 :: "int \<Rightarrow> int" where
  "wrap64 x = (x + 2 ^ 63) mod 2 ^ 64 - 2 ^ 63"

lemma wrap64_id: "int_fits 8 x \<Longrightarrow> wrap64 x = x"
  by (simp add: wrap64_def int_fits_def)

lemma wrap64_fits [simp]: "int_fits 8 (wrap64 x)"
proof -
  have "0 \<le> (x + 2 ^ 63) mod 2 ^ 64" "(x + 2 ^ 63) mod 2 ^ 64 < 2 ^ 64" by simp_all
  then show ?thesis unfolding wrap64_def int_fits_def by simp
qed

text \<open>The bytes of a C string literal, without the terminating NUL.\<close>

definition bs :: "string \<Rightarrow> byte list" where
  "bs s = map (\<lambda>c. of_nat (of_char c)) s"

definition crlf :: "byte list" where "crlf = [13, 10]"

section \<open>Objects\<close>

datatype obj_type = OBJ_STRING | OBJ_LIST | OBJ_SET | OBJ_ZSET | OBJ_HASH | OBJ_MODULE

datatype obj_encoding =
    OBJ_ENCODING_RAW | OBJ_ENCODING_INT | OBJ_ENCODING_HT | OBJ_ENCODING_ZIPMAP
  | OBJ_ENCODING_LINKEDLIST | OBJ_ENCODING_ZIPLIST | OBJ_ENCODING_INTSET
  | OBJ_ENCODING_SKIPLIST | OBJ_ENCODING_EMBSTR | OBJ_ENCODING_QUICKLIST

datatype obj_ptr = PSds sds | PLong int | PAddr nat

record robj =
  otype :: obj_type
  encoding :: obj_encoding
  lru :: nat
  ptr :: obj_ptr

section \<open>Clients\<close>

datatype command_proc =
    P_get | P_set | P_setnx | P_setex | P_psetex | P_getset | P_append | P_strlen | P_setrange
  | P_getrange | P_mget | P_mset | P_msetnx | P_incr | P_decr | P_incrby | P_decrby
  | P_del | P_unlink | P_exists | P_touch | P_type | P_select | P_dbsize | P_rename | P_renamenx
  | P_move | P_swapdb | P_flushdb | P_flushall | P_expire | P_expireat | P_pexpire | P_pexpireat
  | P_ttl | P_pttl | P_persist | P_multi | P_exec | P_discard | P_watch | P_unwatch
  | P_auth | P_ping | P_subscribe | P_unsubscribe | P_psubscribe | P_punsubscribe | P_replconf
  | P_shutdown | P_script | P_other nat

record redisCommand =
  cmd_name :: string
  cmd_proc :: command_proc
  cmd_arity :: int
  cmd_write :: bool
  cmd_readonly :: bool
  cmd_admin :: bool
  cmd_denyoom :: bool
  cmd_loading :: bool
  cmd_stale :: bool
  cmd_skip_monitor :: bool
  cmd_fast :: bool
  cmd_module :: bool
  cmd_has_keys :: bool

record client =
  c_db :: nat
  argv :: "sds list"
  c_cmd :: redisCommand
  c_lastcmd :: redisCommand
  flag_master :: bool
  flag_multi :: bool
  flag_dirty_cas :: bool
  flag_dirty_exec :: bool
  flag_lua :: bool
  flag_module :: bool
  flag_reply_off :: bool
  flag_reply_skip :: bool
  flag_master_force_reply :: bool
  flag_close_after_reply :: bool
  flag_close_asap :: bool
  flag_pending_write :: bool
  flag_force_aof :: bool
  flag_force_repl :: bool
  flag_prevent_aof_prop :: bool
  flag_prevent_repl_prop :: bool
  flag_pubsub :: bool
  authenticated :: bool
  fd :: int
  repl_may_write :: bool
  mstate :: "(redisCommand \<times> sds list) list"
  w_keys :: "(sds \<times> nat) list"
  buf :: "byte list"
  reply :: "sds list"
  reply_bytes :: nat
  output_limit :: "nat \<Rightarrow> bool"

section \<open>Databases and the server\<close>

record redisDb =
  main_dict :: "(sds, robj) dict"
  expires :: "(sds, int) dict"
  watched_keys :: "(sds, nat list) dict"
  avg_ttl :: int

datatype server_call =
    NotifyKeyspaceEvent string sds nat
  | FeedAppendOnlyFile redisCommand nat "sds list"
  | FeedSlaves nat "sds list"
  | FeedMonitors nat "sds list"
  | FeedExecToBacklog
  | LatencyAndSlowlog nat "sds list"
  | CommandStats redisCommand
  | HandleReadyLists
  | SignalListAsReady nat sds
  | ScanDatabaseForReadyLists nat
  | SlotToKeyAdd sds
  | SlotToKeyDel sds
  | SlotToKeyFlush bool
  | LazyFreeObject nat sds
  | LazyFreeDicts nat
  | RememberSlaveKey nat sds
  | FlushSlaveKeys
  | KillSaveChild
  | RdbSave

text \<open>
  The fields of \<open>struct redisServer\<close> that the commands of this model only read: the clock, the role
  of the instance, the configuration, and the sources of the values that the code draws from
  outside (random numbers, reference counts, the work needed to free an object).
\<close>

record server_env =
  current_client :: "nat option"
  master :: "nat option"
  mstime :: int
  unixtime :: int
  lruclock :: nat
  hz :: nat
  loading :: bool
  lua_caller :: "nat option"
  lua_time_start :: int
  masterhost :: bool
  repl_slave_ro :: bool
  cluster_enabled :: bool
  lazyfree_lazy_expire :: bool
  lazyfree_lazy_server_del :: bool
  maxmemory :: nat
  policy_lfu :: bool
  policy_no_shared_integers :: bool
  lfu_log_factor :: nat
  lfu_decay_time :: nat
  rdb_child :: bool
  aof_child :: bool
  saveparamslen :: nat
  aof_on :: bool
  repl_backlog :: bool
  monitors :: bool
  requirepass :: bool
  stop_writes_on_bgsave_err :: bool
  lastbgsave_ok :: bool
  aof_last_write_ok :: bool
  aof_last_write_error :: string
  repl_min_slaves_to_write :: nat
  repl_min_slaves_max_lag :: nat
  repl_good_slaves_count :: nat
  repl_connected :: bool
  repl_serve_stale_data :: bool
  lua_timedout :: bool
  commands :: "sds \<Rightarrow> redisCommand option"
  orig_commands :: "sds \<Rightarrow> redisCommand option"
  delCommand_ptr :: redisCommand
  multiCommand_ptr :: redisCommand
  mt_name :: "obj_ptr \<Rightarrow> string"
  hash_seed :: "byte list"
  dict_can_resize :: bool
  rands :: "nat \<Rightarrow> nat"
  refcount_at :: "nat \<Rightarrow> sds \<Rightarrow> nat"
  argv_refcount :: "nat \<Rightarrow> nat"
  free_effort :: "nat \<Rightarrow> sds \<Rightarrow> nat"

text \<open>An entry of \<open>server.also_propagate\<close>, with the two bits of its target.\<close>

record redisOp =
  op_cmd :: redisCommand
  op_dbid :: nat
  op_argv :: "sds list"
  op_aof :: bool
  op_repl :: bool

record redisServer =
  dbs :: "redisDb list"
  clients :: "nat \<Rightarrow> client"
  client_list :: "nat list"
  dirty :: int
  stat_expiredkeys :: nat
  stat_keyspace_hits :: nat
  stat_keyspace_misses :: nat
  stat_numcommands :: nat
  also_propagate :: "redisOp list"
  rand_pos :: nat
  calls :: "server_call list"
  env :: server_env

definition upd_client :: "redisServer \<Rightarrow> nat \<Rightarrow> (client \<Rightarrow> client) \<Rightarrow> redisServer" where
  "upd_client s c f = s\<lparr>clients := (clients s)(c := f (clients s c))\<rparr>"

definition server_call :: "redisServer \<Rightarrow> server_call \<Rightarrow> redisServer" where
  "server_call s ev = s\<lparr>calls := calls s @ [ev]\<rparr>"

text \<open>The keys of \<open>watched_keys\<close> are sds-encoded string objects; two of them are compared by their strings.\<close>

definition dictObjHash :: "byte list \<Rightarrow> sds \<Rightarrow> u64" where
  "dictObjHash seed key = dictGenHashFunction seed key"

definition dictObjKeyCompare :: "sds \<Rightarrow> sds \<Rightarrow> bool" where
  "dictObjKeyCompare key1 key2 = dictSdsKeyCompare key1 key2"

definition keylistDictType :: "byte list \<Rightarrow> (sds, 'v) dictType" where
  "keylistDictType seed =
     \<lparr>hashFunction = dictObjHash seed, keyDup = None, valDup = None,
      keyCompare = Some dictObjKeyCompare, keyDestructor = True, valDestructor = True\<rparr>"

interpretation keylist_dict: dict_map "keylistDictType seed" for seed
  by unfold_locales
     (auto simp: keylistDictType_def dictKeyEq_def dictCompareKeys_def dictDupKey_def dictDupVal_def
        dictObjKeyCompare_def)

end
