(* ===== verification/Reply.thy ===== *)
theory Reply
  imports Server
begin

text \<open>
  The reply path (\<open>networking.c\<close>): a reply is written to the static buffer of the client while
  it fits and to the list of reply blocks afterwards. The abstract output of a client is
  the sequence of bytes that buffer and list hold; every reply function appends to it.

  \<open>clients_pending_write\<close> and \<open>clients_to_close\<close> are the sets of clients with the corresponding flag.
  \<open>output_limit\<close> stands for \<open>checkClientOutputBufferLimits\<close>, which reads the configuration and the
  clock. Deferred multi-bulk lengths (a NULL entry in the list) are not modelled.
\<close>

section \<open>Writing to the output of a client\<close>

definition PROTO_REPLY_CHUNK_BYTES :: nat where "PROTO_REPLY_CHUNK_BYTES = 16 * 1024"

definition sdsEncodedObject :: "robj \<Rightarrow> bool" where
  "sdsEncodedObject obj \<longleftrightarrow> encoding obj = OBJ_ENCODING_RAW \<or> encoding obj = OBJ_ENCODING_EMBSTR"

definition clientHasPendingReplies :: "client \<Rightarrow> bool" where
  "clientHasPendingReplies c \<longleftrightarrow> buf c \<noteq> [] \<or> reply c \<noteq> []"

definition prepareClientToWrite :: "client \<Rightarrow> client \<times> bool" where
  "prepareClientToWrite c =
     (if flag_lua c \<or> flag_module c then (c, True)
      else if flag_reply_off c \<or> flag_reply_skip c then (c, False)
      else if flag_master c \<and> \<not> flag_master_force_reply c then (c, False)
      else if fd c \<le> 0 then (c, False)
      else if \<not> clientHasPendingReplies c \<and> \<not> flag_pending_write c \<and> repl_may_write c
      then (c\<lparr>flag_pending_write := True\<rparr>, True)
      else (c, True))"

definition freeClientAsync :: "client \<Rightarrow> client" where
  "freeClientAsync c = (if flag_close_asap c \<or> flag_lua c then c else c\<lparr>flag_close_asap := True\<rparr>)"

text \<open>
  \<open>reply_bytes\<close> is not bounded: the assertion that it is below \<open>SIZE_MAX-(1024*64)\<close> can fail only for a
  reply list larger than the address space and is left out.
\<close>

definition asyncCloseClientOnOutputBufferLimitReached :: "client \<Rightarrow> client" where
  "asyncCloseClientOnOutputBufferLimitReached c =
     (if reply_bytes c = 0 \<or> flag_close_asap c then c
      else if output_limit c (reply_bytes c) then freeClientAsync c else c)"

definition addReplyToBuffer :: "client \<Rightarrow> byte list \<Rightarrow> client \<times> bool" where
  "addReplyToBuffer c s =
     (let available = PROTO_REPLY_CHUNK_BYTES - length (buf c) in
      if flag_close_after_reply c then (c, True)
      else if reply c \<noteq> [] then (c, False)
      else if length s > available then (c, False)
      else (c\<lparr>buf := buf c @ s\<rparr>, True))"

definition addReplyStringToList :: "client \<Rightarrow> byte list \<Rightarrow> client" where
  "addReplyStringToList c s =
     (if flag_close_after_reply c then c
      else
        let c' =
          (if reply c = [] then c\<lparr>reply := [s], reply_bytes := reply_bytes c + length s\<rparr>
           else
             let tail = last (reply c) in
             if length tail + length s \<le> PROTO_REPLY_CHUNK_BYTES
             then c\<lparr>reply := butlast (reply c) @ [tail @ s], reply_bytes := reply_bytes c + length s\<rparr>
             else c\<lparr>reply := reply c @ [s], reply_bytes := reply_bytes c + length s\<rparr>)
        in asyncCloseClientOnOutputBufferLimitReached c')"

definition addReplyObjectToList :: "client \<Rightarrow> robj \<Rightarrow> client option" where
  "addReplyObjectToList c obj =
     (case ptr obj of PSds s \<Rightarrow> Some (addReplyStringToList c s) | _ \<Rightarrow> None)"

definition addReplySdsToList :: "client \<Rightarrow> sds \<Rightarrow> client" where
  "addReplySdsToList c s = addReplyStringToList c s"

definition addReplyString :: "client \<Rightarrow> byte list \<Rightarrow> client" where
  "addReplyString c s =
     (case prepareClientToWrite c of
        (c, False) \<Rightarrow> c
      | (c, True) \<Rightarrow>
          (case addReplyToBuffer c s of (c, True) \<Rightarrow> c | (c, False) \<Rightarrow> addReplyStringToList c s))"

definition addReplySds :: "client \<Rightarrow> sds \<Rightarrow> client" where
  "addReplySds c s =
     (case prepareClientToWrite c of
        (c, False) \<Rightarrow> c
      | (c, True) \<Rightarrow>
          (case addReplyToBuffer c s of (c, True) \<Rightarrow> c | (c, False) \<Rightarrow> addReplySdsToList c s))"

definition strlen :: "byte list \<Rightarrow> nat" where
  "strlen b = length (takeWhile (\<lambda>x. x \<noteq> 0) b)"

text \<open>\<open>getDecodedObject\<close> as far as its string is concerned; \<open>buf\<close> is the uninitialised array of 32 bytes.\<close>

definition decoded_bytes :: "byte list \<Rightarrow> robj \<Rightarrow> byte list option" where
  "decoded_bytes junk obj =
     (if sdsEncodedObject obj then (case ptr obj of PSds s \<Rightarrow> Some s | _ \<Rightarrow> None)
      else if otype obj = OBJ_STRING \<and> encoding obj = OBJ_ENCODING_INT then
        (case ptr obj of
           PLong n \<Rightarrow> map_option (\<lambda>(b, _). take (strlen b) b) (ll2string junk 32 n)
         | _ \<Rightarrow> None)
      else None)"

definition junk32 :: "byte list" where "junk32 = replicate 32 0xA5"

definition addReplyToBufferOrList :: "client \<Rightarrow> byte list \<Rightarrow> client" where
  "addReplyToBufferOrList c s =
     (case addReplyToBuffer c s of (c, True) \<Rightarrow> c | (c, False) \<Rightarrow> addReplyStringToList c s)"

definition addReply :: "client \<Rightarrow> robj \<Rightarrow> client option" where
  "addReply c obj =
     (case prepareClientToWrite c of
        (c, False) \<Rightarrow> Some c
      | (c, True) \<Rightarrow>
          if sdsEncodedObject obj then
            (case ptr obj of PSds s \<Rightarrow> Some (addReplyToBufferOrList c s) | _ \<Rightarrow> None)
          else if encoding obj = OBJ_ENCODING_INT then
            (case ptr obj of
               PLong n \<Rightarrow>
                 if reply c = [] \<and> PROTO_REPLY_CHUNK_BYTES - length (buf c) \<ge> 32 then
                   do {
                     (b, len) \<leftarrow> ll2string junk32 32 n;
                     case addReplyToBuffer c (take len b) of
                       (c, True) \<Rightarrow> Some c
                     | (c, False) \<Rightarrow> map_option (addReplyToBufferOrList c) (decoded_bytes junk32 obj)
                   }
                 else map_option (addReplyToBufferOrList c) (decoded_bytes junk32 obj)
             | _ \<Rightarrow> None)
          else None)"

section \<open>Protocol replies\<close>

text \<open>The objects of \<open>createSharedObjects\<close> are RAW strings, given by their bytes.\<close>

definition sharedObject :: "byte list \<Rightarrow> robj" where
  "sharedObject s = \<lparr>otype = OBJ_STRING, encoding = OBJ_ENCODING_RAW, lru = 0, ptr = PSds s\<rparr>"

definition shared_ok :: "byte list" where "shared_ok = bs ''+OK'' @ crlf"
definition shared_czero :: "byte list" where "shared_czero = bs '':0'' @ crlf"
definition shared_cone :: "byte list" where "shared_cone = bs '':1'' @ crlf"
definition shared_nullbulk :: "byte list" where "shared_nullbulk = bs ''$-1'' @ crlf"
definition shared_nullmultibulk :: "byte list" where "shared_nullmultibulk = bs ''*-1'' @ crlf"
definition shared_emptybulk :: "byte list" where "shared_emptybulk = bs ''$0'' @ crlf @ crlf"
definition shared_queued :: "byte list" where "shared_queued = bs ''+QUEUED'' @ crlf"
definition shared_wrongtypeerr :: "byte list" where
  "shared_wrongtypeerr = bs ''-WRONGTYPE Operation against a key holding the wrong kind of value'' @ crlf"
definition shared_nokeyerr :: "byte list" where "shared_nokeyerr = bs ''-ERR no such key'' @ crlf"
definition shared_syntaxerr :: "byte list" where "shared_syntaxerr = bs ''-ERR syntax error'' @ crlf"
definition shared_sameobjecterr :: "byte list" where
  "shared_sameobjecterr = bs ''-ERR source and destination objects are the same'' @ crlf"
definition shared_outofrangeerr :: "byte list" where
  "shared_outofrangeerr = bs ''-ERR index out of range'' @ crlf"
definition shared_execaborterr :: "byte list" where
  "shared_execaborterr = bs ''-EXECABORT Transaction discarded because of previous errors.'' @ crlf"

definition addReplyShared :: "client \<Rightarrow> byte list \<Rightarrow> client option" where
  "addReplyShared c s = addReply c (sharedObject s)"

definition addReplyErrorLength :: "client \<Rightarrow> byte list \<Rightarrow> client" where
  \<comment> \<open>the log entry for an error sent to a master is left out\<close>
  "addReplyErrorLength c s = addReplyString (addReplyString (addReplyString c (bs ''-ERR '')) s) crlf"

definition addReplyError :: "client \<Rightarrow> string \<Rightarrow> client" where
  "addReplyError c err = addReplyErrorLength c (bs err)"

definition addReplyStatus :: "client \<Rightarrow> string \<Rightarrow> client" where
  "addReplyStatus c status = addReplyString (addReplyString (addReplyString c (bs ''+'')) (bs status)) crlf"

definition OBJ_SHARED_BULKHDR_LEN :: int where "OBJ_SHARED_BULKHDR_LEN = 32"

definition addReplyLongLongWithPrefix :: "client \<Rightarrow> int \<Rightarrow> byte \<Rightarrow> client option" where
  "addReplyLongLongWithPrefix c ll prefix =
     (if (prefix = 0x2A \<or> prefix = 0x24) \<and> ll < OBJ_SHARED_BULKHDR_LEN \<and> ll \<ge> 0
      then addReplyShared c ([prefix] @ repr ll @ crlf)
      else do {
        (b, len) \<leftarrow> ll2string (replicate 127 0xA5) 127 ll;
        Some (addReplyString c ([prefix] @ take len b @ crlf))
      })"

definition addReplyLongLong :: "client \<Rightarrow> int \<Rightarrow> client option" where
  "addReplyLongLong c ll =
     (if ll = 0 then addReplyShared c shared_czero
      else if ll = 1 then addReplyShared c shared_cone
      else addReplyLongLongWithPrefix c ll 0x3A)"

definition addReplyMultiBulkLen :: "client \<Rightarrow> int \<Rightarrow> client option" where
  "addReplyMultiBulkLen c len =
     (if len < OBJ_SHARED_BULKHDR_LEN
      then (if len < 0 then None else addReplyShared c ([0x2A] @ repr len @ crlf))
      else addReplyLongLongWithPrefix c len 0x2A)"

text \<open>C division truncates towards zero.\<close>

definition tdiv10 :: "int \<Rightarrow> int" where
  "tdiv10 n = (if n < 0 then - ((- n) div 10) else n div 10)"

text \<open>\<open>while((n = n/10) != 0) len++\<close>\<close>

function bulk_len_loop :: "int \<Rightarrow> nat \<Rightarrow> nat" where
  "bulk_len_loop n len = (let n = tdiv10 n in if n \<noteq> 0 then bulk_len_loop n (len + 1) else len)"
  by pat_completeness auto
termination by (relation "measure (\<lambda>(n, len). nat \<bar>n\<bar>)") (auto simp: tdiv10_def split: if_splits)

definition addReplyBulkLen :: "client \<Rightarrow> robj \<Rightarrow> client option" where
  "addReplyBulkLen c obj =
     do {
       len \<leftarrow> (if sdsEncodedObject obj then (case ptr obj of PSds s \<Rightarrow> Some (length s) | _ \<Rightarrow> None)
              else
                case ptr obj of
                  PLong n \<Rightarrow>
                    let len = 1; (len, n) = (if n < 0 then (len + 1, wrap64 (- n)) else (len, n))
                    in Some (bulk_len_loop n len)
                | _ \<Rightarrow> None);
       if int len < OBJ_SHARED_BULKHDR_LEN then addReplyShared c ([0x24] @ repr (int len) @ crlf)
       else addReplyLongLongWithPrefix c (int len) 0x24
     }"

definition addReplyBulk :: "client \<Rightarrow> robj \<Rightarrow> client option" where
  "addReplyBulk c obj =
     do { c \<leftarrow> addReplyBulkLen c obj; c \<leftarrow> addReply c obj; addReplyShared c crlf }"

definition addReplyBulkCBuffer :: "client \<Rightarrow> byte list \<Rightarrow> client option" where
  "addReplyBulkCBuffer c p =
     do {
       c \<leftarrow> addReplyLongLongWithPrefix c (int (length p)) 0x24;
       addReplyShared (addReplyString c p) crlf
     }"

declare bulk_len_loop.simps [simp del]

section \<open>The abstract output\<close>

text \<open>
  Two states of a client that differ only in how the output is split between buffer and list,
  and in the flags of the reply path itself, are the same client for the commands.
\<close>

definition client_view :: "client \<Rightarrow> client" where
  "client_view c = c\<lparr>buf := buf c @ concat (reply c), reply := [], reply_bytes := 0,
     flag_close_asap := False, flag_pending_write := False\<rparr>"

definition can_write :: "client \<Rightarrow> bool" where
  "can_write c \<longleftrightarrow> snd (prepareClientToWrite c)"

definition put :: "client \<Rightarrow> byte list \<Rightarrow> client" where
  "put c s = (if can_write c \<and> \<not> flag_close_after_reply c then c\<lparr>buf := buf c @ s\<rparr> else c)"

definition obj_ok :: "robj \<Rightarrow> bool" where
  "obj_ok obj \<longleftrightarrow>
     (if otype obj = OBJ_STRING then
        (case ptr obj of
           PSds _ \<Rightarrow> sdsEncodedObject obj
         | PLong n \<Rightarrow> encoding obj = OBJ_ENCODING_INT \<and> int_fits 8 n
         | PAddr _ \<Rightarrow> False)
      else \<not> sdsEncodedObject obj)"

definition obj_bytes :: "robj \<Rightarrow> byte list" where
  "obj_bytes obj = (case ptr obj of PSds s \<Rightarrow> s | PLong n \<Rightarrow> repr n | PAddr _ \<Rightarrow> [])"

named_theorems reply_simps \<open>every reply function appends to the output\<close>

lemma can_write_simps [simp]:
  "can_write (c\<lparr>flag_pending_write := b\<rparr>) = can_write c" "can_write (c\<lparr>buf := x\<rparr>) = can_write c"
  "can_write (c\<lparr>reply := y\<rparr>) = can_write c" "can_write (c\<lparr>reply_bytes := n\<rparr>) = can_write c"
  "can_write (c\<lparr>flag_close_asap := b\<rparr>) = can_write c"
  "can_write (c\<lparr>flag_multi := b\<rparr>) = can_write c"
  "can_write (c\<lparr>flag_dirty_cas := b\<rparr>) = can_write c"
  "can_write (c\<lparr>flag_dirty_exec := b\<rparr>) = can_write c"
  "can_write (c\<lparr>argv := a\<rparr>) = can_write c" "can_write (c\<lparr>c_cmd := m\<rparr>) = can_write c"
  "can_write (c\<lparr>c_db := i\<rparr>) = can_write c" "can_write (c\<lparr>mstate := ms\<rparr>) = can_write c"
  "can_write (c\<lparr>w_keys := ws\<rparr>) = can_write c"
  "can_write (c\<lparr>flag_force_aof := x0\<rparr>) = can_write c"
  "can_write (c\<lparr>flag_force_repl := x1\<rparr>) = can_write c"
  "can_write (c\<lparr>flag_prevent_aof_prop := x2\<rparr>) = can_write c"
  "can_write (c\<lparr>flag_prevent_repl_prop := x3\<rparr>) = can_write c"
  "can_write (c\<lparr>c_lastcmd := x4\<rparr>) = can_write c"
  by (simp_all add: can_write_def prepareClientToWrite_def)

lemma client_view_idem [simp]: "client_view (client_view c) = client_view c"
  by (simp add: client_view_def)

lemma client_view_simps [simp]:
  "can_write (client_view c) = can_write c"
  "flag_close_after_reply (client_view c) = flag_close_after_reply c"
  "flag_multi (client_view c) = flag_multi c" "flag_dirty_cas (client_view c) = flag_dirty_cas c"
  "flag_dirty_exec (client_view c) = flag_dirty_exec c" "flag_master (client_view c) = flag_master c"
  "c_db (client_view c) = c_db c" "argv (client_view c) = argv c" "c_cmd (client_view c) = c_cmd c"
  "mstate (client_view c) = mstate c" "w_keys (client_view c) = w_keys c"
  "flag_force_aof (client_view c) = flag_force_aof c"
  "flag_force_repl (client_view c) = flag_force_repl c"
  "flag_prevent_aof_prop (client_view c) = flag_prevent_aof_prop c"
  "flag_prevent_repl_prop (client_view c) = flag_prevent_repl_prop c"
  "c_lastcmd (client_view c) = c_lastcmd c"
  "flag_lua (client_view c) = flag_lua c"
  "flag_pubsub (client_view c) = flag_pubsub c"
  "authenticated (client_view c) = authenticated c"
  "flag_module (client_view c) = flag_module c"
  by (simp_all add: client_view_def)

lemma client_view_upd [simp]:
  "client_view (c\<lparr>flag_multi := b\<rparr>) = client_view c\<lparr>flag_multi := b\<rparr>"
  "client_view (c\<lparr>flag_dirty_cas := b\<rparr>) = client_view c\<lparr>flag_dirty_cas := b\<rparr>"
  "client_view (c\<lparr>flag_dirty_exec := b\<rparr>) = client_view c\<lparr>flag_dirty_exec := b\<rparr>"
  "client_view (c\<lparr>argv := a\<rparr>) = client_view c\<lparr>argv := a\<rparr>"
  "client_view (c\<lparr>c_cmd := m\<rparr>) = client_view c\<lparr>c_cmd := m\<rparr>"
  "client_view (c\<lparr>c_db := i\<rparr>) = client_view c\<lparr>c_db := i\<rparr>"
  "client_view (c\<lparr>mstate := ms\<rparr>) = client_view c\<lparr>mstate := ms\<rparr>"
  "client_view (c\<lparr>w_keys := ws\<rparr>) = client_view c\<lparr>w_keys := ws\<rparr>"
  "client_view (c\<lparr>flag_force_aof := x0\<rparr>) = client_view c\<lparr>flag_force_aof := x0\<rparr>"
  "client_view (c\<lparr>flag_force_repl := x1\<rparr>) = client_view c\<lparr>flag_force_repl := x1\<rparr>"
  "client_view (c\<lparr>flag_prevent_aof_prop := x2\<rparr>) = client_view c\<lparr>flag_prevent_aof_prop := x2\<rparr>"
  "client_view (c\<lparr>flag_prevent_repl_prop := x3\<rparr>) = client_view c\<lparr>flag_prevent_repl_prop := x3\<rparr>"
  "client_view (c\<lparr>c_lastcmd := x4\<rparr>) = client_view c\<lparr>c_lastcmd := x4\<rparr>"
  by (simp_all add: client_view_def)

lemma put_put [simp]: "put (put c a) b = put c (a @ b)"
  by (simp add: put_def)

lemma put_simps [simp]:
  "flag_force_aof (put c x) = flag_force_aof c"
  "flag_force_repl (put c x) = flag_force_repl c"
  "flag_prevent_aof_prop (put c x) = flag_prevent_aof_prop c"
  "flag_prevent_repl_prop (put c x) = flag_prevent_repl_prop c"
  "c_lastcmd (put c x) = c_lastcmd c"
  "flag_lua (put c x) = flag_lua c"
  "flag_pubsub (put c x) = flag_pubsub c"
  "authenticated (put c x) = authenticated c"
  "flag_module (put c x) = flag_module c"
  "flag_multi (put c x) = flag_multi c" "flag_dirty_cas (put c x) = flag_dirty_cas c"
  "flag_dirty_exec (put c x) = flag_dirty_exec c" "c_db (put c x) = c_db c" "argv (put c x) = argv c"
  "c_cmd (put c x) = c_cmd c" "mstate (put c x) = mstate c" "w_keys (put c x) = w_keys c"
  "flag_master (put c x) = flag_master c" "can_write (put c x) = can_write c"
  "flag_close_after_reply (put c x) = flag_close_after_reply c"
  by (simp_all add: put_def)

text \<open>Whichever way is taken, the bytes end up at the end of the output.\<close>

lemma prepare_view: "client_view (fst (prepareClientToWrite c)) = client_view c"
    "can_write (fst (prepareClientToWrite c)) = can_write c"
    "flag_close_after_reply (fst (prepareClientToWrite c)) = flag_close_after_reply c"
  by (auto simp: prepareClientToWrite_def client_view_def)

lemma async_view: "client_view (asyncCloseClientOnOutputBufferLimitReached c) = client_view c"
    "can_write (asyncCloseClientOnOutputBufferLimitReached c) = can_write c"
  by (auto simp: asyncCloseClientOnOutputBufferLimitReached_def freeClientAsync_def client_view_def)

definition emit :: "client \<Rightarrow> byte list \<Rightarrow> client" where
  "emit c s = (if flag_close_after_reply c then c else c\<lparr>buf := buf c @ s\<rparr>)"

lemma list_view: "client_view (addReplyStringToList c s) = emit (client_view c) s"
proof (cases "reply c = []")
  case True
  then show ?thesis by (simp add: addReplyStringToList_def async_view) (simp add: emit_def client_view_def)
next
  case False
  then have "reply c = butlast (reply c) @ [last (reply c)]" by simp
  then have "concat (reply c) = concat (butlast (reply c)) @ last (reply c)"
    by (metis append.right_neutral concat.simps concat_append)
  then show ?thesis using False
    by (simp add: addReplyStringToList_def Let_def async_view) (simp add: emit_def client_view_def)
qed

lemma buffer_or_list_view: "client_view (addReplyToBufferOrList c s) = emit (client_view c) s"
proof -
  have "client_view (c\<lparr>buf := buf c @ s\<rparr>) = client_view c\<lparr>buf := buf c @ s\<rparr>" if "reply c = []"
    using that by (simp add: client_view_def)
  moreover have "buf (client_view c) = buf c" if "reply c = []" using that by (simp add: client_view_def)
  ultimately show ?thesis
    by (simp add: addReplyToBufferOrList_def addReplyToBuffer_def Let_def list_view emit_def)
qed

lemma put_emit: "can_write c \<Longrightarrow> put c s = emit c s"
  by (simp add: put_def emit_def)

lemma addReplyString_view [reply_simps]: "client_view (addReplyString c s) = put (client_view c) s"
proof -
  obtain c' b where p: "prepareClientToWrite c = (c', b)" by (cases "prepareClientToWrite c")
  then have v: "client_view c' = client_view c" "can_write c = b" "can_write c' = b"
    using prepare_view [of c] by (auto simp: can_write_def)
  have "addReplyString c s = (if b then addReplyToBufferOrList c' s else c')"
    by (simp add: addReplyString_def p addReplyToBufferOrList_def split: bool.splits)
  then show ?thesis using v by (auto simp: buffer_or_list_view emit_def put_def)
qed

lemma addReplySds_view [reply_simps]: "client_view (addReplySds c s) = put (client_view c) s"
  using addReplyString_view by (simp add: addReplySds_def addReplyString_def addReplySdsToList_def)

text \<open>Printing an integer object.\<close>

lemma length_dec_le: "n < 10 ^ Suc k \<Longrightarrow> length (dec n) \<le> Suc k"
proof (induction k arbitrary: n)
  case 0
  then show ?case by (simp add: dec_small)
next
  case (Suc k)
  then have "length (dec (n div 10)) \<le> Suc k" by (simp add: div_less_iff_less_mult)
  then show ?case by (cases "n < 10") (simp_all add: dec_small dec_large)
qed

lemma length_repr_le: "int_fits 8 n \<Longrightarrow> length (repr n) \<le> 20"
proof -
  assume n: "int_fits 8 n"
  have "nat (- n) < 10 ^ Suc 18" "nat n < 10 ^ Suc 18" using n by (auto simp: int_fits_def nat_less_iff)
  from this [THEN length_dec_le] show ?thesis by (auto simp: repr_def)
qed

lemma repr_no_nul: "0 \<notin> set (repr n)"
proof -
  have "0 \<notin> set (dec m)" for m using dec_digits [of m] by (auto simp: isdigit_iff)
  then show ?thesis by (simp add: repr_def)
qed

lemma strlen_repr: "strlen (repr n @ 0 # xs) = length (repr n)"
proof -
  have "takeWhile (\<lambda>x. x \<noteq> 0) (repr n @ 0 # xs) = repr n"
    using repr_no_nul [of n] by (subst takeWhile_append2) auto
  then show ?thesis by (simp add: strlen_def)
qed

lemma ll2string_buffer:
  assumes "int_fits 8 n" "21 \<le> dstlen" "dstlen \<le> length dst"
  shows "\<exists>b. ll2string dst dstlen n = Some (b, length (repr n)) \<and> take (length (repr n)) b = repr n \<and>
             strlen b = length (repr n)"
  using ll2string_spec [OF assms(1,3)] length_repr_le [OF assms(1)] assms(2) by (simp add: strlen_repr)

lemma decoded_bytes_ok [reply_simps]:
  assumes "obj_ok obj" "otype obj = OBJ_STRING"
  shows "decoded_bytes junk32 obj = Some (obj_bytes obj)"
proof (cases "ptr obj")
  case (PLong n)
  then have n: "encoding obj = OBJ_ENCODING_INT" "int_fits 8 n" using assms by (auto simp: obj_ok_def)
  obtain b where "ll2string junk32 32 n = Some (b, length (repr n))" "take (strlen b) b = repr n"
    using ll2string_buffer [OF n(2), of 32 junk32] by (auto simp: junk32_def)
  then show ?thesis using PLong n assms(2)
    by (simp add: decoded_bytes_def sdsEncodedObject_def obj_bytes_def)
qed (use assms in \<open>auto simp: obj_ok_def decoded_bytes_def obj_bytes_def\<close>)

lemma addReply_view:
  assumes "obj_ok obj" "otype obj = OBJ_STRING"
  shows "\<exists>c'. addReply c obj = Some c' \<and> client_view c' = put (client_view c) (obj_bytes obj)"
proof -
  obtain c1 b where p: "prepareClientToWrite c = (c1, b)" by (cases "prepareClientToWrite c")
  then have v: "client_view c1 = client_view c" "can_write c = b" "can_write c1 = b"
    using prepare_view [of c] by (auto simp: can_write_def)
  show ?thesis
  proof (cases b)
    case False
    then show ?thesis using p v by (simp add: addReply_def put_def)
  next
    case b: True
    have out: "client_view (addReplyToBufferOrList c1 (obj_bytes obj)) = put (client_view c) (obj_bytes obj)"
      using v b by (simp add: buffer_or_list_view put_emit)
    show ?thesis
    proof (cases "ptr obj")
      case (PSds s)
      then show ?thesis using out p b assms by (simp add: addReply_def obj_ok_def obj_bytes_def)
    next
      case (PLong n)
      then have n: "encoding obj = OBJ_ENCODING_INT" "int_fits 8 n" using assms by (auto simp: obj_ok_def)
      obtain bb where bb: "ll2string junk32 32 n = Some (bb, length (repr n))" "take (length (repr n)) bb = repr n"
        using ll2string_buffer [OF n(2), of 32 junk32] by (auto simp: junk32_def)
      have "addReply c obj = Some (addReplyToBufferOrList c1 (obj_bytes obj))"
        using p b n PLong bb decoded_bytes_ok [OF assms]
        by (auto simp: addReply_def sdsEncodedObject_def addReplyToBufferOrList_def obj_bytes_def
            addReplyToBuffer_def Let_def split: prod.splits)
      then show ?thesis using out by simp
    next
      case (PAddr a)
      then show ?thesis using assms by (simp add: obj_ok_def)
    qed
  qed
qed

lemma addReplyShared_view:
  "\<exists>c'. addReplyShared c s = Some c' \<and> client_view c' = put (client_view c) s"
  using addReply_view [of "sharedObject s" c]
  by (simp add: addReplyShared_def sharedObject_def obj_ok_def sdsEncodedObject_def obj_bytes_def)

lemma addReplyErrorLength_view [reply_simps]:
  "client_view (addReplyErrorLength c s) = put (client_view c) (bs ''-ERR '' @ s @ crlf)"
  by (simp add: addReplyErrorLength_def addReplyString_view)

lemma addReplyError_view [reply_simps]:
  "client_view (addReplyError c e) = put (client_view c) (bs ''-ERR '' @ bs e @ crlf)"
  by (simp add: addReplyError_def addReplyErrorLength_view)

lemma addReplyStatus_view [reply_simps]:
  "client_view (addReplyStatus c e) = put (client_view c) (bs ''+'' @ bs e @ crlf)"
  by (simp add: addReplyStatus_def addReplyString_view)

lemma prefix_view:
  assumes "int_fits 8 ll"
  shows "\<exists>c'. addReplyLongLongWithPrefix c ll p = Some c' \<and>
              client_view c' = put (client_view c) ([p] @ repr ll @ crlf)"
proof -
  obtain b where b: "ll2string (replicate 127 0xA5) 127 ll = Some (b, length (repr ll))"
      "take (length (repr ll)) b = repr ll"
    using ll2string_buffer [OF assms, of 127 "replicate 127 0xA5"] by auto
  show ?thesis
  proof (cases "(p = 0x2A \<or> p = 0x24) \<and> ll < OBJ_SHARED_BULKHDR_LEN \<and> ll \<ge> 0")
    case True
    show ?thesis unfolding addReplyLongLongWithPrefix_def if_P [OF True] by (rule addReplyShared_view)
  next
    case False
    show ?thesis unfolding addReplyLongLongWithPrefix_def if_not_P [OF False]
      using b addReplyString_view [of c "[p] @ repr ll @ crlf"] by simp
  qed
qed

text \<open>The integer and bulk replies of the protocol.\<close>

definition int_reply :: "int \<Rightarrow> byte list" where "int_reply n = [0x3A] @ repr n @ crlf"
definition bulk_reply :: "byte list \<Rightarrow> byte list" where
  "bulk_reply s = [0x24] @ repr (int (length s)) @ crlf @ s @ crlf"
definition multibulk_len :: "nat \<Rightarrow> byte list" where "multibulk_len n = [0x2A] @ repr (int n) @ crlf"

lemma int_reply_01: "shared_czero = int_reply 0" "shared_cone = int_reply 1"
  by (simp_all add: shared_czero_def shared_cone_def int_reply_def repr_def dec_small bs_def)

lemma addReplyLongLong_view:
  assumes "int_fits 8 ll"
  shows "\<exists>c'. addReplyLongLong c ll = Some c' \<and> client_view c' = put (client_view c) (int_reply ll)"
proof -
  consider "ll = 0" | "ll = 1" | "ll \<noteq> 0" "ll \<noteq> 1" by blast
  then show ?thesis
  proof cases
    case 1
    then show ?thesis using addReplyShared_view [of c shared_czero] by (simp add: addReplyLongLong_def int_reply_01)
  next
    case 2
    then show ?thesis using addReplyShared_view [of c shared_cone] by (simp add: addReplyLongLong_def int_reply_01)
  next
    case 3
    then show ?thesis using prefix_view [OF assms] by (simp add: addReplyLongLong_def int_reply_def)
  qed
qed

lemma addReplyMultiBulkLen_view:
  assumes "int n < 2 ^ 63"
  shows "\<exists>c'. addReplyMultiBulkLen c (int n) = Some c' \<and> client_view c' = put (client_view c) (multibulk_len n)"
proof (cases "int n < OBJ_SHARED_BULKHDR_LEN")
  case True
  then show ?thesis using addReplyShared_view by (simp add: addReplyMultiBulkLen_def multibulk_len_def)
next
  case False
  then show ?thesis using prefix_view [of "int n" c "0x2A"] assms
    by (simp add: addReplyMultiBulkLen_def multibulk_len_def int_fits_def)
qed

lemma bulk_len_loop_dec: "bulk_len_loop n len = len + length (dec (nat \<bar>n\<bar>)) - 1"
proof (induction n len rule: bulk_len_loop.induct)
  case (1 n len)
  have a: "nat \<bar>tdiv10 n\<bar> = nat \<bar>n\<bar> div 10"
    by (auto simp: tdiv10_def nat_div_distrib)
  show ?case
  proof (cases "tdiv10 n = 0")
    case True
    then have "nat \<bar>n\<bar> < 10" using a by (simp add: div_eq_0_iff)
    then show ?thesis using True by (simp add: bulk_len_loop.simps [of n] dec_small)
  next
    case False
    then have "\<not> nat \<bar>n\<bar> < 10" using a by (auto simp: div_eq_0_iff)
    then have "length (dec (nat \<bar>n\<bar>)) = Suc (length (dec (nat \<bar>tdiv10 n\<bar>)))"
      using a by (simp add: dec_large)
    then show ?thesis using 1 [OF refl] False by (simp add: bulk_len_loop.simps [of n])
  qed
qed

lemma addReplyBulkLen_view:
  assumes "obj_ok obj" "otype obj = OBJ_STRING" "length (obj_bytes obj) < 2 ^ 63"
  shows "\<exists>c'. addReplyBulkLen c obj = Some c' \<and>
     client_view c' = put (client_view c) ([0x24] @ repr (int (length (obj_bytes obj))) @ crlf)"
proof -
  define len where "len = length (obj_bytes obj)"
  have len: "int_fits 8 (int len)" using assms(3) by (simp add: len_def int_fits_def)
  have reply: "\<exists>c'. (if int len < OBJ_SHARED_BULKHDR_LEN then addReplyShared c ([0x24] @ repr (int len) @ crlf)
       else addReplyLongLongWithPrefix c (int len) 0x24) = Some c' \<and>
     client_view c' = put (client_view c) ([0x24] @ repr (int len) @ crlf)"
    using addReplyShared_view prefix_view [OF len] by simp
  have "addReplyBulkLen c obj =
      (if int len < OBJ_SHARED_BULKHDR_LEN then addReplyShared c ([0x24] @ repr (int len) @ crlf)
       else addReplyLongLongWithPrefix c (int len) 0x24)"
  proof (cases "ptr obj")
    case (PSds s)
    then have "sdsEncodedObject obj" "len = length s" using assms by (auto simp: obj_ok_def len_def obj_bytes_def)
    then show ?thesis using PSds by (simp add: addReplyBulkLen_def)
  next
    case (PLong n)
    then have n: "encoding obj = OBJ_ENCODING_INT" "int_fits 8 n" using assms by (auto simp: obj_ok_def)
    have "nat \<bar>wrap64 (- n)\<bar> = nat \<bar>n\<bar>" if "n < 0"
    proof (cases "n = - (2 ^ 63)")
      case True
      then show ?thesis by (simp add: wrap64_def)
    next
      case False
      then show ?thesis using that n(2) wrap64_id [of "- n"] by (simp add: int_fits_def)
    qed
    moreover have "length (dec (nat \<bar>n\<bar>)) \<noteq> 0" by simp
    ultimately have "(let len = 1; (len, n) = (if n < 0 then (len + 1, wrap64 (- n)) else (len, n))
                    in Some (bulk_len_loop n len)) = Some len"
      using PLong by (simp add: bulk_len_loop_dec len_def obj_bytes_def repr_def Let_def)
    then show ?thesis using PLong n(1) by (simp add: addReplyBulkLen_def sdsEncodedObject_def)
  next
    case (PAddr a)
    then show ?thesis using assms by (simp add: obj_ok_def)
  qed
  then show ?thesis using reply unfolding len_def by simp
qed

lemma addReplyBulk_view:
  assumes "obj_ok obj" "otype obj = OBJ_STRING" "length (obj_bytes obj) < 2 ^ 63"
  shows "\<exists>c'. addReplyBulk c obj = Some c' \<and> client_view c' = put (client_view c) (bulk_reply (obj_bytes obj))"
proof -
  obtain c1 where c1: "addReplyBulkLen c obj = Some c1"
      "client_view c1 = put (client_view c) ([0x24] @ repr (int (length (obj_bytes obj))) @ crlf)"
    using addReplyBulkLen_view [OF assms] by blast
  obtain c2 where c2: "addReply c1 obj = Some c2" "client_view c2 = put (client_view c1) (obj_bytes obj)"
    using addReply_view [OF assms(1,2)] by blast
  obtain c3 where c3: "addReplyShared c2 crlf = Some c3" "client_view c3 = put (client_view c2) crlf"
    using addReplyShared_view by blast
  show ?thesis using c1 c2 c3 by (simp add: addReplyBulk_def bulk_reply_def)
qed

lemma addReplyBulkCBuffer_view:
  assumes "length p < 2 ^ 63"
  shows "\<exists>c'. addReplyBulkCBuffer c p = Some c' \<and> client_view c' = put (client_view c) (bulk_reply p)"
proof -
  obtain c1 where c1: "addReplyLongLongWithPrefix c (int (length p)) 0x24 = Some c1"
      "client_view c1 = put (client_view c) ([0x24] @ repr (int (length p)) @ crlf)"
    using prefix_view [of "int (length p)" c "0x24"] assms by (auto simp: int_fits_def)
  obtain c3 where "addReplyShared (addReplyString c1 p) crlf = Some c3"
      "client_view c3 = put (client_view (addReplyString c1 p)) crlf"
    using addReplyShared_view by blast
  then show ?thesis using c1 by (simp add: addReplyBulkCBuffer_def bulk_reply_def addReplyString_view)
qed

end
