(* ===== verification/Objects.thy ===== *)
theory Objects
  imports Reply
begin

text \<open>
  String objects (\<open>object.c\<close>): creation, encoding, decoding, comparison and conversion to
  integers, and the access counters kept in the \<open>lru\<close> field (\<open>evict.c\<close>, \<open>updateLFU\<close> of \<open>db.c\<close>).
  Floating-point comparisons of \<open>LFULogIncr\<close> are done exactly, with integers. The \<open>lru\<close> field of
  a shared integer is kept per key.
\<close>

section \<open>Access clocks and counters\<close>

definition LRU_CLOCK_RESOLUTION :: nat where "LRU_CLOCK_RESOLUTION = 1000"
definition LRU_CLOCK_MAX :: int where "LRU_CLOCK_MAX = 2 ^ 24 - 1"
definition LFU_INIT_VAL :: nat where "LFU_INIT_VAL = 5"
definition RAND_MAX :: nat where "RAND_MAX = 2 ^ 31 - 1"

definition getLRUClock :: "redisServer \<Rightarrow> nat" where
  "getLRUClock s = nat ((mstime (env s) div int LRU_CLOCK_RESOLUTION) mod (LRU_CLOCK_MAX + 1))"

definition LRU_CLOCK :: "redisServer \<Rightarrow> nat" where
  "LRU_CLOCK s = (if 1000 div hz (env s) \<le> LRU_CLOCK_RESOLUTION then lruclock (env s) else getLRUClock s)"

definition estimateObjectIdleTime :: "redisServer \<Rightarrow> robj \<Rightarrow> nat" where
  "estimateObjectIdleTime s obj =
     (let lruclock = LRU_CLOCK s in
      if lruclock \<ge> lru obj then (lruclock - lru obj) * LRU_CLOCK_RESOLUTION
      else (lruclock + (nat LRU_CLOCK_MAX - lru obj)) * LRU_CLOCK_RESOLUTION)"

definition LFUGetTimeInMinutes :: "redisServer \<Rightarrow> nat" where
  "LFUGetTimeInMinutes s = nat ((unixtime (env s) div 60) mod 65536)"

definition LFUTimeElapsed :: "redisServer \<Rightarrow> nat \<Rightarrow> nat" where
  "LFUTimeElapsed s ldt =
     (let now = LFUGetTimeInMinutes s in if now \<ge> ldt then now - ldt else 65535 - ldt + now)"

definition LFULogIncr :: "redisServer \<Rightarrow> nat \<Rightarrow> redisServer \<times> nat" where
  \<comment> \<open>\<open>rand() / RAND_MAX < 1 / (baseval * factor + 1)\<close>\<close>
  "LFULogIncr s counter =
     (if counter = 255 then (s, 255)
      else
        let r = rands (env s) (rand_pos s); s = s\<lparr>rand_pos := rand_pos s + 1\<rparr>;
            baseval = counter - LFU_INIT_VAL
        in if r * (baseval * lfu_log_factor (env s) + 1) < RAND_MAX then (s, counter + 1) else (s, counter))"

definition LFUDecrAndReturn :: "redisServer \<Rightarrow> robj \<Rightarrow> nat" where
  "LFUDecrAndReturn s obj =
     (let ldt = lru obj div 256; counter = lru obj mod 256;
          num_periods = (if lfu_decay_time (env s) \<noteq> 0 then LFUTimeElapsed s ldt div lfu_decay_time (env s) else 0)
      in if num_periods \<noteq> 0 then (if num_periods > counter then 0 else counter - num_periods) else counter)"

definition updateLFU :: "redisServer \<Rightarrow> robj \<Rightarrow> redisServer \<times> robj" where
  "updateLFU s val =
     (let counter = LFUDecrAndReturn s val; (s, counter) = LFULogIncr s counter
      in (s, val\<lparr>lru := LFUGetTimeInMinutes s * 256 + counter\<rparr>))"

section \<open>Creation\<close>

definition OBJ_SHARED_INTEGERS :: int where "OBJ_SHARED_INTEGERS = 10000"
definition OBJ_ENCODING_EMBSTR_SIZE_LIMIT :: nat where "OBJ_ENCODING_EMBSTR_SIZE_LIMIT = 44"

definition new_lru :: "redisServer \<Rightarrow> nat" where
  "new_lru s = (if policy_lfu (env s) then LFUGetTimeInMinutes s * 256 + LFU_INIT_VAL else LRU_CLOCK s)"

definition createObject :: "redisServer \<Rightarrow> obj_type \<Rightarrow> obj_ptr \<Rightarrow> robj" where
  "createObject s type p = \<lparr>otype = type, encoding = OBJ_ENCODING_RAW, lru = new_lru s, ptr = p\<rparr>"

definition createRawStringObject :: "redisServer \<Rightarrow> byte list \<Rightarrow> robj" where
  "createRawStringObject s p = createObject s OBJ_STRING (PSds p)"

definition createEmbeddedStringObject :: "redisServer \<Rightarrow> byte list \<Rightarrow> robj" where
  "createEmbeddedStringObject s p =
     \<lparr>otype = OBJ_STRING, encoding = OBJ_ENCODING_EMBSTR, lru = new_lru s, ptr = PSds p\<rparr>"

definition createStringObject :: "redisServer \<Rightarrow> byte list \<Rightarrow> robj" where
  "createStringObject s p =
     (if length p \<le> OBJ_ENCODING_EMBSTR_SIZE_LIMIT then createEmbeddedStringObject s p
      else createRawStringObject s p)"

definition shared_integer :: "int \<Rightarrow> robj" where
  "shared_integer v = \<lparr>otype = OBJ_STRING, encoding = OBJ_ENCODING_INT, lru = 0, ptr = PLong v\<rparr>"

definition createStringObjectFromLongLong :: "redisServer \<Rightarrow> int \<Rightarrow> robj" where
  \<comment> \<open>\<open>long\<close> has the range of \<open>long long\<close>, so the branch that prints the number is never taken\<close>
  "createStringObjectFromLongLong s v =
     (if v \<ge> 0 \<and> v < OBJ_SHARED_INTEGERS then shared_integer v
      else (createObject s OBJ_STRING (PLong v))\<lparr>encoding := OBJ_ENCODING_INT\<rparr>)"

definition dupStringObject :: "redisServer \<Rightarrow> robj \<Rightarrow> robj option" where
  "dupStringObject s obj =
     (if otype obj \<noteq> OBJ_STRING then None
      else
        case (encoding obj, ptr obj) of
          (OBJ_ENCODING_RAW, PSds p) \<Rightarrow> Some (createRawStringObject s p)
        | (OBJ_ENCODING_EMBSTR, PSds p) \<Rightarrow> Some (createEmbeddedStringObject s p)
        | (OBJ_ENCODING_INT, p) \<Rightarrow> Some ((createObject s OBJ_STRING p)\<lparr>encoding := OBJ_ENCODING_INT\<rparr>)
        | _ \<Rightarrow> None)"

section \<open>Encoding and decoding\<close>

definition checkType :: "client \<Rightarrow> robj \<Rightarrow> obj_type \<Rightarrow> (client \<times> bool) option" where
  "checkType c obj type =
     (if otype obj \<noteq> type then map_option (\<lambda>c. (c, True)) (addReplyShared c shared_wrongtypeerr)
      else Some (c, False))"

definition isSdsRepresentableAsLongLong :: "sds \<Rightarrow> int option" where
  "isSdsRepresentableAsLongLong s = string2ll s"

definition isObjectRepresentableAsLongLong :: "robj \<Rightarrow> int option option" where
  "isObjectRepresentableAsLongLong obj =
     (if otype obj \<noteq> OBJ_STRING then None
      else
        case ptr obj of
          PLong n \<Rightarrow> if encoding obj = OBJ_ENCODING_INT then Some (Some n) else None
        | PSds s \<Rightarrow> if encoding obj = OBJ_ENCODING_INT then None else Some (isSdsRepresentableAsLongLong s)
        | PAddr _ \<Rightarrow> None)"

text \<open>\<open>refcount\<close> is the reference count of the object. Trimming the unused space of a long sds is not visible.\<close>

definition tryObjectEncoding :: "redisServer \<Rightarrow> nat \<Rightarrow> robj \<Rightarrow> robj option" where
  "tryObjectEncoding s refcount obj =
     (if otype obj \<noteq> OBJ_STRING then None
      else if \<not> sdsEncodedObject obj then Some obj
      else if refcount > 1 then Some obj
      else
        case ptr obj of
          PSds p \<Rightarrow>
            (let len = length p in
             case (if len \<le> 20 then string2l p else None) of
               Some v \<Rightarrow>
                 if (maxmemory (env s) = 0 \<or> \<not> policy_no_shared_integers (env s)) \<and>
                    v \<ge> 0 \<and> v < OBJ_SHARED_INTEGERS
                 then Some (shared_integer v)
                 else Some (obj\<lparr>encoding := OBJ_ENCODING_INT, ptr := PLong v\<rparr>)
             | None \<Rightarrow>
                 if len \<le> OBJ_ENCODING_EMBSTR_SIZE_LIMIT then
                   (if encoding obj = OBJ_ENCODING_EMBSTR then Some obj
                    else Some (createEmbeddedStringObject s p))
                 else Some obj)
        | _ \<Rightarrow> None)"

definition getDecodedObject :: "redisServer \<Rightarrow> robj \<Rightarrow> robj option" where
  "getDecodedObject s obj =
     (if sdsEncodedObject obj then Some obj
      else map_option (createStringObject s) (decoded_bytes junk32 obj))"

section \<open>Comparison\<close>

definition memcmp :: "byte list \<Rightarrow> byte list \<Rightarrow> nat \<Rightarrow> int" where
  \<comment> \<open>the sign of the first difference\<close>
  "memcmp a b n =
     (case filter (\<lambda>i. a ! i \<noteq> b ! i) [0..<n] of
        [] \<Rightarrow> 0 | i # _ \<Rightarrow> if unat (a ! i) < unat (b ! i) then -1 else 1)"

definition string_of_object :: "robj \<Rightarrow> byte list option" where
  \<comment> \<open>\<open>astr\<close>/\<open>alen\<close>: the sds string, or the digits printed into a buffer of 128 bytes\<close>
  "string_of_object obj =
     (if sdsEncodedObject obj then (case ptr obj of PSds s \<Rightarrow> Some s | _ \<Rightarrow> None)
      else
        case ptr obj of
          PLong n \<Rightarrow> map_option (\<lambda>(b, len). take len b) (ll2string (replicate 128 0xA5) 128 n)
        | _ \<Rightarrow> None)"

definition compareStringObjects :: "robj \<Rightarrow> robj \<Rightarrow> int option" where
  "compareStringObjects a b =
     (if otype a \<noteq> OBJ_STRING \<or> otype b \<noteq> OBJ_STRING then None
      else do {
        astr \<leftarrow> string_of_object a;
        bstr \<leftarrow> string_of_object b;
        let alen = length astr;
        let blen = length bstr;
        let minlen = (if alen < blen then alen else blen);
        let cmp = memcmp astr bstr minlen;
        if cmp = 0 then Some (int alen - int blen) else Some cmp
      })"

definition equalStringObjects :: "robj \<Rightarrow> robj \<Rightarrow> bool option" where
  "equalStringObjects a b =
     (if encoding a = OBJ_ENCODING_INT \<and> encoding b = OBJ_ENCODING_INT then Some (ptr a = ptr b)
      else map_option (\<lambda>r. r = 0) (compareStringObjects a b))"

section \<open>Integers\<close>

definition stringObjectLen :: "robj \<Rightarrow> nat option" where
  "stringObjectLen obj =
     (if otype obj \<noteq> OBJ_STRING then None
      else if sdsEncodedObject obj then (case ptr obj of PSds s \<Rightarrow> Some (length s) | _ \<Rightarrow> None)
      else (case ptr obj of PLong n \<Rightarrow> Some (sdigits10 n) | _ \<Rightarrow> None))"

text \<open>\<open>Some (Some v)\<close> is \<open>C_OK\<close> with value \<open>v\<close>, \<open>Some None\<close> is \<open>C_ERR\<close>.\<close>

definition getLongLongFromObject :: "robj option \<Rightarrow> int option option" where
  "getLongLongFromObject obj =
     (case obj of
        None \<Rightarrow> Some (Some 0)
      | Some obj \<Rightarrow>
          if otype obj \<noteq> OBJ_STRING then None
          else if sdsEncodedObject obj then (case ptr obj of PSds s \<Rightarrow> Some (string2ll s) | _ \<Rightarrow> None)
          else if encoding obj = OBJ_ENCODING_INT then (case ptr obj of PLong n \<Rightarrow> Some (Some n) | _ \<Rightarrow> None)
          else None)"

definition getLongLongFromObjectOrReply ::
  "client \<Rightarrow> robj option \<Rightarrow> string option \<Rightarrow> (client \<times> int option) option" where
  "getLongLongFromObjectOrReply c obj msg =
     (case getLongLongFromObject obj of
        None \<Rightarrow> None
      | Some None \<Rightarrow>
          Some (addReplyError c (case msg of Some m \<Rightarrow> m | None \<Rightarrow> ''value is not an integer or out of range''), None)
      | Some (Some v) \<Rightarrow> Some (c, Some v))"

definition getLongFromObjectOrReply ::
  "client \<Rightarrow> robj option \<Rightarrow> string option \<Rightarrow> (client \<times> int option) option" where
  "getLongFromObjectOrReply c obj msg =
     (case getLongLongFromObjectOrReply c obj msg of
        None \<Rightarrow> None
      | Some (c, None) \<Rightarrow> Some (c, None)
      | Some (c, Some v) \<Rightarrow>
          if v < LLONG_MIN \<or> v > LLONG_MAX
          then Some (addReplyError c (case msg of Some m \<Rightarrow> m | None \<Rightarrow> ''value is out of range''), None)
          else Some (c, Some v))"

section \<open>What the operations do to the string\<close>

named_theorems obj_simps \<open>string objects and their bytes\<close>

lemma create_ok [obj_simps]:
  "obj_ok (createRawStringObject s p)" "obj_ok (createEmbeddedStringObject s p)" "obj_ok (createStringObject s p)"
  "otype (createRawStringObject s p) = OBJ_STRING" "otype (createEmbeddedStringObject s p) = OBJ_STRING"
  "otype (createStringObject s p) = OBJ_STRING"
  "obj_bytes (createRawStringObject s p) = p" "obj_bytes (createEmbeddedStringObject s p) = p"
  "obj_bytes (createStringObject s p) = p" "sdsEncodedObject (createStringObject s p)"
  "ptr (createStringObject s p) = PSds p"
  by (simp_all add: obj_ok_def obj_bytes_def sdsEncodedObject_def createRawStringObject_def
      createEmbeddedStringObject_def createStringObject_def createObject_def)

lemma shared_integer_ok [obj_simps]:
  "int_fits 8 v \<Longrightarrow> obj_ok (shared_integer v)" "otype (shared_integer v) = OBJ_STRING"
  "obj_bytes (shared_integer v) = repr v"
  by (simp_all add: obj_ok_def obj_bytes_def shared_integer_def)

lemma fromLongLong_ok [obj_simps]:
  "int_fits 8 v \<Longrightarrow> obj_ok (createStringObjectFromLongLong s v)"
  "otype (createStringObjectFromLongLong s v) = OBJ_STRING"
  "obj_bytes (createStringObjectFromLongLong s v) = repr v"
  by (simp_all add: createStringObjectFromLongLong_def shared_integer_ok)
     (simp_all add: obj_ok_def obj_bytes_def createObject_def)

lemma obj_lru [obj_simps]:
  "obj_ok (obj\<lparr>lru := n\<rparr>) = obj_ok obj" "obj_bytes (obj\<lparr>lru := n\<rparr>) = obj_bytes obj"
  "otype (obj\<lparr>lru := n\<rparr>) = otype obj"
  by (auto simp: obj_ok_def obj_bytes_def sdsEncodedObject_def split: obj_ptr.splits)

lemma tryObjectEncoding_ok:
  assumes "obj_ok obj" "otype obj = OBJ_STRING"
  shows "\<exists>obj'. tryObjectEncoding s rc obj = Some obj' \<and> obj_ok obj' \<and> otype obj' = OBJ_STRING \<and>
                obj_bytes obj' = obj_bytes obj"
proof (cases "sdsEncodedObject obj \<and> \<not> rc > 1")
  case False
  then show ?thesis using assms by (auto simp: tryObjectEncoding_def)
next
  case True
  then obtain p where p: "ptr obj = PSds p"
    using assms by (cases "ptr obj") (auto simp: obj_ok_def sdsEncodedObject_def)
  define r where "r = (if length p \<le> 20 then string2l p else None)"
  have eq: "tryObjectEncoding s rc obj =
      (case r of
         Some v \<Rightarrow>
           if (maxmemory (env s) = 0 \<or> \<not> policy_no_shared_integers (env s)) \<and> v \<ge> 0 \<and> v < OBJ_SHARED_INTEGERS
           then Some (shared_integer v)
           else Some (obj\<lparr>encoding := OBJ_ENCODING_INT, ptr := PLong v\<rparr>)
       | None \<Rightarrow>
           if length p \<le> OBJ_ENCODING_EMBSTR_SIZE_LIMIT then
             (if encoding obj = OBJ_ENCODING_EMBSTR then Some obj else Some (createEmbeddedStringObject s p))
           else Some obj)"
    using True p assms(2) by (simp add: tryObjectEncoding_def r_def)
  show ?thesis
  proof (cases r)
    case None
    then show ?thesis using eq assms p create_ok by (auto simp: obj_bytes_def)
  next
    case (Some v)
    then have "string2ll p = Some v"
      by (auto simp: r_def string2l_def split: if_splits option.splits)
    then have v: "p = repr v" "int_fits 8 v" using string2ll_repr_inv by blast+
    let ?o = "obj\<lparr>encoding := OBJ_ENCODING_INT, ptr := PLong v\<rparr>"
    have "obj_ok ?o" "otype ?o = OBJ_STRING" "obj_bytes ?o = obj_bytes obj"
      using v assms p by (simp_all add: obj_ok_def obj_bytes_def)
    moreover have "obj_bytes (shared_integer v) = obj_bytes obj" using v p by (simp add: shared_integer_def obj_bytes_def)
    ultimately show ?thesis using eq Some shared_integer_ok v(2) by auto
  qed
qed

lemma sdigits10_repr: "int_fits 8 n \<Longrightarrow> sdigits10 n = length (repr n)"
  by (auto simp: sdigits10_def repr_def digits10_length LLONG_MIN_def LLONG_MAX_def int_fits_def Let_def)

lemma string_cases:
  assumes "obj_ok obj" "otype obj = OBJ_STRING"
  obtains (Sds) p where "ptr obj = PSds p" "sdsEncodedObject obj"
    | (Int) n where "ptr obj = PLong n" "encoding obj = OBJ_ENCODING_INT" "int_fits 8 n" "\<not> sdsEncodedObject obj"
  using assms by (cases "ptr obj") (auto simp: obj_ok_def sdsEncodedObject_def)

lemma stringObjectLen_ok [obj_simps]:
  assumes "obj_ok obj" "otype obj = OBJ_STRING"
  shows "stringObjectLen obj = Some (length (obj_bytes obj))"
  using assms by (cases rule: string_cases) (auto simp: stringObjectLen_def obj_bytes_def sdigits10_repr assms(2))

lemma getLongLongFromObject_ok [obj_simps]:
  assumes "obj_ok obj" "otype obj = OBJ_STRING"
  shows "getLongLongFromObject (Some obj) = Some (string2ll (obj_bytes obj))"
  using assms by (cases rule: string_cases)
    (auto simp: getLongLongFromObject_def obj_bytes_def string2ll_repr assms(2))

lemma getDecodedObject_ok:
  assumes "obj_ok obj" "otype obj = OBJ_STRING"
  shows "\<exists>d. getDecodedObject s obj = Some d \<and> obj_ok d \<and> otype d = OBJ_STRING \<and> ptr d = PSds (obj_bytes obj)"
  using assms
proof (cases rule: string_cases)
  case (Sds p)
  then show ?thesis using assms by (auto simp: getDecodedObject_def obj_bytes_def)
next
  case (Int n)
  then show ?thesis using decoded_bytes_ok [OF assms] create_ok by (simp add: getDecodedObject_def)
qed

lemma dupStringObject_ok:
  assumes "obj_ok obj" "otype obj = OBJ_STRING"
  shows "\<exists>d. dupStringObject s obj = Some d \<and> obj_ok d \<and> otype d = OBJ_STRING \<and>
             encoding d = encoding obj \<and> obj_bytes d = obj_bytes obj"
  using assms
proof (cases rule: string_cases)
  case (Sds p)
  then show ?thesis using assms
    by (auto simp: dupStringObject_def sdsEncodedObject_def obj_bytes_def create_ok)
       (simp_all add: createRawStringObject_def createObject_def createEmbeddedStringObject_def)
next
  case (Int n)
  then show ?thesis using assms
    by (simp add: dupStringObject_def createObject_def obj_ok_def obj_bytes_def)
qed

text \<open>Comparison is equality of the strings, whatever the encodings.\<close>

lemma repr_inj: "int_fits 8 m \<Longrightarrow> int_fits 8 n \<Longrightarrow> repr m = repr n \<longleftrightarrow> m = n"
  using string2ll_repr by (metis option.inject)

lemma memcmp_0: "memcmp a b n = 0 \<longleftrightarrow> (\<forall>i < n. a ! i = b ! i)"
proof (cases "filter (\<lambda>i. a ! i \<noteq> b ! i) [0..<n]")
  case Nil
  then show ?thesis by (auto simp: memcmp_def filter_empty_conv)
next
  case (Cons i rest)
  then have "i \<in> set (filter (\<lambda>i. a ! i \<noteq> b ! i) [0..<n])" by simp
  then have "i < n" "a ! i \<noteq> b ! i" by simp_all
  then show ?thesis using Cons by (auto simp: memcmp_def)
qed

lemma string_of_object_ok:
  assumes "obj_ok obj" "otype obj = OBJ_STRING"
  shows "string_of_object obj = Some (obj_bytes obj)"
  using assms
proof (cases rule: string_cases)
  case (Sds p)
  then show ?thesis by (simp add: string_of_object_def obj_bytes_def)
next
  case (Int n)
  then show ?thesis using ll2string_buffer [of n 128 "replicate 128 0xA5"]
    by (auto simp: string_of_object_def obj_bytes_def)
qed

lemma equalStringObjects_ok:
  assumes "obj_ok a" "otype a = OBJ_STRING" "obj_ok b" "otype b = OBJ_STRING"
  shows "equalStringObjects a b = Some (obj_bytes a = obj_bytes b)"
proof (cases "encoding a = OBJ_ENCODING_INT \<and> encoding b = OBJ_ENCODING_INT")
  case True
  then obtain m n where "ptr a = PLong m" "ptr b = PLong n" "int_fits 8 m" "int_fits 8 n"
    using string_cases [OF assms(1,2)] string_cases [OF assms(3,4)] by (metis obj_encoding.distinct sdsEncodedObject_def)
  then show ?thesis using True by (simp add: equalStringObjects_def obj_bytes_def repr_inj)
next
  case False
  let ?x = "obj_bytes a" and ?y = "obj_bytes b"
  let ?m = "if length ?x < length ?y then length ?x else length ?y"
  have "(memcmp ?x ?y ?m = 0 \<and> length ?x = length ?y) \<longleftrightarrow> ?x = ?y"
    by (auto simp: memcmp_0 nth_equalityI)
  then show ?thesis using False assms
    by (auto simp: equalStringObjects_def compareStringObjects_def string_of_object_ok Let_def)
qed

end
