(* ===== verification/Keyspace.thy ===== *)
theory Keyspace
  imports Objects
begin

text \<open>
  The keyspace (\<open>db.c\<close>, \<open>lazyfree.c\<close>, and the watched keys of \<open>multi.c\<close>): lookup, insertion,
  replacement and deletion of keys over the two dictionaries of a database, lazy expiration,
  and the marking of clients that watch a modified key. A failed assertion is \<open>None\<close>.
\<close>

section \<open>Access to the dictionaries\<close>

abbreviation main_type :: "redisServer \<Rightarrow> (sds, robj) dictType" where
  "main_type s \<equiv> dbDictType (hash_seed (env s))"

abbreviation expires_type :: "redisServer \<Rightarrow> (sds, int) dictType" where
  "expires_type s \<equiv> keyptrDictType (hash_seed (env s))"

abbreviation watched_type :: "redisServer \<Rightarrow> (sds, nat list) dictType" where
  "watched_type s \<equiv> keylistDictType (hash_seed (env s))"

definition set_main :: "redisServer \<Rightarrow> nat \<Rightarrow> (sds, robj) dict \<Rightarrow> redisServer" where
  "set_main s i d = s\<lparr>dbs := (dbs s)[i := (dbs s ! i)\<lparr>main_dict := d\<rparr>]\<rparr>"

definition set_expires :: "redisServer \<Rightarrow> nat \<Rightarrow> (sds, int) dict \<Rightarrow> redisServer" where
  "set_expires s i d = s\<lparr>dbs := (dbs s)[i := (dbs s ! i)\<lparr>expires := d\<rparr>]\<rparr>"

definition set_watched :: "redisServer \<Rightarrow> nat \<Rightarrow> (sds, nat list) dict \<Rightarrow> redisServer" where
  "set_watched s i d = s\<lparr>dbs := (dbs s)[i := (dbs s ! i)\<lparr>watched_keys := d\<rparr>]\<rparr>"

text \<open>A write to the object that is the value of \<open>key\<close>: no dictionary function is called.\<close>

definition obj_store :: "redisServer \<Rightarrow> nat \<Rightarrow> sds \<Rightarrow> robj \<Rightarrow> redisServer option" where
  "obj_store s i key val =
     do {
       let d = main_dict (dbs s ! i);
       r \<leftarrow> table_search (main_type s) d key (hashFunction (main_type s) key);
       loc \<leftarrow> r;
       Some (set_main s i (dictSetVal (main_type s) d loc val))
     }"

section \<open>Watched keys\<close>

fun touch_clients :: "redisServer \<Rightarrow> nat list \<Rightarrow> redisServer" where
  "touch_clients s [] = s"
| "touch_clients s (c # cs) = touch_clients (upd_client s c (\<lambda>cl. cl\<lparr>flag_dirty_cas := True\<rparr>)) cs"

definition touchWatchedKey :: "redisServer \<Rightarrow> nat \<Rightarrow> sds \<Rightarrow> redisServer option" where
  "touchWatchedKey s i key =
     (if dictSize (watched_keys (dbs s ! i)) = 0 then Some s
      else do {
        (d, cs) \<leftarrow> dictFetchValue (watched_type s) (watched_keys (dbs s ! i)) key;
        let s = set_watched s i d;
        case cs of None \<Rightarrow> Some s | Some cs \<Rightarrow> Some (touch_clients s cs)
      })"

fun touch_flush_keys :: "redisServer \<Rightarrow> int \<Rightarrow> nat \<Rightarrow> (sds \<times> nat) list \<Rightarrow> redisServer option" where
  "touch_flush_keys s dbid c [] = Some s"
| "touch_flush_keys s dbid c ((k, i) # wks) =
     (if dbid = -1 \<or> int i = dbid then do {
        (d, de) \<leftarrow> dictFind (main_type s) (main_dict (dbs s ! i)) k;
        let s = set_main s i d;
        let s = (if de \<noteq> None then upd_client s c (\<lambda>cl. cl\<lparr>flag_dirty_cas := True\<rparr>) else s);
        touch_flush_keys s dbid c wks
      }
      else touch_flush_keys s dbid c wks)"

fun touch_flush_clients :: "redisServer \<Rightarrow> int \<Rightarrow> nat list \<Rightarrow> redisServer option" where
  "touch_flush_clients s dbid [] = Some s"
| "touch_flush_clients s dbid (c # cs) =
     do { s \<leftarrow> touch_flush_keys s dbid c (w_keys (clients s c)); touch_flush_clients s dbid cs }"

definition touchWatchedKeysOnFlush :: "redisServer \<Rightarrow> int \<Rightarrow> redisServer option" where
  "touchWatchedKeysOnFlush s dbid = touch_flush_clients s dbid (client_list s)"

definition signalModifiedKey :: "redisServer \<Rightarrow> nat \<Rightarrow> sds \<Rightarrow> redisServer option" where
  "signalModifiedKey s i key = touchWatchedKey s i key"

definition signalFlushedDb :: "redisServer \<Rightarrow> int \<Rightarrow> redisServer option" where
  "signalFlushedDb s dbid = touchWatchedKeysOnFlush s dbid"

section \<open>Lookup\<close>

definition lookupKey :: "redisServer \<Rightarrow> nat \<Rightarrow> sds \<Rightarrow> bool \<Rightarrow> (redisServer \<times> robj option) option" where
  "lookupKey s i key notouch =
     do {
       (d, de) \<leftarrow> dictFind (main_type s) (main_dict (dbs s ! i)) key;
       let s = set_main s i d;
       case de of
         None \<Rightarrow> Some (s, None)
       | Some loc \<Rightarrow>
           let val = de_val (entry_at d loc) in
           if \<not> rdb_child (env s) \<and> \<not> aof_child (env s) \<and> \<not> notouch then
             let (s, val) = (if policy_lfu (env s) then updateLFU s val else (s, val\<lparr>lru := LRU_CLOCK s\<rparr>))
             in Some (set_main s i (dictSetVal (main_type s) d loc val), Some val)
           else Some (s, Some val)
     }"

definition dbExists :: "redisServer \<Rightarrow> nat \<Rightarrow> sds \<Rightarrow> (redisServer \<times> bool) option" where
  "dbExists s i key =
     do {
       (d, de) \<leftarrow> dictFind (main_type s) (main_dict (dbs s ! i)) key;
       Some (set_main s i d, de \<noteq> None)
     }"

section \<open>Deletion\<close>

definition delete_expire :: "redisServer \<Rightarrow> nat \<Rightarrow> sds \<Rightarrow> redisServer option" where
  \<comment> \<open>\<open>if (dictSize(db->expires) > 0) dictDelete(db->expires,key->ptr)\<close>\<close>
  "delete_expire s i key =
     (if dictSize (expires (dbs s ! i)) > 0 then do {
        (d, r, fr) \<leftarrow> dictDelete (expires_type s) (expires (dbs s ! i)) key;
        Some (set_expires s i d)
      }
      else Some s)"

definition dbSyncDelete :: "redisServer \<Rightarrow> nat \<Rightarrow> sds \<Rightarrow> (redisServer \<times> bool) option" where
  "dbSyncDelete s i key =
     do {
       s \<leftarrow> delete_expire s i key;
       (d, r, fr) \<leftarrow> dictDelete (main_type s) (main_dict (dbs s ! i)) key;
       let s = set_main s i d;
       if r = DICT_OK
       then Some (if cluster_enabled (env s) then server_call s (SlotToKeyDel key) else s, True)
       else Some (s, False)
     }"

definition LAZYFREE_THRESHOLD :: nat where "LAZYFREE_THRESHOLD = 64"

definition dbAsyncDelete :: "redisServer \<Rightarrow> nat \<Rightarrow> sds \<Rightarrow> (redisServer \<times> bool) option" where
  "dbAsyncDelete s i key =
     do {
       s \<leftarrow> delete_expire s i key;
       (d, de) \<leftarrow> dictUnlink (main_type s) (main_dict (dbs s ! i)) key;
       let s = set_main s i d;
       case de of
         None \<Rightarrow> Some (s, False)
       | Some e \<Rightarrow>
           let s = (if free_effort (env s) i key > LAZYFREE_THRESHOLD \<and> refcount_at (env s) i key = 1
                    then server_call s (LazyFreeObject i key) else s)
           in Some (if cluster_enabled (env s) then server_call s (SlotToKeyDel key) else s, True)
     }"

definition dbDelete :: "redisServer \<Rightarrow> nat \<Rightarrow> sds \<Rightarrow> (redisServer \<times> bool) option" where
  "dbDelete s i key =
     (if lazyfree_lazy_server_del (env s) then dbAsyncDelete s i key else dbSyncDelete s i key)"

section \<open>Expiration\<close>

definition removeExpire :: "redisServer \<Rightarrow> nat \<Rightarrow> sds \<Rightarrow> (redisServer \<times> bool) option" where
  "removeExpire s i key =
     do {
       (d, de) \<leftarrow> dictFind (main_type s) (main_dict (dbs s ! i)) key;
       let s = set_main s i d;
       if de = None then None
       else do {
         (d, r, fr) \<leftarrow> dictDelete (expires_type s) (expires (dbs s ! i)) key;
         Some (set_expires s i d, r = DICT_OK)
       }
     }"

definition setExpire :: "redisServer \<Rightarrow> nat option \<Rightarrow> nat \<Rightarrow> sds \<Rightarrow> int \<Rightarrow> redisServer option" where
  "setExpire s c i key when =
     do {
       (d, kde) \<leftarrow> dictFind (main_type s) (main_dict (dbs s ! i)) key;
       let s = set_main s i d;
       loc \<leftarrow> kde;
       (e, de) \<leftarrow> dictAddOrFind (dict_can_resize (env s)) 0 (expires_type s) (expires (dbs s ! i))
                   (de_key (entry_at d loc));
       eloc \<leftarrow> de;
       let s = set_expires s i (dictSetVal (expires_type s) e eloc when);
       let writable_slave = (masterhost (env s) \<and> \<not> repl_slave_ro (env s));
       case c of
         None \<Rightarrow> Some s
       | Some c \<Rightarrow>
           if writable_slave \<and> \<not> flag_master (clients s c) then Some (server_call s (RememberSlaveKey i key))
           else Some s
     }"

definition getExpire :: "redisServer \<Rightarrow> nat \<Rightarrow> sds \<Rightarrow> (redisServer \<times> int) option" where
  "getExpire s i key =
     (if dictSize (expires (dbs s ! i)) = 0 then Some (s, -1)
      else do {
        (e, de) \<leftarrow> dictFind (expires_type s) (expires (dbs s ! i)) key;
        let s = set_expires s i e;
        case de of
          None \<Rightarrow> Some (s, -1)
        | Some loc \<Rightarrow> do {
            (d, kde) \<leftarrow> dictFind (main_type s) (main_dict (dbs s ! i)) key;
            if kde = None then None else Some (set_main s i d, de_val (entry_at e loc))
          }
      })"

definition propagateExpire :: "redisServer \<Rightarrow> nat \<Rightarrow> sds \<Rightarrow> bool \<Rightarrow> redisServer" where
  "propagateExpire s i key lazy =
     (let args = [if lazy then bs ''UNLINK'' else bs ''DEL'', key];
          s = (if aof_on (env s) then server_call s (FeedAppendOnlyFile (delCommand_ptr (env s)) i args) else s)
      in server_call s (FeedSlaves i args))"

definition notifyKeyspaceEvent :: "redisServer \<Rightarrow> string \<Rightarrow> sds \<Rightarrow> nat \<Rightarrow> redisServer" where
  "notifyKeyspaceEvent s event key i = server_call s (NotifyKeyspaceEvent event key i)"

definition expireIfNeeded :: "redisServer \<Rightarrow> nat \<Rightarrow> sds \<Rightarrow> (redisServer \<times> bool) option" where
  "expireIfNeeded s i key =
     do {
       (s, when) \<leftarrow> getExpire s i key;
       if when < 0 then Some (s, False)
       else if loading (env s) then Some (s, False)
       else
         let now = (if lua_caller (env s) \<noteq> None then lua_time_start (env s) else mstime (env s)) in
         if masterhost (env s) then Some (s, now > when)
         else if now \<le> when then Some (s, False)
         else
           let s = s\<lparr>stat_expiredkeys := stat_expiredkeys s + 1\<rparr>;
               s = propagateExpire s i key (lazyfree_lazy_expire (env s));
               s = notifyKeyspaceEvent s ''expired'' key i
           in if lazyfree_lazy_expire (env s) then dbAsyncDelete s i key else dbSyncDelete s i key
     }"

section \<open>Lookup with expiration\<close>

definition lookupKeyReadWithFlags ::
  "redisServer \<Rightarrow> nat \<Rightarrow> sds \<Rightarrow> bool \<Rightarrow> (redisServer \<times> robj option) option" where
  "lookupKeyReadWithFlags s i key notouch =
     do {
       (s, expired) \<leftarrow> expireIfNeeded s i key;
       if expired \<and>
          (\<not> masterhost (env s) \<or>
           (case current_client (env s) of
              None \<Rightarrow> False
            | Some c \<Rightarrow> Some c \<noteq> master (env s) \<and> cmd_readonly (c_cmd (clients s c))))
       then Some (s, None)
       else do {
         (s, val) \<leftarrow> lookupKey s i key notouch;
         case val of
           None \<Rightarrow> Some (s\<lparr>stat_keyspace_misses := stat_keyspace_misses s + 1\<rparr>, None)
         | Some v \<Rightarrow> Some (s\<lparr>stat_keyspace_hits := stat_keyspace_hits s + 1\<rparr>, Some v)
       }
     }"

definition lookupKeyRead :: "redisServer \<Rightarrow> nat \<Rightarrow> sds \<Rightarrow> (redisServer \<times> robj option) option" where
  "lookupKeyRead s i key = lookupKeyReadWithFlags s i key False"

definition lookupKeyWrite :: "redisServer \<Rightarrow> nat \<Rightarrow> sds \<Rightarrow> (redisServer \<times> robj option) option" where
  "lookupKeyWrite s i key =
     do { (s, e) \<leftarrow> expireIfNeeded s i key; lookupKey s i key False }"

section \<open>Replies\<close>

definition with_client :: "redisServer \<Rightarrow> nat \<Rightarrow> (client \<Rightarrow> client option) \<Rightarrow> redisServer option" where
  "with_client s c f = map_option (\<lambda>cl. upd_client s c (\<lambda>_. cl)) (f (clients s c))"

definition with_client_r ::
  "redisServer \<Rightarrow> nat \<Rightarrow> (client \<Rightarrow> (client \<times> 'a) option) \<Rightarrow> (redisServer \<times> 'a) option" where
  "with_client_r s c f = map_option (\<lambda>(cl, r). (upd_client s c (\<lambda>_. cl), r)) (f (clients s c))"

definition reply_shared :: "redisServer \<Rightarrow> nat \<Rightarrow> byte list \<Rightarrow> redisServer option" where
  "reply_shared s c b = with_client s c (\<lambda>cl. addReplyShared cl b)"

definition reply_error :: "redisServer \<Rightarrow> nat \<Rightarrow> string \<Rightarrow> redisServer option" where
  "reply_error s c e = with_client s c (\<lambda>cl. Some (addReplyError cl e))"

definition reply_longlong :: "redisServer \<Rightarrow> nat \<Rightarrow> int \<Rightarrow> redisServer option" where
  "reply_longlong s c n = with_client s c (\<lambda>cl. addReplyLongLong cl n)"

definition reply_bulk :: "redisServer \<Rightarrow> nat \<Rightarrow> robj \<Rightarrow> redisServer option" where
  "reply_bulk s c obj = with_client s c (\<lambda>cl. addReplyBulk cl obj)"

definition lookupKeyReadOrReply ::
  "redisServer \<Rightarrow> nat \<Rightarrow> sds \<Rightarrow> byte list \<Rightarrow> (redisServer \<times> robj option) option" where
  "lookupKeyReadOrReply s c key rep =
     do {
       (s, obj) \<leftarrow> lookupKeyRead s (c_db (clients s c)) key;
       case obj of
         None \<Rightarrow> map_option (\<lambda>s. (s, None)) (reply_shared s c rep)
       | Some obj \<Rightarrow> Some (s, Some obj)
     }"

definition lookupKeyWriteOrReply ::
  "redisServer \<Rightarrow> nat \<Rightarrow> sds \<Rightarrow> byte list \<Rightarrow> (redisServer \<times> robj option) option" where
  "lookupKeyWriteOrReply s c key rep =
     do {
       (s, obj) \<leftarrow> lookupKeyWrite s (c_db (clients s c)) key;
       case obj of
         None \<Rightarrow> map_option (\<lambda>s. (s, None)) (reply_shared s c rep)
       | Some obj \<Rightarrow> Some (s, Some obj)
     }"

section \<open>Insertion and replacement\<close>

definition dbAdd :: "redisServer \<Rightarrow> nat \<Rightarrow> sds \<Rightarrow> robj \<Rightarrow> redisServer option" where
  "dbAdd s i key val =
     do {
       (d, retval) \<leftarrow> dictAdd (dict_can_resize (env s)) val (main_type s) (main_dict (dbs s ! i)) key val;
       if retval \<noteq> DICT_OK then None
       else
         let s = set_main s i d;
             s = (if otype val = OBJ_LIST then server_call s (SignalListAsReady i key) else s)
         in Some (if cluster_enabled (env s) then server_call s (SlotToKeyAdd key) else s)
     }"

definition dbOverwrite :: "redisServer \<Rightarrow> nat \<Rightarrow> sds \<Rightarrow> robj \<Rightarrow> redisServer option" where
  "dbOverwrite s i key val =
     do {
       (d, de) \<leftarrow> dictFind (main_type s) (main_dict (dbs s ! i)) key;
       let s = set_main s i d;
       loc \<leftarrow> de;
       if policy_lfu (env s) then do {
         let saved_lru = lru (de_val (entry_at d loc));
         (d, n, fr) \<leftarrow> dictReplace (dict_can_resize (env s)) val (main_type s) d key val;
         let s = set_main s i d;
         let (s, val) = updateLFU s (val\<lparr>lru := saved_lru\<rparr>);
         obj_store s i key val
       }
       else do {
         (d, n, fr) \<leftarrow> dictReplace (dict_can_resize (env s)) val (main_type s) d key val;
         Some (set_main s i d)
       }
     }"

definition setKey :: "redisServer \<Rightarrow> nat \<Rightarrow> sds \<Rightarrow> robj \<Rightarrow> redisServer option" where
  "setKey s i key val =
     do {
       (s, old) \<leftarrow> lookupKeyWrite s i key;
       s \<leftarrow> (if old = None then dbAdd s i key val else dbOverwrite s i key val);
       (s, r) \<leftarrow> removeExpire s i key;
       signalModifiedKey s i key
     }"

definition dbUnshareStringValue ::
  "redisServer \<Rightarrow> nat \<Rightarrow> sds \<Rightarrow> robj \<Rightarrow> (redisServer \<times> robj) option" where
  "dbUnshareStringValue s i key obj =
     (if otype obj \<noteq> OBJ_STRING then None
      else if refcount_at (env s) i key \<noteq> 1 \<or> encoding obj \<noteq> OBJ_ENCODING_RAW then do {
        decoded \<leftarrow> getDecodedObject s obj;
        b \<leftarrow> (case ptr decoded of PSds b \<Rightarrow> Some b | _ \<Rightarrow> None);
        let obj = createRawStringObject s b;
        s \<leftarrow> dbOverwrite s i key obj;
        Some (s, obj)
      }
      else Some (s, obj))"

section \<open>Whole databases\<close>

definition selectDb :: "redisServer \<Rightarrow> nat \<Rightarrow> int \<Rightarrow> redisServer option" where
  \<comment> \<open>\<open>None\<close> is \<open>C_ERR\<close>\<close>
  "selectDb s c dbid =
     (if dbid < 0 \<or> dbid \<ge> int (length (dbs s)) then None
      else Some (upd_client s c (\<lambda>cl. cl\<lparr>c_db := nat dbid\<rparr>)))"

definition emptyDbAsync :: "redisServer \<Rightarrow> nat \<Rightarrow> redisServer" where
  "emptyDbAsync s j =
     (let n = dictSize (main_dict (dbs s ! j));
          s = set_expires (set_main s j dictCreate) j dictCreate
      in server_call s (LazyFreeDicts n))"

fun emptyDb_loop :: "redisServer \<Rightarrow> int \<Rightarrow> bool \<Rightarrow> nat list \<Rightarrow> nat \<Rightarrow> redisServer \<times> nat" where
  "emptyDb_loop s dbnum async [] removed = (s, removed)"
| "emptyDb_loop s dbnum async (j # js) removed =
     (if dbnum \<noteq> -1 \<and> dbnum \<noteq> int j then emptyDb_loop s dbnum async js removed
      else
        let removed = removed + dictSize (main_dict (dbs s ! j));
            s = (if async then emptyDbAsync s j
                 else
                   let s = set_main s j (fst (dictEmpty (main_type s) False (main_dict (dbs s ! j))))
                   in set_expires s j (fst (dictEmpty (expires_type s) False (expires (dbs s ! j)))))
        in emptyDb_loop s dbnum async js removed)"

definition emptyDb :: "redisServer \<Rightarrow> int \<Rightarrow> bool \<Rightarrow> redisServer \<times> int" where
  "emptyDb s dbnum async =
     (if dbnum < -1 \<or> dbnum \<ge> int (length (dbs s)) then (s, -1)
      else
        let (s, removed) = emptyDb_loop s dbnum async [0..<length (dbs s)] 0;
            s = (if cluster_enabled (env s) then server_call s (SlotToKeyFlush async) else s);
            s = (if dbnum = -1 then server_call s FlushSlaveKeys else s)
        in (s, int removed))"

definition dbSwapDatabases :: "redisServer \<Rightarrow> int \<Rightarrow> int \<Rightarrow> redisServer option" where
  \<comment> \<open>\<open>None\<close> is \<open>C_ERR\<close>\<close>
  "dbSwapDatabases s id1 id2 =
     (if id1 < 0 \<or> id1 \<ge> int (length (dbs s)) \<or> id2 < 0 \<or> id2 \<ge> int (length (dbs s)) then None
      else if id1 = id2 then Some s
      else
        let i = nat id1; j = nat id2; aux = dbs s ! i; db2 = dbs s ! j;
            s = s\<lparr>dbs := (dbs s)[i := aux\<lparr>main_dict := main_dict db2, expires := expires db2, avg_ttl := avg_ttl db2\<rparr>]\<rparr>;
            s = s\<lparr>dbs := (dbs s)[j := db2\<lparr>main_dict := main_dict aux, expires := expires aux, avg_ttl := avg_ttl aux\<rparr>]\<rparr>
        in Some (server_call (server_call s (ScanDatabaseForReadyLists i)) (ScanDatabaseForReadyLists j)))"

end
