(* ===== verification/Db_Commands.thy ===== *)
theory Db_Commands
  imports Keyspace
begin

text \<open>
  The commands that work on keys of any type (\<open>db.c\<close>) and the commands of expiration
  (\<open>expire.c\<close>). A command takes the server and the number of the calling client and returns the
  new server; \<open>None\<close> is a failed assertion or an access outside \<open>argv\<close>. The call of \<open>rdbSave\<close>
  by \<open>FLUSHALL\<close> is recorded; the value it leaves in \<open>dirty\<close> is overwritten at once.
\<close>

section \<open>Arguments and replies\<close>

definition wrap32 :: "int \<Rightarrow> int" where
  "wrap32 x = (x + 2 ^ 31) mod 2 ^ 32 - 2 ^ 31"

definition tdiv :: "int \<Rightarrow> int \<Rightarrow> int" where
  \<comment> \<open>C division truncates towards zero\<close>
  "tdiv a b = (if (a < 0) = (b < 0) then \<bar>a\<bar> div \<bar>b\<bar> else - (\<bar>a\<bar> div \<bar>b\<bar>))"

definition arg :: "redisServer \<Rightarrow> nat \<Rightarrow> nat \<Rightarrow> sds option" where
  "arg s c j = (if j < length (argv (clients s c)) then Some (argv (clients s c) ! j) else None)"

abbreviation cdb :: "redisServer \<Rightarrow> nat \<Rightarrow> nat" where
  "cdb s c \<equiv> c_db (clients s c)"

definition dirty_add :: "redisServer \<Rightarrow> int \<Rightarrow> redisServer" where
  "dirty_add s n = s\<lparr>dirty := dirty s + n\<rparr>"

definition reply_status :: "redisServer \<Rightarrow> nat \<Rightarrow> string \<Rightarrow> redisServer option" where
  "reply_status s c st = with_client s c (\<lambda>cl. Some (addReplyStatus cl st))"

text \<open>The arguments are string objects made by \<open>createStringObject\<close>.\<close>

definition argLongLongOrReply ::
  "redisServer \<Rightarrow> nat \<Rightarrow> sds \<Rightarrow> string option \<Rightarrow> (redisServer \<times> int option) option" where
  "argLongLongOrReply s c a msg =
     with_client_r s c (\<lambda>cl. getLongLongFromObjectOrReply cl (Some (createStringObject s a)) msg)"

definition argLongOrReply ::
  "redisServer \<Rightarrow> nat \<Rightarrow> sds \<Rightarrow> string option \<Rightarrow> (redisServer \<times> int option) option" where
  "argLongOrReply s c a msg =
     with_client_r s c (\<lambda>cl. getLongFromObjectOrReply cl (Some (createStringObject s a)) msg)"

definition checkTypeOrReply :: "redisServer \<Rightarrow> nat \<Rightarrow> robj \<Rightarrow> obj_type \<Rightarrow> (redisServer \<times> bool) option" where
  "checkTypeOrReply s c obj type = with_client_r s c (\<lambda>cl. checkType cl obj type)"

section \<open>Flushing\<close>

text \<open>\<open>None\<close> inside is \<open>C_ERR\<close>, \<open>Some async\<close> are the flags.\<close>

definition getFlushCommandFlags :: "redisServer \<Rightarrow> nat \<Rightarrow> (redisServer \<times> bool option) option" where
  "getFlushCommandFlags s c =
     (let args = argv (clients s c) in
      if length args > 1 then
        (if length args > 2 \<or> strcasecmp (args ! 1) (bs ''async'') \<noteq> 0
         then map_option (\<lambda>s. (s, None)) (reply_shared s c shared_syntaxerr)
         else Some (s, Some True))
      else Some (s, Some False))"

definition flushdbCommand :: "redisServer \<Rightarrow> nat \<Rightarrow> redisServer option" where
  "flushdbCommand s c =
     do {
       (s, flags) \<leftarrow> getFlushCommandFlags s c;
       case flags of
         None \<Rightarrow> Some s
       | Some async \<Rightarrow> do {
           s \<leftarrow> signalFlushedDb s (int (cdb s c));
           let (s, n) = emptyDb s (int (cdb s c)) async;
           reply_shared (dirty_add s n) c shared_ok
         }
     }"

definition flushallCommand :: "redisServer \<Rightarrow> nat \<Rightarrow> redisServer option" where
  "flushallCommand s c =
     do {
       (s, flags) \<leftarrow> getFlushCommandFlags s c;
       case flags of
         None \<Rightarrow> Some s
       | Some async \<Rightarrow> do {
           s \<leftarrow> signalFlushedDb s (-1);
           let (s, n) = emptyDb s (-1) async;
           s \<leftarrow> reply_shared (dirty_add s n) c shared_ok;
           let s = (if rdb_child (env s) then server_call s KillSaveChild else s);
           let s = (if saveparamslen (env s) > 0
                    then (let saved_dirty = wrap32 (dirty s) in (server_call s RdbSave)\<lparr>dirty := saved_dirty\<rparr>)
                    else s);
           Some (dirty_add s 1)
         }
     }"

section \<open>Deleting and counting keys\<close>

fun del_loop :: "redisServer \<Rightarrow> nat \<Rightarrow> bool \<Rightarrow> sds list \<Rightarrow> nat \<Rightarrow> (redisServer \<times> nat) option" where
  "del_loop s c lazy [] numdel = Some (s, numdel)"
| "del_loop s c lazy (k # ks) numdel =
     do {
       (s, e) \<leftarrow> expireIfNeeded s (cdb s c) k;
       (s, deleted) \<leftarrow> (if lazy then dbAsyncDelete s (cdb s c) k else dbSyncDelete s (cdb s c) k);
       if deleted then do {
         s \<leftarrow> signalModifiedKey s (cdb s c) k;
         let s = notifyKeyspaceEvent s ''del'' k (cdb s c);
         del_loop (dirty_add s 1) c lazy ks (numdel + 1)
       }
       else del_loop s c lazy ks numdel
     }"

definition delGenericCommand :: "redisServer \<Rightarrow> nat \<Rightarrow> bool \<Rightarrow> redisServer option" where
  "delGenericCommand s c lazy =
     do {
       (s, numdel) \<leftarrow> del_loop s c lazy (tl (argv (clients s c))) 0;
       reply_longlong s c (int numdel)
     }"

definition delCommand :: "redisServer \<Rightarrow> nat \<Rightarrow> redisServer option" where
  "delCommand s c = delGenericCommand s c False"

definition unlinkCommand :: "redisServer \<Rightarrow> nat \<Rightarrow> redisServer option" where
  "unlinkCommand s c = delGenericCommand s c True"

fun exists_loop :: "redisServer \<Rightarrow> nat \<Rightarrow> sds list \<Rightarrow> nat \<Rightarrow> (redisServer \<times> nat) option" where
  "exists_loop s c [] num = Some (s, num)"
| "exists_loop s c (k # ks) num =
     do {
       (s, e) \<leftarrow> expireIfNeeded s (cdb s c) k;
       (s, b) \<leftarrow> dbExists s (cdb s c) k;
       exists_loop s c ks (if b then num + 1 else num)
     }"

definition existsCommand :: "redisServer \<Rightarrow> nat \<Rightarrow> redisServer option" where
  "existsCommand s c =
     do {
       (s, num) \<leftarrow> exists_loop s c (tl (argv (clients s c))) 0;
       reply_longlong s c (int num)
     }"

section \<open>Databases\<close>

text \<open>\<open>selectDb\<close> takes an \<open>int\<close>: the index, a \<open>long\<close>, is converted.\<close>

definition selectCommand :: "redisServer \<Rightarrow> nat \<Rightarrow> redisServer option" where
  "selectCommand s c =
     do {
       a1 \<leftarrow> arg s c 1;
       (s, r) \<leftarrow> argLongOrReply s c a1 (Some ''invalid DB index'');
       case r of
         None \<Rightarrow> Some s
       | Some n \<Rightarrow>
           if cluster_enabled (env s) \<and> n \<noteq> 0 then reply_error s c ''SELECT is not allowed in cluster mode''
           else
             case selectDb s c (wrap32 n) of
               None \<Rightarrow> reply_error s c ''DB index is out of range''
             | Some s \<Rightarrow> reply_shared s c shared_ok
     }"

definition dbsizeCommand :: "redisServer \<Rightarrow> nat \<Rightarrow> redisServer option" where
  "dbsizeCommand s c = reply_longlong s c (int (dictSize (main_dict (dbs s ! cdb s c))))"

definition type_name :: "redisServer \<Rightarrow> robj option \<Rightarrow> string" where
  "type_name s obj =
     (case obj of
        None \<Rightarrow> ''none''
      | Some obj \<Rightarrow>
          (case otype obj of
             OBJ_STRING \<Rightarrow> ''string'' | OBJ_LIST \<Rightarrow> ''list'' | OBJ_SET \<Rightarrow> ''set'' | OBJ_ZSET \<Rightarrow> ''zset''
           | OBJ_HASH \<Rightarrow> ''hash'' | OBJ_MODULE \<Rightarrow> mt_name (env s) (ptr obj)))"

definition typeCommand :: "redisServer \<Rightarrow> nat \<Rightarrow> redisServer option" where
  "typeCommand s c =
     do {
       k \<leftarrow> arg s c 1;
       (s, obj) \<leftarrow> lookupKeyReadWithFlags s (cdb s c) k True;
       reply_status s c (type_name s obj)
     }"

definition swapdbCommand :: "redisServer \<Rightarrow> nat \<Rightarrow> redisServer option" where
  "swapdbCommand s c =
     (if cluster_enabled (env s) then reply_error s c ''SWAPDB is not allowed in cluster mode''
      else do {
        a1 \<leftarrow> arg s c 1;
        a2 \<leftarrow> arg s c 2;
        (s, r1) \<leftarrow> argLongOrReply s c a1 (Some ''invalid first DB index'');
        case r1 of
          None \<Rightarrow> Some s
        | Some id1 \<Rightarrow> do {
            (s, r2) \<leftarrow> argLongOrReply s c a2 (Some ''invalid second DB index'');
            case r2 of
              None \<Rightarrow> Some s
            | Some id2 \<Rightarrow>
                (case dbSwapDatabases s (wrap32 id1) (wrap32 id2) of
                   None \<Rightarrow> reply_error s c ''DB index is out of range''
                 | Some s \<Rightarrow> reply_shared (dirty_add s 1) c shared_ok)
          }
      })"

section \<open>Moving keys\<close>

definition renameGenericCommand :: "redisServer \<Rightarrow> nat \<Rightarrow> bool \<Rightarrow> redisServer option" where
  "renameGenericCommand s c nx =
     do {
       src \<leftarrow> arg s c 1;
       dst \<leftarrow> arg s c 2;
       (s, obj) \<leftarrow> lookupKeyWriteOrReply s c src shared_nokeyerr;
       case obj of
         None \<Rightarrow> Some s
       | Some obj \<Rightarrow>
           if src = dst then reply_shared s c (if nx then shared_czero else shared_ok)
           else do {
             (s, expire) \<leftarrow> getExpire s (cdb s c) src;
             (s, old) \<leftarrow> lookupKeyWrite s (cdb s c) dst;
             if old \<noteq> None \<and> nx then reply_shared s c shared_czero
             else do {
               s \<leftarrow> (if old \<noteq> None then map_option fst (dbDelete s (cdb s c) dst) else Some s);
               s \<leftarrow> dbAdd s (cdb s c) dst obj;
               s \<leftarrow> (if expire \<noteq> -1 then setExpire s (Some c) (cdb s c) dst expire else Some s);
               (s, r) \<leftarrow> dbDelete s (cdb s c) src;
               s \<leftarrow> signalModifiedKey s (cdb s c) src;
               s \<leftarrow> signalModifiedKey s (cdb s c) dst;
               let s = notifyKeyspaceEvent s ''rename_from'' src (cdb s c);
               let s = notifyKeyspaceEvent s ''rename_to'' dst (cdb s c);
               reply_shared (dirty_add s 1) c (if nx then shared_cone else shared_ok)
             }
           }
     }"

definition renameCommand :: "redisServer \<Rightarrow> nat \<Rightarrow> redisServer option" where
  "renameCommand s c = renameGenericCommand s c False"

definition renamenxCommand :: "redisServer \<Rightarrow> nat \<Rightarrow> redisServer option" where
  "renamenxCommand s c = renameGenericCommand s c True"

text \<open>The target is selected and the source selected back; only the range check of \<open>selectDb\<close> remains of it.\<close>

definition moveCommand :: "redisServer \<Rightarrow> nat \<Rightarrow> redisServer option" where
  "moveCommand s c =
     (if cluster_enabled (env s) then reply_error s c ''MOVE is not allowed in cluster mode''
      else do {
        k \<leftarrow> arg s c 1;
        a2 \<leftarrow> arg s c 2;
        let src = cdb s c;
        dbid \<leftarrow> getLongLongFromObject (Some (createStringObject s a2));
        case (case dbid of
                None \<Rightarrow> None
              | Some n \<Rightarrow> if n < -(2 ^ 31) \<or> n > 2 ^ 31 - 1 then None else selectDb s c n) of
          None \<Rightarrow> reply_shared s c shared_outofrangeerr
        | Some s \<Rightarrow> do {
            let dst = cdb s c;
            s \<leftarrow> selectDb s c (int src);
            if src = dst then reply_shared s c shared_sameobjecterr
            else do {
              (s, obj) \<leftarrow> lookupKeyWrite s (cdb s c) k;
              case obj of
                None \<Rightarrow> reply_shared s c shared_czero
              | Some obj \<Rightarrow> do {
                  (s, expire) \<leftarrow> getExpire s (cdb s c) k;
                  (s, old) \<leftarrow> lookupKeyWrite s dst k;
                  if old \<noteq> None then reply_shared s c shared_czero
                  else do {
                    s \<leftarrow> dbAdd s dst k obj;
                    s \<leftarrow> (if expire \<noteq> -1 then setExpire s (Some c) dst k expire else Some s);
                    (s, r) \<leftarrow> dbDelete s src k;
                    reply_shared (dirty_add s 1) c shared_cone
                  }
                }
            }
          }
      })"

section \<open>Expiration\<close>

definition lookupCommand :: "redisServer \<Rightarrow> sds \<Rightarrow> redisCommand option" where
  "lookupCommand s name = commands (env s) name"

definition lookupCommandOrOriginal :: "redisServer \<Rightarrow> sds \<Rightarrow> redisCommand option" where
  "lookupCommandOrOriginal s name =
     (case commands (env s) name of None \<Rightarrow> orig_commands (env s) name | Some cmd \<Rightarrow> Some cmd)"

definition rewriteClientCommandVector :: "redisServer \<Rightarrow> nat \<Rightarrow> sds list \<Rightarrow> redisServer option" where
  "rewriteClientCommandVector s c args =
     do {
       cmd \<leftarrow> lookupCommandOrOriginal s (args ! 0);
       Some (upd_client s c (\<lambda>cl. cl\<lparr>argv := args, c_cmd := cmd\<rparr>))
     }"

definition expireGenericCommand :: "redisServer \<Rightarrow> nat \<Rightarrow> int \<Rightarrow> bool \<Rightarrow> redisServer option" where
  "expireGenericCommand s c basetime unit_seconds =
     do {
       k \<leftarrow> arg s c 1;
       param \<leftarrow> arg s c 2;
       (s, r) \<leftarrow> argLongLongOrReply s c param None;
       case r of
         None \<Rightarrow> Some s
       | Some w \<Rightarrow> do {
           let w = (if unit_seconds then wrap64 (w * 1000) else w);
           let w = wrap64 (w + basetime);
           (s, obj) \<leftarrow> lookupKeyWrite s (cdb s c) k;
           if obj = None then reply_shared s c shared_czero
           else if w \<le> mstime (env s) \<and> \<not> loading (env s) \<and> \<not> masterhost (env s) then do {
             (s, deleted) \<leftarrow> (if lazyfree_lazy_expire (env s) then dbAsyncDelete s (cdb s c) k
                              else dbSyncDelete s (cdb s c) k);
             if \<not> deleted then None
             else do {
               let s = dirty_add s 1;
               s \<leftarrow> rewriteClientCommandVector s c
                      [if lazyfree_lazy_expire (env s) then bs ''UNLINK'' else bs ''DEL'', k];
               s \<leftarrow> signalModifiedKey s (cdb s c) k;
               let s = notifyKeyspaceEvent s ''del'' k (cdb s c);
               reply_shared s c shared_cone
             }
           }
           else do {
             s \<leftarrow> setExpire s (Some c) (cdb s c) k w;
             s \<leftarrow> reply_shared s c shared_cone;
             s \<leftarrow> signalModifiedKey s (cdb s c) k;
             let s = notifyKeyspaceEvent s ''expire'' k (cdb s c);
             Some (dirty_add s 1)
           }
         }
     }"

definition expireCommand :: "redisServer \<Rightarrow> nat \<Rightarrow> redisServer option" where
  "expireCommand s c = expireGenericCommand s c (mstime (env s)) True"

definition expireatCommand :: "redisServer \<Rightarrow> nat \<Rightarrow> redisServer option" where
  "expireatCommand s c = expireGenericCommand s c 0 True"

definition pexpireCommand :: "redisServer \<Rightarrow> nat \<Rightarrow> redisServer option" where
  "pexpireCommand s c = expireGenericCommand s c (mstime (env s)) False"

definition pexpireatCommand :: "redisServer \<Rightarrow> nat \<Rightarrow> redisServer option" where
  "pexpireatCommand s c = expireGenericCommand s c 0 False"

definition ttlGenericCommand :: "redisServer \<Rightarrow> nat \<Rightarrow> bool \<Rightarrow> redisServer option" where
  "ttlGenericCommand s c output_ms =
     do {
       k \<leftarrow> arg s c 1;
       (s, obj) \<leftarrow> lookupKeyReadWithFlags s (cdb s c) k True;
       if obj = None then reply_longlong s c (-2)
       else do {
         (s, expire) \<leftarrow> getExpire s (cdb s c) k;
         let ttl = (if expire \<noteq> -1
                    then (let ttl = wrap64 (expire - mstime (env s)) in if ttl < 0 then 0 else ttl) else -1);
         if ttl = -1 then reply_longlong s c (-1)
         else reply_longlong s c (if output_ms then ttl else tdiv (wrap64 (ttl + 500)) 1000)
       }
     }"

definition ttlCommand :: "redisServer \<Rightarrow> nat \<Rightarrow> redisServer option" where
  "ttlCommand s c = ttlGenericCommand s c False"

definition pttlCommand :: "redisServer \<Rightarrow> nat \<Rightarrow> redisServer option" where
  "pttlCommand s c = ttlGenericCommand s c True"

definition persistCommand :: "redisServer \<Rightarrow> nat \<Rightarrow> redisServer option" where
  "persistCommand s c =
     do {
       k \<leftarrow> arg s c 1;
       (s, obj) \<leftarrow> lookupKeyWrite s (cdb s c) k;
       if obj \<noteq> None then do {
         (s, removed) \<leftarrow> removeExpire s (cdb s c) k;
         if removed then map_option (\<lambda>s. dirty_add s 1) (reply_shared s c shared_cone)
         else reply_shared s c shared_czero
       }
       else reply_shared s c shared_czero
     }"

fun touch_loop :: "redisServer \<Rightarrow> nat \<Rightarrow> sds list \<Rightarrow> nat \<Rightarrow> (redisServer \<times> nat) option" where
  "touch_loop s c [] touched = Some (s, touched)"
| "touch_loop s c (k # ks) touched =
     do {
       (s, obj) \<leftarrow> lookupKeyRead s (cdb s c) k;
       touch_loop s c ks (if obj \<noteq> None then touched + 1 else touched)
     }"

definition touchCommand :: "redisServer \<Rightarrow> nat \<Rightarrow> redisServer option" where
  "touchCommand s c =
     do {
       (s, touched) \<leftarrow> touch_loop s c (tl (argv (clients s c))) 0;
       reply_longlong s c (int touched)
     }"

text \<open>\<open>activeExpireCycleTryExpire\<close>: one entry of \<open>expires\<close>, given by its key and its time.\<close>

definition activeExpireCycleTryExpire ::
  "redisServer \<Rightarrow> nat \<Rightarrow> sds \<Rightarrow> int \<Rightarrow> int \<Rightarrow> (redisServer \<times> bool) option" where
  "activeExpireCycleTryExpire s i key t now =
     (if now > t then do {
        let s = propagateExpire s i key (lazyfree_lazy_expire (env s));
        (s, r) \<leftarrow> (if lazyfree_lazy_expire (env s) then dbAsyncDelete s i key else dbSyncDelete s i key);
        let s = notifyKeyspaceEvent s ''expired'' key i;
        Some (s\<lparr>stat_expiredkeys := stat_expiredkeys s + 1\<rparr>, True)
      }
      else Some (s, False))"

end
