(* ===== verification/String_Commands.thy ===== *)
theory String_Commands
  imports Db_Commands
begin

text \<open>
  The string commands (\<open>t_string.c\<close>) except \<open>INCRBYFLOAT\<close>. An allocation of \<open>PTRDIFF_MAX\<close> bytes or
  more fails, which ends the process (\<open>None\<close>); smaller ones succeed.
\<close>

section \<open>Arguments and replies\<close>

definition reply_object :: "redisServer \<Rightarrow> nat \<Rightarrow> robj \<Rightarrow> redisServer option" where
  "reply_object s c obj = with_client s c (\<lambda>cl. addReply cl obj)"

definition reply_cbuffer :: "redisServer \<Rightarrow> nat \<Rightarrow> byte list \<Rightarrow> redisServer option" where
  "reply_cbuffer s c b = with_client s c (\<lambda>cl. addReplyBulkCBuffer cl b)"

definition reply_multibulk_len :: "redisServer \<Rightarrow> nat \<Rightarrow> int \<Rightarrow> redisServer option" where
  "reply_multibulk_len s c n = with_client s c (\<lambda>cl. addReplyMultiBulkLen cl n)"

text \<open>\<open>msg\<close> is the formatted message.\<close>

definition addReplyErrorFormat :: "client \<Rightarrow> byte list \<Rightarrow> client" where
  "addReplyErrorFormat c msg = addReplyErrorLength c (map (\<lambda>b. if b = 13 \<or> b = 10 then 32 else b) msg)"

definition reply_error_format :: "redisServer \<Rightarrow> nat \<Rightarrow> byte list \<Rightarrow> redisServer option" where
  "reply_error_format s c msg = with_client s c (\<lambda>cl. Some (addReplyErrorFormat cl msg))"

text \<open>\<open>c->argv[j] = tryObjectEncoding(c->argv[j])\<close>\<close>

definition encodeArg :: "redisServer \<Rightarrow> nat \<Rightarrow> sds \<Rightarrow> robj option" where
  "encodeArg s j a = tryObjectEncoding s (argv_refcount (env s) j) (createStringObject s a)"

definition checkStringLength :: "redisServer \<Rightarrow> nat \<Rightarrow> int \<Rightarrow> (redisServer \<times> bool) option" where
  \<comment> \<open>\<open>True\<close> is \<open>C_OK\<close>\<close>
  "checkStringLength s c len =
     (if len > 512 * 1024 * 1024
      then map_option (\<lambda>s. (s, False)) (reply_error s c ''string exceeds maximum allowed size (512MB)'')
      else Some (s, True))"

section \<open>SET\<close>

definition setGenericCommand ::
  "redisServer \<Rightarrow> nat \<Rightarrow> bool \<Rightarrow> bool \<Rightarrow> sds \<Rightarrow> robj \<Rightarrow> sds option \<Rightarrow> bool \<Rightarrow> byte list \<Rightarrow> byte list \<Rightarrow> redisServer option" where
  "setGenericCommand s c nx xx key val expire unit_seconds ok_reply abort_reply =
     do {
       (s, r) \<leftarrow> (case expire of None \<Rightarrow> Some (s, Some 0) | Some e \<Rightarrow> argLongLongOrReply s c e None);
       case r of
         None \<Rightarrow> Some s
       | Some milliseconds \<Rightarrow>
           if expire \<noteq> None \<and> milliseconds \<le> 0
           then reply_error_format s c (bs ''invalid expire time in '' @ bs (cmd_name (c_cmd (clients s c))))
           else do {
             let milliseconds = (if expire \<noteq> None \<and> unit_seconds then wrap64 (milliseconds * 1000) else milliseconds);
             (s, stop) \<leftarrow> (if nx then map_option (\<lambda>(s, obj). (s, obj \<noteq> None)) (lookupKeyWrite s (cdb s c) key)
                          else Some (s, False));
             (s, stop) \<leftarrow> (if \<not> stop \<and> xx
                          then map_option (\<lambda>(s, obj). (s, obj = None)) (lookupKeyWrite s (cdb s c) key)
                          else Some (s, stop));
             if stop then reply_shared s c abort_reply
             else do {
               s \<leftarrow> setKey s (cdb s c) key val;
               let s = dirty_add s 1;
               s \<leftarrow> (if expire \<noteq> None
                    then setExpire s (Some c) (cdb s c) key (wrap64 (mstime (env s) + milliseconds)) else Some s);
               let s = notifyKeyspaceEvent s ''set'' key (cdb s c);
               let s = (if expire \<noteq> None then notifyKeyspaceEvent s ''expire'' key (cdb s c) else s);
               reply_shared s c ok_reply
             }
           }
     }"

text \<open>The byte \<open>a[j]\<close> of an sds string, which has a NUL byte after its last one.\<close>

definition char_at :: "sds \<Rightarrow> nat \<Rightarrow> byte" where
  "char_at a j = (if j < length a then a ! j else 0)"

definition option_word :: "sds \<Rightarrow> byte \<Rightarrow> byte \<Rightarrow> bool" where
  \<comment> \<open>\<open>a\<close> is the lower-case letter \<open>x\<close> or its upper-case form, then the letter x or X, then NUL\<close>
  "option_word a x X \<longleftrightarrow>
     (char_at a 0 = x \<or> char_at a 0 = X) \<and> (char_at a 1 = 0x78 \<or> char_at a 1 = 0x58) \<and> char_at a 2 = 0"

record setopts =
  so_nx :: bool
  so_xx :: bool
  so_ex :: bool
  so_px :: bool
  so_seconds :: bool
  so_expire :: "sds option"

fun set_options :: "sds list \<Rightarrow> setopts \<Rightarrow> setopts option" where
  "set_options [] f = Some f"
| "set_options [a] f =
     (if option_word a 0x6E 0x4E \<and> \<not> so_xx f then Some (f\<lparr>so_nx := True\<rparr>)
      else if option_word a 0x78 0x58 \<and> \<not> so_nx f then Some (f\<lparr>so_xx := True\<rparr>)
      else None)"
| "set_options (a # nxt # rest) f =
     (if option_word a 0x6E 0x4E \<and> \<not> so_xx f then set_options (nxt # rest) (f\<lparr>so_nx := True\<rparr>)
      else if option_word a 0x78 0x58 \<and> \<not> so_nx f then set_options (nxt # rest) (f\<lparr>so_xx := True\<rparr>)
      else if option_word a 0x65 0x45 \<and> \<not> so_px f
      then set_options rest (f\<lparr>so_ex := True, so_seconds := True, so_expire := Some nxt\<rparr>)
      else if option_word a 0x70 0x50 \<and> \<not> so_ex f
      then set_options rest (f\<lparr>so_px := True, so_seconds := False, so_expire := Some nxt\<rparr>)
      else None)"

definition no_options :: setopts where
  "no_options = \<lparr>so_nx = False, so_xx = False, so_ex = False, so_px = False, so_seconds = True, so_expire = None\<rparr>"

definition setCommand :: "redisServer \<Rightarrow> nat \<Rightarrow> redisServer option" where
  "setCommand s c =
     (case set_options (drop 3 (argv (clients s c))) no_options of
        None \<Rightarrow> reply_shared s c shared_syntaxerr
      | Some f \<Rightarrow> do {
          key \<leftarrow> arg s c 1;
          a2 \<leftarrow> arg s c 2;
          val \<leftarrow> encodeArg s 2 a2;
          setGenericCommand s c (so_nx f) (so_xx f) key val (so_expire f) (so_seconds f) shared_ok shared_nullbulk
        })"

definition setnxCommand :: "redisServer \<Rightarrow> nat \<Rightarrow> redisServer option" where
  "setnxCommand s c =
     do {
       key \<leftarrow> arg s c 1;
       a2 \<leftarrow> arg s c 2;
       val \<leftarrow> encodeArg s 2 a2;
       setGenericCommand s c True False key val None True shared_cone shared_czero
     }"

definition setexCommand :: "redisServer \<Rightarrow> nat \<Rightarrow> redisServer option" where
  "setexCommand s c =
     do {
       key \<leftarrow> arg s c 1;
       a2 \<leftarrow> arg s c 2;
       a3 \<leftarrow> arg s c 3;
       val \<leftarrow> encodeArg s 3 a3;
       setGenericCommand s c False False key val (Some a2) True shared_ok shared_nullbulk
     }"

definition psetexCommand :: "redisServer \<Rightarrow> nat \<Rightarrow> redisServer option" where
  "psetexCommand s c =
     do {
       key \<leftarrow> arg s c 1;
       a2 \<leftarrow> arg s c 2;
       a3 \<leftarrow> arg s c 3;
       val \<leftarrow> encodeArg s 3 a3;
       setGenericCommand s c False False key val (Some a2) False shared_ok shared_nullbulk
     }"

section \<open>GET\<close>

definition getGenericCommand :: "redisServer \<Rightarrow> nat \<Rightarrow> (redisServer \<times> bool) option" where
  \<comment> \<open>\<open>True\<close> is \<open>C_OK\<close>\<close>
  "getGenericCommand s c =
     do {
       key \<leftarrow> arg s c 1;
       (s, obj) \<leftarrow> lookupKeyReadOrReply s c key shared_nullbulk;
       case obj of
         None \<Rightarrow> Some (s, True)
       | Some obj \<Rightarrow>
           if otype obj \<noteq> OBJ_STRING then map_option (\<lambda>s. (s, False)) (reply_shared s c shared_wrongtypeerr)
           else map_option (\<lambda>s. (s, True)) (reply_bulk s c obj)
     }"

definition getCommand :: "redisServer \<Rightarrow> nat \<Rightarrow> redisServer option" where
  "getCommand s c = map_option fst (getGenericCommand s c)"

definition getsetCommand :: "redisServer \<Rightarrow> nat \<Rightarrow> redisServer option" where
  "getsetCommand s c =
     do {
       (s, ok) \<leftarrow> getGenericCommand s c;
       if \<not> ok then Some s
       else do {
         key \<leftarrow> arg s c 1;
         a2 \<leftarrow> arg s c 2;
         val \<leftarrow> encodeArg s 2 a2;
         s \<leftarrow> setKey s (cdb s c) key val;
         let s = notifyKeyspaceEvent s ''set'' key (cdb s c);
         Some (dirty_add s 1)
       }
     }"

section \<open>Ranges\<close>

text \<open>Sizes are \<open>size_t\<close>.\<close>

definition sdsnewlen_zero :: "nat \<Rightarrow> sds option" where
  "sdsnewlen_zero n = (if n + 18 < 2 ^ 63 then Some (replicate n 0) else None)"

definition sdsgrowzero :: "sds \<Rightarrow> nat \<Rightarrow> sds option" where
  "sdsgrowzero b len =
     (if len \<le> length b then Some b
      else if len + 1024 * 1024 + 18 < 2 ^ 63 then Some (b @ replicate (len - length b) 0) else None)"

definition memcpy_at :: "sds \<Rightarrow> nat \<Rightarrow> sds \<Rightarrow> sds" where
  "memcpy_at b off val = take off b @ val @ drop (off + length val) b"

definition setrange_store :: "redisServer \<Rightarrow> nat \<Rightarrow> sds \<Rightarrow> robj \<Rightarrow> nat \<Rightarrow> sds \<Rightarrow> redisServer option" where
  \<comment> \<open>the end of the function, from \<open>if (sdslen(value) > 0)\<close> on\<close>
  "setrange_store s c key obj off val =
     do {
       b \<leftarrow> (case ptr obj of PSds b \<Rightarrow> Some b | _ \<Rightarrow> None);
       (s, b) \<leftarrow> (if length val > 0 then do {
           b \<leftarrow> sdsgrowzero b (off + length val);
           let b = memcpy_at b off val;
           s \<leftarrow> obj_store s (cdb s c) key (obj\<lparr>ptr := PSds b\<rparr>);
           s \<leftarrow> signalModifiedKey s (cdb s c) key;
           let s = notifyKeyspaceEvent s ''setrange'' key (cdb s c);
           Some (dirty_add s 1, b)
         }
         else Some (s, b));
       reply_longlong s c (int (length b))
     }"

definition setrangeCommand :: "redisServer \<Rightarrow> nat \<Rightarrow> redisServer option" where
  \<comment> \<open>\<open>offset+sdslen(value)\<close> is a \<open>size_t\<close> and becomes a \<open>long long\<close> in the length check\<close>
  "setrangeCommand s c =
     do {
       key \<leftarrow> arg s c 1;
       a2 \<leftarrow> arg s c 2;
       val \<leftarrow> arg s c 3;
       (s, r) \<leftarrow> argLongOrReply s c a2 None;
       case r of
         None \<Rightarrow> Some s
       | Some offset \<Rightarrow>
           if offset < 0 then reply_error s c ''offset is out of range''
           else do {
             (s, obj) \<leftarrow> lookupKeyWrite s (cdb s c) key;
             case obj of
               None \<Rightarrow>
                 if length val = 0 then reply_shared s c shared_czero
                 else do {
                   (s, ok) \<leftarrow> checkStringLength s c (wrap64 (offset + int (length val)));
                   if \<not> ok then Some s
                   else do {
                     b \<leftarrow> sdsnewlen_zero (nat offset + length val);
                     let obj = createObject s OBJ_STRING (PSds b);
                     s \<leftarrow> dbAdd s (cdb s c) key obj;
                     setrange_store s c key obj (nat offset) val
                   }
                 }
             | Some obj \<Rightarrow> do {
                 (s, bad) \<leftarrow> checkTypeOrReply s c obj OBJ_STRING;
                 if bad then Some s
                 else do {
                   olen \<leftarrow> stringObjectLen obj;
                   if length val = 0 then reply_longlong s c (int olen)
                   else do {
                     (s, ok) \<leftarrow> checkStringLength s c (wrap64 (offset + int (length val)));
                     if \<not> ok then Some s
                     else do {
                       (s, obj) \<leftarrow> dbUnshareStringValue s (cdb s c) key obj;
                       setrange_store s c key obj (nat offset) val
                     }
                   }
                 }
               }
           }
     }"

definition getrange_string :: "robj \<Rightarrow> byte list option" where
  \<comment> \<open>\<open>str\<close> and \<open>strlen\<close>\<close>
  "getrange_string obj =
     (if encoding obj = OBJ_ENCODING_INT
      then (case ptr obj of
              PLong n \<Rightarrow> map_option (\<lambda>(b, len). take len b) (ll2string junk32 32 n)
            | _ \<Rightarrow> None)
      else (case ptr obj of PSds b \<Rightarrow> Some b | _ \<Rightarrow> None))"

definition getrange_bounds :: "int \<Rightarrow> int \<Rightarrow> nat \<Rightarrow> (int \<times> int) option" where
  \<comment> \<open>the indices after conversion; \<open>None\<close> is the early empty reply. \<open>strlen\<close>, here \<open>len\<close>, is a \<open>size_t\<close>\<close>
  "getrange_bounds start stop len =
     (if start < 0 \<and> stop < 0 \<and> start > stop then None
      else
        let start = (if start < 0 then wrap64 (int len + start) else start);
            stop = (if stop < 0 then wrap64 (int len + stop) else stop);
            start = (if start < 0 then 0 else start);
            stop = (if stop < 0 then 0 else stop);
            stop = (if stop \<ge> int len then wrap64 (int len - 1) else stop)
        in Some (start, stop))"

definition getrangeCommand :: "redisServer \<Rightarrow> nat \<Rightarrow> redisServer option" where
  "getrangeCommand s c =
     do {
       key \<leftarrow> arg s c 1;
       a2 \<leftarrow> arg s c 2;
       a3 \<leftarrow> arg s c 3;
       (s, r) \<leftarrow> argLongLongOrReply s c a2 None;
       case r of
         None \<Rightarrow> Some s
       | Some start \<Rightarrow> do {
           (s, r) \<leftarrow> argLongLongOrReply s c a3 None;
           case r of
             None \<Rightarrow> Some s
           | Some stop \<Rightarrow> do {
               (s, obj) \<leftarrow> lookupKeyReadOrReply s c key shared_emptybulk;
               case obj of
                 None \<Rightarrow> Some s
               | Some obj \<Rightarrow> do {
                   (s, bad) \<leftarrow> checkTypeOrReply s c obj OBJ_STRING;
                   if bad then Some s
                   else do {
                     str \<leftarrow> getrange_string obj;
                     case getrange_bounds start stop (length str) of
                       None \<Rightarrow> reply_shared s c shared_emptybulk
                     | Some (start, stop) \<Rightarrow>
                         if start > stop \<or> length str = 0 then reply_shared s c shared_emptybulk
                         else reply_cbuffer s c (take (nat (stop - start + 1)) (drop (nat start) str))
                   }
                 }
             }
         }
     }"

section \<open>Several keys\<close>

fun mget_loop :: "redisServer \<Rightarrow> nat \<Rightarrow> sds list \<Rightarrow> redisServer option" where
  "mget_loop s c [] = Some s"
| "mget_loop s c (k # ks) =
     do {
       (s, obj) \<leftarrow> lookupKeyRead s (cdb s c) k;
       s \<leftarrow> (case obj of
              None \<Rightarrow> reply_shared s c shared_nullbulk
            | Some obj \<Rightarrow>
                if otype obj \<noteq> OBJ_STRING then reply_shared s c shared_nullbulk else reply_bulk s c obj);
       mget_loop s c ks
     }"

definition mgetCommand :: "redisServer \<Rightarrow> nat \<Rightarrow> redisServer option" where
  "mgetCommand s c =
     do {
       let args = argv (clients s c);
       s \<leftarrow> reply_multibulk_len s c (int (length args) - 1);
       mget_loop s c (tl args)
     }"

text \<open>The arguments from \<open>argv[j]\<close> on, two at a time.\<close>

fun msetnx_loop :: "redisServer \<Rightarrow> nat \<Rightarrow> sds list \<Rightarrow> nat \<Rightarrow> (redisServer \<times> nat) option" where
  "msetnx_loop s c (k # a # rest) busykeys =
     do {
       (s, obj) \<leftarrow> lookupKeyWrite s (cdb s c) k;
       msetnx_loop s c rest (if obj \<noteq> None then busykeys + 1 else busykeys)
     }"
| "msetnx_loop s c _ busykeys = Some (s, busykeys)"

fun mset_loop :: "redisServer \<Rightarrow> nat \<Rightarrow> nat \<Rightarrow> sds list \<Rightarrow> redisServer option" where
  "mset_loop s c j (k # a # rest) =
     do {
       val \<leftarrow> encodeArg s (j + 1) a;
       s \<leftarrow> setKey s (cdb s c) k val;
       mset_loop (notifyKeyspaceEvent s ''set'' k (cdb s c)) c (j + 2) rest
     }"
| "mset_loop s c j _ = Some s"

definition msetGenericCommand :: "redisServer \<Rightarrow> nat \<Rightarrow> bool \<Rightarrow> redisServer option" where
  "msetGenericCommand s c nx =
     (let args = argv (clients s c) in
      if length args mod 2 = 0 then reply_error s c ''wrong number of arguments for MSET''
      else do {
        (s, busykeys) \<leftarrow> (if nx then msetnx_loop s c (tl args) 0 else Some (s, 0));
        if busykeys \<noteq> 0 then reply_shared s c shared_czero
        else do {
          s \<leftarrow> mset_loop s c 1 (tl args);
          reply_shared (dirty_add s ((int (length args) - 1) div 2)) c (if nx then shared_cone else shared_ok)
        }
      })"

definition msetCommand :: "redisServer \<Rightarrow> nat \<Rightarrow> redisServer option" where
  "msetCommand s c = msetGenericCommand s c False"

definition msetnxCommand :: "redisServer \<Rightarrow> nat \<Rightarrow> redisServer option" where
  "msetnxCommand s c = msetGenericCommand s c True"

section \<open>Counters\<close>

definition incrDecrCommand :: "redisServer \<Rightarrow> nat \<Rightarrow> int \<Rightarrow> redisServer option" where
  "incrDecrCommand s c incr =
     do {
       key \<leftarrow> arg s c 1;
       (s, obj) \<leftarrow> lookupKeyWrite s (cdb s c) key;
       (s, bad) \<leftarrow> (case obj of None \<Rightarrow> Some (s, False) | Some obj \<Rightarrow> checkTypeOrReply s c obj OBJ_STRING);
       if bad then Some s
       else do {
         (s, r) \<leftarrow> with_client_r s c (\<lambda>cl. getLongLongFromObjectOrReply cl obj None);
         case r of
           None \<Rightarrow> Some s
         | Some oldvalue \<Rightarrow>
             if (incr < 0 \<and> oldvalue < 0 \<and> incr < LLONG_MIN - oldvalue) \<or>
                (incr > 0 \<and> oldvalue > 0 \<and> incr > LLONG_MAX - oldvalue)
             then reply_error s c ''increment or decrement would overflow''
             else do {
               let val = wrap64 (oldvalue + incr);
               (s, new) \<leftarrow>
                 (case obj of
                    Some obj \<Rightarrow>
                      if refcount_at (env s) (cdb s c) key = 1 \<and> encoding obj = OBJ_ENCODING_INT \<and>
                         (val < 0 \<or> val \<ge> OBJ_SHARED_INTEGERS) \<and> val \<ge> LLONG_MIN \<and> val \<le> LLONG_MAX
                      then
                        let new = obj\<lparr>ptr := PLong val\<rparr>
                        in map_option (\<lambda>s. (s, new)) (obj_store s (cdb s c) key new)
                      else
                        let new = createStringObjectFromLongLong s val
                        in map_option (\<lambda>s. (s, new)) (dbOverwrite s (cdb s c) key new)
                  | None \<Rightarrow>
                      let new = createStringObjectFromLongLong s val
                      in map_option (\<lambda>s. (s, new)) (dbAdd s (cdb s c) key new));
               s \<leftarrow> signalModifiedKey s (cdb s c) key;
               let s = notifyKeyspaceEvent s ''incrby'' key (cdb s c);
               s \<leftarrow> reply_shared (dirty_add s 1) c (bs '':'');
               s \<leftarrow> reply_object s c new;
               reply_shared s c crlf
             }
       }
     }"

definition incrCommand :: "redisServer \<Rightarrow> nat \<Rightarrow> redisServer option" where
  "incrCommand s c = incrDecrCommand s c 1"

definition decrCommand :: "redisServer \<Rightarrow> nat \<Rightarrow> redisServer option" where
  "decrCommand s c = incrDecrCommand s c (-1)"

definition incrbyCommand :: "redisServer \<Rightarrow> nat \<Rightarrow> redisServer option" where
  "incrbyCommand s c =
     do {
       a2 \<leftarrow> arg s c 2;
       (s, r) \<leftarrow> argLongLongOrReply s c a2 None;
       case r of None \<Rightarrow> Some s | Some incr \<Rightarrow> incrDecrCommand s c incr
     }"

definition decrbyCommand :: "redisServer \<Rightarrow> nat \<Rightarrow> redisServer option" where
  "decrbyCommand s c =
     do {
       a2 \<leftarrow> arg s c 2;
       (s, r) \<leftarrow> argLongLongOrReply s c a2 None;
       case r of None \<Rightarrow> Some s | Some incr \<Rightarrow> incrDecrCommand s c (wrap64 (- incr))
     }"

section \<open>APPEND and STRLEN\<close>

definition appendCommand :: "redisServer \<Rightarrow> nat \<Rightarrow> redisServer option" where
  "appendCommand s c =
     do {
       key \<leftarrow> arg s c 1;
       a2 \<leftarrow> arg s c 2;
       (s, obj) \<leftarrow> lookupKeyWrite s (cdb s c) key;
       (s, res) \<leftarrow>
         (case obj of
            None \<Rightarrow> do {
              val \<leftarrow> encodeArg s 2 a2;
              s \<leftarrow> dbAdd s (cdb s c) key val;
              totlen \<leftarrow> stringObjectLen val;
              Some (s, Some totlen)
            }
          | Some obj \<Rightarrow> do {
              (s, bad) \<leftarrow> checkTypeOrReply s c obj OBJ_STRING;
              if bad then Some (s, None)
              else do {
                olen \<leftarrow> stringObjectLen obj;
                (s, ok) \<leftarrow> checkStringLength s c (wrap64 (int olen + int (length a2)));
                if \<not> ok then Some (s, None)
                else do {
                  (s, obj) \<leftarrow> dbUnshareStringValue s (cdb s c) key obj;
                  b \<leftarrow> (case ptr obj of PSds b \<Rightarrow> Some b | _ \<Rightarrow> None);
                  s \<leftarrow> obj_store s (cdb s c) key (obj\<lparr>ptr := PSds (b @ a2)\<rparr>);
                  Some (s, Some (length (b @ a2)))
                }
              }
            });
       case res of
         None \<Rightarrow> Some s
       | Some totlen \<Rightarrow> do {
           s \<leftarrow> signalModifiedKey s (cdb s c) key;
           let s = notifyKeyspaceEvent s ''append'' key (cdb s c);
           reply_longlong (dirty_add s 1) c (int totlen)
         }
     }"

definition strlenCommand :: "redisServer \<Rightarrow> nat \<Rightarrow> redisServer option" where
  "strlenCommand s c =
     do {
       key \<leftarrow> arg s c 1;
       (s, obj) \<leftarrow> lookupKeyReadOrReply s c key shared_czero;
       case obj of
         None \<Rightarrow> Some s
       | Some obj \<Rightarrow> do {
           (s, bad) \<leftarrow> checkTypeOrReply s c obj OBJ_STRING;
           if bad then Some s
           else do { n \<leftarrow> stringObjectLen obj; reply_longlong s c (int n) }
         }
     }"

end
