(* ===== verification/Transactions.thy ===== *)
theory Transactions
  imports String_Commands
begin

text \<open>
  Transactions (\<open>multi.c\<close>) and the execution of commands (\<open>call\<close> and \<open>processCommand\<close> of \<open>server.c\<close>).

  \<open>procs\<close> stands for the commands that are not part of the model. A queue never holds \<open>EXEC\<close>, and an
  \<open>EXEC\<close> run from a queue does not return in the model. The redirection of a cluster node and the
  eviction under \<open>maxmemory\<close> are outside the model: \<open>processCommand\<close> is \<open>None\<close> where it would enter them.
\<close>

section \<open>The queue\<close>

definition queueMultiCommand :: "redisServer \<Rightarrow> nat \<Rightarrow> redisServer" where
  "queueMultiCommand s c = upd_client s c (\<lambda>cl. cl\<lparr>mstate := mstate cl @ [(c_cmd cl, argv cl)]\<rparr>)"

definition flagTransaction :: "redisServer \<Rightarrow> nat \<Rightarrow> redisServer" where
  "flagTransaction s c =
     (if flag_multi (clients s c) then upd_client s c (\<lambda>cl. cl\<lparr>flag_dirty_exec := True\<rparr>) else s)"

section \<open>Watching keys\<close>

text \<open>A write to the list of clients that watch \<open>key\<close>.\<close>

definition watched_store :: "redisServer \<Rightarrow> nat \<Rightarrow> sds \<Rightarrow> nat list \<Rightarrow> redisServer option" where
  "watched_store s i key cs =
     do {
       let d = watched_keys (dbs s ! i);
       r \<leftarrow> table_search (watched_type s) d key (hashFunction (watched_type s) key);
       loc \<leftarrow> r;
       Some (set_watched s i (dictSetVal (watched_type s) d loc cs))
     }"

definition watchForKey :: "redisServer \<Rightarrow> nat \<Rightarrow> sds \<Rightarrow> redisServer option" where
  "watchForKey s c key =
     (if list_ex (\<lambda>(k, i). i = cdb s c \<and>
            equalStringObjects (createStringObject s key) (createStringObject s k) = Some True)
          (w_keys (clients s c))
      then Some s
      else do {
        (d, cs) \<leftarrow> dictFetchValue (watched_type s) (watched_keys (dbs s ! cdb s c)) key;
        let s = set_watched s (cdb s c) d;
        s \<leftarrow> (case cs of
               None \<Rightarrow> do {
                 (d, r) \<leftarrow> dictAdd (dict_can_resize (env s)) [] (watched_type s) d key [c];
                 Some (set_watched s (cdb s c) d)
               }
             | Some cs \<Rightarrow> watched_store s (cdb s c) key (cs @ [c]));
        Some (upd_client s c (\<lambda>cl. cl\<lparr>w_keys := w_keys cl @ [(key, c_db cl)]\<rparr>))
      })"

fun unwatch_loop :: "redisServer \<Rightarrow> nat \<Rightarrow> (sds \<times> nat) list \<Rightarrow> redisServer option" where
  "unwatch_loop s c [] = Some s"
| "unwatch_loop s c ((k, i) # wks) =
     do {
       (d, cs) \<leftarrow> dictFetchValue (watched_type s) (watched_keys (dbs s ! i)) k;
       let s = set_watched s i d;
       cs \<leftarrow> cs;
       if c \<notin> set cs then None
       else do {
         let cs = remove1 c cs;
         s \<leftarrow> (if cs = [] then do {
                (d, r, fr) \<leftarrow> dictDelete (watched_type s) (watched_keys (dbs s ! i)) k;
                Some (set_watched s i d)
              }
              else watched_store s i k cs);
         unwatch_loop (upd_client s c (\<lambda>cl. cl\<lparr>w_keys := wks\<rparr>)) c wks
       }
     }"

definition unwatchAllKeys :: "redisServer \<Rightarrow> nat \<Rightarrow> redisServer option" where
  "unwatchAllKeys s c = unwatch_loop s c (w_keys (clients s c))"

definition discardTransaction :: "redisServer \<Rightarrow> nat \<Rightarrow> redisServer option" where
  "discardTransaction s c =
     unwatchAllKeys (upd_client s c (\<lambda>cl. cl\<lparr>mstate := [], flag_multi := False, flag_dirty_cas := False,
       flag_dirty_exec := False\<rparr>)) c"

fun watch_loop :: "redisServer \<Rightarrow> nat \<Rightarrow> sds list \<Rightarrow> redisServer option" where
  "watch_loop s c [] = Some s"
| "watch_loop s c (k # ks) = do { s \<leftarrow> watchForKey s c k; watch_loop s c ks }"

definition watchCommand :: "redisServer \<Rightarrow> nat \<Rightarrow> redisServer option" where
  "watchCommand s c =
     (if flag_multi (clients s c) then reply_error s c ''WATCH inside MULTI is not allowed''
      else do {
        s \<leftarrow> watch_loop s c (tl (argv (clients s c)));
        reply_shared s c shared_ok
      })"

definition unwatchCommand :: "redisServer \<Rightarrow> nat \<Rightarrow> redisServer option" where
  "unwatchCommand s c =
     do {
       s \<leftarrow> unwatchAllKeys s c;
       reply_shared (upd_client s c (\<lambda>cl. cl\<lparr>flag_dirty_cas := False\<rparr>)) c shared_ok
     }"

definition multiCommand :: "redisServer \<Rightarrow> nat \<Rightarrow> redisServer option" where
  "multiCommand s c =
     (if flag_multi (clients s c) then reply_error s c ''MULTI calls can not be nested''
      else reply_shared (upd_client s c (\<lambda>cl. cl\<lparr>flag_multi := True\<rparr>)) c shared_ok)"

definition discardCommand :: "redisServer \<Rightarrow> nat \<Rightarrow> redisServer option" where
  "discardCommand s c =
     (if \<not> flag_multi (clients s c) then reply_error s c ''DISCARD without MULTI''
      else do { s \<leftarrow> discardTransaction s c; reply_shared s c shared_ok })"

section \<open>Execution of a command\<close>

definition propagate :: "redisServer \<Rightarrow> redisCommand \<Rightarrow> nat \<Rightarrow> sds list \<Rightarrow> bool \<Rightarrow> bool \<Rightarrow> redisServer" where
  "propagate s cmd dbid args aof repl =
     (let s = (if aof_on (env s) \<and> aof then server_call s (FeedAppendOnlyFile cmd dbid args) else s)
      in if repl then server_call s (FeedSlaves dbid args) else s)"

record call_flags =
  cf_slowlog :: bool
  cf_stats :: bool
  cf_aof :: bool
  cf_repl :: bool

definition CMD_CALL_FULL :: call_flags where
  "CMD_CALL_FULL = \<lparr>cf_slowlog = True, cf_stats = True, cf_aof = True, cf_repl = True\<rparr>"

definition clear_prop_flags :: "client \<Rightarrow> client" where
  "clear_prop_flags cl =
     cl\<lparr>flag_force_aof := False, flag_force_repl := False, flag_prevent_aof_prop := False,
        flag_prevent_repl_prop := False\<rparr>"

definition call_propagate :: "redisServer \<Rightarrow> nat \<Rightarrow> call_flags \<Rightarrow> bool \<Rightarrow> redisServer" where
  \<comment> \<open>\<open>changed\<close>: the command changed the data set\<close>
  "call_propagate s c fl changed =
     (let cl = clients s c in
      if (cf_aof fl \<or> cf_repl fl) \<and> \<not> (flag_prevent_aof_prop cl \<and> flag_prevent_repl_prop cl) then
        let repl = (changed \<or> flag_force_repl cl) \<and> \<not> (flag_prevent_repl_prop cl \<or> \<not> cf_repl fl);
            aof = (changed \<or> flag_force_aof cl) \<and> \<not> (flag_prevent_aof_prop cl \<or> \<not> cf_aof fl)
        in if (aof \<or> repl) \<and> \<not> cmd_module (c_cmd cl) then propagate s (c_cmd cl) (c_db cl) (argv cl) aof repl else s
      else s)"

fun also_propagate_loop :: "redisServer \<Rightarrow> call_flags \<Rightarrow> redisOp list \<Rightarrow> redisServer" where
  "also_propagate_loop s fl [] = s"
| "also_propagate_loop s fl (rop # ops) =
     (let aof = op_aof rop \<and> cf_aof fl; repl = op_repl rop \<and> cf_repl fl;
          s = (if aof \<or> repl then propagate s (op_cmd rop) (op_dbid rop) (op_argv rop) aof repl else s)
      in also_propagate_loop s fl ops)"

definition call_after :: "redisServer \<Rightarrow> nat \<Rightarrow> call_flags \<Rightarrow> client \<Rightarrow> int \<Rightarrow> redisOp list \<Rightarrow> redisServer" where
  \<comment> \<open>\<open>call\<close> from the return of the command on; \<open>old\<close> is the client, \<open>d\<close> the value of \<open>dirty\<close> and \<open>prev\<close>
    the list of operations to propagate at the start\<close>
  "call_after s c fl old d prev =
     (let changed = dirty s - d > 0;
          cl = clients s c;
          fl = (if loading (env s) \<and> flag_lua cl then fl\<lparr>cf_slowlog := False, cf_stats := False\<rparr> else fl);
          s = (case lua_caller (env s) of
                 None \<Rightarrow> s
               | Some lc \<Rightarrow>
                   if flag_lua cl then
                     let s = (if flag_force_repl cl then upd_client s lc (\<lambda>x. x\<lparr>flag_force_repl := True\<rparr>) else s)
                     in if flag_force_aof cl then upd_client s lc (\<lambda>x. x\<lparr>flag_force_aof := True\<rparr>) else s
                   else s);
          s = (if cf_slowlog fl \<and> cmd_proc (c_cmd cl) \<noteq> P_exec
               then server_call s (LatencyAndSlowlog (c_db cl) (argv cl)) else s);
          s = (if cf_stats fl then server_call s (CommandStats (c_lastcmd cl)) else s);
          s = call_propagate s c fl changed;
          s = upd_client s c (\<lambda>x. x\<lparr>flag_force_aof := flag_force_aof old, flag_force_repl := flag_force_repl old,
                 flag_prevent_aof_prop := flag_prevent_aof_prop old,
                 flag_prevent_repl_prop := flag_prevent_repl_prop old\<rparr>);
          s = (if cf_aof fl \<or> cf_repl fl then also_propagate_loop s fl (also_propagate s) else s)
      in s\<lparr>also_propagate := prev, stat_numcommands := stat_numcommands s + 1\<rparr>)"

definition call_with ::
  "(command_proc \<Rightarrow> redisServer \<Rightarrow> nat \<Rightarrow> redisServer option) \<Rightarrow> redisServer \<Rightarrow> nat \<Rightarrow> call_flags \<Rightarrow> redisServer option" where
  "call_with run s c fl =
     do {
       let old = clients s c;
       let s = (if monitors (env s) \<and> \<not> loading (env s) \<and> \<not> (cmd_skip_monitor (c_cmd old) \<or> cmd_admin (c_cmd old))
                then server_call s (FeedMonitors (c_db old) (argv old)) else s);
       let s = upd_client s c clear_prop_flags;
       let prev = also_propagate s;
       let s = s\<lparr>also_propagate := []\<rparr>;
       let d = dirty s;
       s \<leftarrow> run (cmd_proc (c_cmd (clients s c))) s c;
       Some (call_after s c fl old d prev)
     }"

definition basic_proc ::
  "(command_proc \<Rightarrow> redisServer \<Rightarrow> nat \<Rightarrow> redisServer option) \<Rightarrow> command_proc \<Rightarrow> redisServer \<Rightarrow> nat \<Rightarrow> redisServer option" where
  "basic_proc procs p s c =
     (case p of
        P_get \<Rightarrow> getCommand s c | P_set \<Rightarrow> setCommand s c | P_setnx \<Rightarrow> setnxCommand s c
      | P_setex \<Rightarrow> setexCommand s c | P_psetex \<Rightarrow> psetexCommand s c | P_getset \<Rightarrow> getsetCommand s c
      | P_append \<Rightarrow> appendCommand s c | P_strlen \<Rightarrow> strlenCommand s c | P_setrange \<Rightarrow> setrangeCommand s c
      | P_getrange \<Rightarrow> getrangeCommand s c | P_mget \<Rightarrow> mgetCommand s c | P_mset \<Rightarrow> msetCommand s c
      | P_msetnx \<Rightarrow> msetnxCommand s c | P_incr \<Rightarrow> incrCommand s c | P_decr \<Rightarrow> decrCommand s c
      | P_incrby \<Rightarrow> incrbyCommand s c | P_decrby \<Rightarrow> decrbyCommand s c | P_del \<Rightarrow> delCommand s c
      | P_unlink \<Rightarrow> unlinkCommand s c | P_exists \<Rightarrow> existsCommand s c | P_touch \<Rightarrow> touchCommand s c
      | P_type \<Rightarrow> typeCommand s c | P_select \<Rightarrow> selectCommand s c | P_dbsize \<Rightarrow> dbsizeCommand s c
      | P_rename \<Rightarrow> renameCommand s c | P_renamenx \<Rightarrow> renamenxCommand s c | P_move \<Rightarrow> moveCommand s c
      | P_swapdb \<Rightarrow> swapdbCommand s c | P_flushdb \<Rightarrow> flushdbCommand s c | P_flushall \<Rightarrow> flushallCommand s c
      | P_expire \<Rightarrow> expireCommand s c | P_expireat \<Rightarrow> expireatCommand s c | P_pexpire \<Rightarrow> pexpireCommand s c
      | P_pexpireat \<Rightarrow> pexpireatCommand s c | P_ttl \<Rightarrow> ttlCommand s c | P_pttl \<Rightarrow> pttlCommand s c
      | P_persist \<Rightarrow> persistCommand s c | P_multi \<Rightarrow> multiCommand s c | P_discard \<Rightarrow> discardCommand s c
      | P_watch \<Rightarrow> watchCommand s c | P_unwatch \<Rightarrow> unwatchCommand s c
      | P_exec \<Rightarrow> None
      | p \<Rightarrow> procs p s c)"

section \<open>EXEC\<close>

definition execCommandPropagateMulti :: "redisServer \<Rightarrow> nat \<Rightarrow> redisServer" where
  "execCommandPropagateMulti s c = propagate s (multiCommand_ptr (env s)) (cdb s c) [bs ''MULTI''] True True"

fun exec_loop ::
  "(command_proc \<Rightarrow> redisServer \<Rightarrow> nat \<Rightarrow> redisServer option) \<Rightarrow> redisServer \<Rightarrow> nat \<Rightarrow> (redisCommand \<times> sds list) list \<Rightarrow>
   bool \<Rightarrow> (redisServer \<times> bool) option" where
  \<comment> \<open>the queue is dropped after the loop, so writing back the arguments is not modelled\<close>
  "exec_loop procs s c [] must_propagate = Some (s, must_propagate)"
| "exec_loop procs s c ((cmd, args) # q) must_propagate =
     do {
       let s = upd_client s c (\<lambda>cl. cl\<lparr>argv := args, c_cmd := cmd\<rparr>);
       let start = (\<not> must_propagate \<and> \<not> (cmd_readonly cmd \<or> cmd_admin cmd));
       let s = (if start then execCommandPropagateMulti s c else s);
       s \<leftarrow> call_with (basic_proc procs) s c CMD_CALL_FULL;
       exec_loop procs s c q (must_propagate \<or> start)
     }"

definition handle_monitor :: "redisServer \<Rightarrow> nat \<Rightarrow> redisServer" where
  "handle_monitor s c =
     (if monitors (env s) \<and> \<not> loading (env s) then server_call s (FeedMonitors (cdb s c) (argv (clients s c))) else s)"

definition execCommand ::
  "(command_proc \<Rightarrow> redisServer \<Rightarrow> nat \<Rightarrow> redisServer option) \<Rightarrow> redisServer \<Rightarrow> nat \<Rightarrow> redisServer option" where
  "execCommand procs s c =
     (let was_master = \<not> masterhost (env s) in
      if \<not> flag_multi (clients s c) then reply_error s c ''EXEC without MULTI''
      else if flag_dirty_cas (clients s c) \<or> flag_dirty_exec (clients s c) then do {
        s \<leftarrow> reply_shared s c (if flag_dirty_exec (clients s c) then shared_execaborterr else shared_nullmultibulk);
        s \<leftarrow> discardTransaction s c;
        Some (handle_monitor s c)
      }
      else do {
        s \<leftarrow> unwatchAllKeys s c;
        let orig = clients s c;
        s \<leftarrow> reply_multibulk_len s c (int (length (mstate orig)));
        (s, must_propagate) \<leftarrow> exec_loop procs s c (mstate orig) False;
        let s = upd_client s c (\<lambda>cl. cl\<lparr>argv := argv orig, c_cmd := c_cmd orig\<rparr>);
        s \<leftarrow> discardTransaction s c;
        let s = (if must_propagate then
                   let is_master = \<not> masterhost (env s); s = dirty_add s 1
                   in if repl_backlog (env s) \<and> was_master \<and> \<not> is_master then server_call s FeedExecToBacklog else s
                 else s);
        Some (handle_monitor s c)
      })"

definition proc ::
  "(command_proc \<Rightarrow> redisServer \<Rightarrow> nat \<Rightarrow> redisServer option) \<Rightarrow> command_proc \<Rightarrow> redisServer \<Rightarrow> nat \<Rightarrow> redisServer option" where
  "proc procs p s c = (if p = P_exec then execCommand procs s c else basic_proc procs p s c)"

definition call ::
  "(command_proc \<Rightarrow> redisServer \<Rightarrow> nat \<Rightarrow> redisServer option) \<Rightarrow> redisServer \<Rightarrow> nat \<Rightarrow> call_flags \<Rightarrow> redisServer option" where
  "call procs = call_with (proc procs)"

section \<open>Accepting a command\<close>

definition shared_noautherr :: "byte list" where "shared_noautherr = bs ''-NOAUTH Authentication required.'' @ crlf"
definition shared_bgsaveerr :: "byte list" where
  "shared_bgsaveerr = bs ''-MISCONF Redis is configured to save RDB snapshots, but it is currently not able to persist on disk. Commands that may modify the data set are disabled, because this instance is configured to report errors during writes if RDB snapshotting fails (stop-writes-on-bgsave-error option). Please check the Redis logs for details about the RDB error.'' @ crlf"
definition shared_noreplicaserr :: "byte list" where
  "shared_noreplicaserr = bs ''-NOREPLICAS Not enough good slaves to write.'' @ crlf"
definition shared_roslaveerr :: "byte list" where
  "shared_roslaveerr = bs ''-READONLY You can'' @ [39] @ bs ''t write against a read only slave.'' @ crlf"
definition shared_masterdownerr :: "byte list" where
  "shared_masterdownerr = bs ''-MASTERDOWN Link with MASTER is down and slave-serve-stale-data is set to '' @ [39] @ bs ''no'' @ [39] @ bs ''.'' @ crlf"
definition shared_loadingerr :: "byte list" where
  "shared_loadingerr = bs ''-LOADING Redis is loading the dataset in memory'' @ crlf"
definition shared_slowscripterr :: "byte list" where
  "shared_slowscripterr = bs ''-BUSY Redis is busy running a script. You can only call SCRIPT KILL or SHUTDOWN NOSAVE.'' @ crlf"

text \<open>\<open>%s\<close> prints an argument up to its first NUL byte. 39 is the quotation mark.\<close>

definition c_string :: "sds \<Rightarrow> byte list" where "c_string a = take (strlen a) a"

definition unknown_command :: "sds \<Rightarrow> byte list" where
  "unknown_command a = bs ''unknown command '' @ [39] @ c_string a @ [39]"

definition wrong_arity :: "redisCommand \<Rightarrow> byte list" where
  "wrong_arity cmd = bs ''wrong number of arguments for '' @ [39] @ bs (cmd_name cmd) @ [39] @ bs '' command''"

definition aof_error :: "redisServer \<Rightarrow> byte list" where
  "aof_error s = bs ''-MISCONF Errors writing to the AOF file: '' @ bs (aof_last_write_error (env s)) @ crlf"

text \<open>
  The checks between the lookup of the command and its execution, in the order of the code: the error,
  with the function that sends it, and whether the transaction is flagged.
\<close>

datatype refusal = Refuse_addReply "byte list" | Refuse_addReplySds "byte list" | Refuse_addReplyError string

definition slow_script_allows :: "redisCommand \<Rightarrow> sds list \<Rightarrow> bool" where
  "slow_script_allows cmd args \<longleftrightarrow>
     cmd_proc cmd = P_auth \<or> cmd_proc cmd = P_replconf \<or>
     (cmd_proc cmd = P_shutdown \<and> length args = 2 \<and> siptlw (uint (char_at (args ! 1) 0)) = 0x6E) \<or>
     (cmd_proc cmd = P_script \<and> length args = 2 \<and> siptlw (uint (char_at (args ! 1) 0)) = 0x6B)"

definition refuse :: "redisServer \<Rightarrow> nat \<Rightarrow> redisCommand \<Rightarrow> (refusal \<times> bool) option" where
  "refuse s c cmd =
     (let e = env s; cl = clients s c in
      if ((stop_writes_on_bgsave_err e \<and> saveparamslen e > 0 \<and> \<not> lastbgsave_ok e) \<or> \<not> aof_last_write_ok e) \<and>
         \<not> masterhost e \<and> (cmd_write cmd \<or> cmd_proc cmd = P_ping)
      then Some (if aof_last_write_ok e then Refuse_addReply shared_bgsaveerr else Refuse_addReplySds (aof_error s), True)
      else if \<not> masterhost e \<and> repl_min_slaves_to_write e \<noteq> 0 \<and> repl_min_slaves_max_lag e \<noteq> 0 \<and> cmd_write cmd \<and>
              repl_good_slaves_count e < repl_min_slaves_to_write e
      then Some (Refuse_addReply shared_noreplicaserr, True)
      else if masterhost e \<and> repl_slave_ro e \<and> \<not> flag_master cl \<and> cmd_write cmd
      then Some (Refuse_addReply shared_roslaveerr, False)
      else if flag_pubsub cl \<and> cmd_proc cmd \<noteq> P_ping \<and> cmd_proc cmd \<noteq> P_subscribe \<and>
              cmd_proc cmd \<noteq> P_unsubscribe \<and> cmd_proc cmd \<noteq> P_psubscribe \<and> cmd_proc cmd \<noteq> P_punsubscribe
      then Some (Refuse_addReplyError ''only (P)SUBSCRIBE / (P)UNSUBSCRIBE / PING / QUIT allowed in this context'', False)
      else if masterhost e \<and> \<not> repl_connected e \<and> \<not> repl_serve_stale_data e \<and> \<not> cmd_stale cmd
      then Some (Refuse_addReply shared_masterdownerr, True)
      else if loading e \<and> \<not> cmd_loading cmd then Some (Refuse_addReply shared_loadingerr, False)
      else if lua_timedout e \<and> \<not> slow_script_allows cmd (argv cl) then Some (Refuse_addReply shared_slowscripterr, True)
      else None)"

definition send_refusal :: "redisServer \<Rightarrow> nat \<Rightarrow> refusal \<Rightarrow> redisServer option" where
  "send_refusal s c r =
     (case r of
        Refuse_addReply b \<Rightarrow> reply_shared s c b
      | Refuse_addReplySds b \<Rightarrow> with_client s c (\<lambda>cl. Some (addReplySds cl b))
      | Refuse_addReplyError e \<Rightarrow> reply_error s c e)"

definition redirects :: "redisServer \<Rightarrow> nat \<Rightarrow> redisCommand \<Rightarrow> bool" where
  \<comment> \<open>the command enters the redirection of a cluster node\<close>
  "redirects s c cmd \<longleftrightarrow>
     cluster_enabled (env s) \<and> \<not> flag_master (clients s c) \<and>
     \<not> (flag_lua (clients s c) \<and> (case lua_caller (env s) of None \<Rightarrow> False | Some lc \<Rightarrow> flag_master (clients s lc))) \<and>
     \<not> (\<not> cmd_has_keys cmd \<and> cmd_proc cmd \<noteq> P_exec)"

definition processCommand ::
  "(command_proc \<Rightarrow> redisServer \<Rightarrow> nat \<Rightarrow> redisServer option) \<Rightarrow> redisServer \<Rightarrow> nat \<Rightarrow> (redisServer \<times> bool) option" where
  \<comment> \<open>\<open>True\<close> is \<open>C_OK\<close>. When the command is unknown, \<open>c->cmd\<close> is left as it is; \<open>c->woff\<close> is not part of the model\<close>
  "processCommand procs s c =
     do {
       a0 \<leftarrow> arg s c 0;
       let argc = int (length (argv (clients s c)));
       if strcasecmp a0 (bs ''quit'') = 0 then do {
         s \<leftarrow> reply_shared s c shared_ok;
         Some (upd_client s c (\<lambda>cl. cl\<lparr>flag_close_after_reply := True\<rparr>), False)
       }
       else
         case lookupCommand s a0 of
           None \<Rightarrow> map_option (\<lambda>s. (s, True)) (reply_error_format (flagTransaction s c) c (unknown_command a0))
         | Some cmd \<Rightarrow> do {
             let s = upd_client s c (\<lambda>cl. cl\<lparr>c_cmd := cmd, c_lastcmd := cmd\<rparr>);
             if (cmd_arity cmd > 0 \<and> cmd_arity cmd \<noteq> argc) \<or> argc < - cmd_arity cmd
             then map_option (\<lambda>s. (s, True)) (reply_error_format (flagTransaction s c) c (wrong_arity cmd))
             else if requirepass (env s) \<and> \<not> authenticated (clients s c) \<and> cmd_proc cmd \<noteq> P_auth
             then map_option (\<lambda>s. (s, True)) (reply_shared (flagTransaction s c) c shared_noautherr)
             else if redirects s c cmd \<or> maxmemory (env s) \<noteq> 0 then None
             else
               case refuse s c cmd of
                 Some (err, flag) \<Rightarrow>
                   map_option (\<lambda>s. (s, True)) (send_refusal (if flag then flagTransaction s c else s) c err)
               | None \<Rightarrow>
                   if flag_multi (clients s c) \<and> cmd_proc cmd \<noteq> P_exec \<and> cmd_proc cmd \<noteq> P_discard \<and>
                      cmd_proc cmd \<noteq> P_multi \<and> cmd_proc cmd \<noteq> P_watch
                   then map_option (\<lambda>s. (s, True)) (reply_shared (queueMultiCommand s c) c shared_queued)
                   else do {
                     s \<leftarrow> call procs s c CMD_CALL_FULL;
                     Some (server_call s HandleReadyLists, True)
                   }
           }
     }"

end
