(* ===== verification/Command_Table.thy ===== *)
theory Command_Table
  imports Transactions
begin

text \<open>
  The start of the server: the table of commands (\<open>redisCommandTable\<close> and \<open>populateCommandTable\<close>), the
  databases of \<open>initServer\<close> and the clients of \<open>createClient\<close>. An entry of the table has the name, the
  procedure, the arity, the flags as a string, and whether the command has keys (\<open>getkeys_proc\<close> is
  set or \<open>firstkey\<close> is not 0). \<open>P_other n\<close> is a procedure that is not part of the model.
\<close>

section \<open>The table of commands\<close>

definition redisCommandTable :: "(string \<times> command_proc \<times> int \<times> string \<times> bool) list" where
  "redisCommandTable =
    [(''module'', P_other 0, -2, ''as'', False), (''get'', P_get, 2, ''rF'', True),
     (''set'', P_set, -3, ''wm'', True), (''setnx'', P_setnx, 3, ''wmF'', True),
     (''setex'', P_setex, 4, ''wm'', True), (''psetex'', P_psetex, 4, ''wm'', True),
     (''append'', P_append, 3, ''wm'', True), (''strlen'', P_strlen, 2, ''rF'', True),
     (''del'', P_del, -2, ''w'', True), (''unlink'', P_unlink, -2, ''wF'', True),
     (''exists'', P_exists, -2, ''rF'', True), (''setbit'', P_other 1, 4, ''wm'', True),
     (''getbit'', P_other 2, 3, ''rF'', True), (''bitfield'', P_other 3, -2, ''wm'', True),
     (''setrange'', P_setrange, 4, ''wm'', True), (''getrange'', P_getrange, 4, ''r'', True),
     (''substr'', P_getrange, 4, ''r'', True), (''incr'', P_incr, 2, ''wmF'', True),
     (''decr'', P_decr, 2, ''wmF'', True), (''mget'', P_mget, -2, ''rF'', True),
     (''rpush'', P_other 4, -3, ''wmF'', True), (''lpush'', P_other 5, -3, ''wmF'', True),
     (''rpushx'', P_other 6, -3, ''wmF'', True), (''lpushx'', P_other 7, -3, ''wmF'', True),
     (''linsert'', P_other 8, 5, ''wm'', True), (''rpop'', P_other 9, 2, ''wF'', True),
     (''lpop'', P_other 10, 2, ''wF'', True), (''brpop'', P_other 11, -3, ''ws'', True),
     (''brpoplpush'', P_other 12, 4, ''wms'', True), (''blpop'', P_other 13, -3, ''ws'', True),
     (''llen'', P_other 14, 2, ''rF'', True), (''lindex'', P_other 15, 3, ''r'', True),
     (''lset'', P_other 16, 4, ''wm'', True), (''lrange'', P_other 17, 4, ''r'', True),
     (''ltrim'', P_other 18, 4, ''w'', True), (''lrem'', P_other 19, 4, ''w'', True),
     (''rpoplpush'', P_other 20, 3, ''wm'', True), (''sadd'', P_other 21, -3, ''wmF'', True),
     (''srem'', P_other 22, -3, ''wF'', True), (''smove'', P_other 23, 4, ''wF'', True),
     (''sismember'', P_other 24, 3, ''rF'', True), (''scard'', P_other 25, 2, ''rF'', True),
     (''spop'', P_other 26, -2, ''wRF'', True), (''srandmember'', P_other 27, -2, ''rR'', True),
     (''sinter'', P_other 28, -2, ''rS'', True), (''sinterstore'', P_other 29, -3, ''wm'', True),
     (''sunion'', P_other 30, -2, ''rS'', True), (''sunionstore'', P_other 31, -3, ''wm'', True),
     (''sdiff'', P_other 32, -2, ''rS'', True), (''sdiffstore'', P_other 33, -3, ''wm'', True),
     (''smembers'', P_other 28, 2, ''rS'', True), (''sscan'', P_other 34, -3, ''rR'', True),
     (''zadd'', P_other 35, -4, ''wmF'', True), (''zincrby'', P_other 36, 4, ''wmF'', True),
     (''zrem'', P_other 37, -3, ''wF'', True), (''zremrangebyscore'', P_other 38, 4, ''w'', True),
     (''zremrangebyrank'', P_other 39, 4, ''w'', True), (''zremrangebylex'', P_other 40, 4, ''w'', True),
     (''zunionstore'', P_other 41, -4, ''wm'', True), (''zinterstore'', P_other 42, -4, ''wm'', True),
     (''zrange'', P_other 43, -4, ''r'', True), (''zrangebyscore'', P_other 44, -4, ''r'', True),
     (''zrevrangebyscore'', P_other 45, -4, ''r'', True), (''zrangebylex'', P_other 46, -4, ''r'', True),
     (''zrevrangebylex'', P_other 47, -4, ''r'', True), (''zcount'', P_other 48, 4, ''rF'', True),
     (''zlexcount'', P_other 49, 4, ''rF'', True), (''zrevrange'', P_other 50, -4, ''r'', True),
     (''zcard'', P_other 51, 2, ''rF'', True), (''zscore'', P_other 52, 3, ''rF'', True),
     (''zrank'', P_other 53, 3, ''rF'', True), (''zrevrank'', P_other 54, 3, ''rF'', True),
     (''zscan'', P_other 55, -3, ''rR'', True), (''hset'', P_other 56, -4, ''wmF'', True),
     (''hsetnx'', P_other 57, 4, ''wmF'', True), (''hget'', P_other 58, 3, ''rF'', True),
     (''hmset'', P_other 56, -4, ''wmF'', True), (''hmget'', P_other 59, -3, ''rF'', True),
     (''hincrby'', P_other 60, 4, ''wmF'', True), (''hincrbyfloat'', P_other 61, 4, ''wmF'', True),
     (''hdel'', P_other 62, -3, ''wF'', True), (''hlen'', P_other 63, 2, ''rF'', True),
     (''hstrlen'', P_other 64, 3, ''rF'', True), (''hkeys'', P_other 65, 2, ''rS'', True),
     (''hvals'', P_other 66, 2, ''rS'', True), (''hgetall'', P_other 67, 2, ''r'', True),
     (''hexists'', P_other 68, 3, ''rF'', True), (''hscan'', P_other 69, -3, ''rR'', True),
     (''incrby'', P_incrby, 3, ''wmF'', True), (''decrby'', P_decrby, 3, ''wmF'', True),
     (''incrbyfloat'', P_other 70, 3, ''wmF'', True), (''getset'', P_getset, 3, ''wm'', True),
     (''mset'', P_mset, -3, ''wm'', True), (''msetnx'', P_msetnx, -3, ''wm'', True),
     (''randomkey'', P_other 71, 1, ''rR'', False), (''select'', P_select, 2, ''lF'', False),
     (''swapdb'', P_swapdb, 3, ''wF'', False), (''move'', P_move, 3, ''wF'', True),
     (''rename'', P_rename, 3, ''w'', True), (''renamenx'', P_renamenx, 3, ''wF'', True),
     (''expire'', P_expire, 3, ''wF'', True), (''expireat'', P_expireat, 3, ''wF'', True),
     (''pexpire'', P_pexpire, 3, ''wF'', True), (''pexpireat'', P_pexpireat, 3, ''wF'', True),
     (''keys'', P_other 72, 2, ''rS'', False), (''scan'', P_other 73, -2, ''rR'', False),
     (''dbsize'', P_dbsize, 1, ''rF'', False), (''auth'', P_auth, 2, ''sltF'', False),
     (''ping'', P_ping, -1, ''tF'', False), (''echo'', P_other 74, 2, ''F'', False),
     (''save'', P_other 75, 1, ''as'', False), (''bgsave'', P_other 76, -1, ''a'', False),
     (''bgrewriteaof'', P_other 77, 1, ''a'', False), (''shutdown'', P_shutdown, -1, ''alt'', False),
     (''lastsave'', P_other 78, 1, ''RF'', False), (''type'', P_type, 2, ''rF'', True),
     (''multi'', P_multi, 1, ''sF'', False), (''exec'', P_exec, 1, ''sM'', False),
     (''discard'', P_discard, 1, ''sF'', False), (''sync'', P_other 79, 1, ''ars'', False),
     (''psync'', P_other 79, 3, ''ars'', False), (''replconf'', P_replconf, -1, ''aslt'', False),
     (''flushdb'', P_flushdb, -1, ''w'', False), (''flushall'', P_flushall, -1, ''w'', False),
     (''sort'', P_other 80, -2, ''wm'', True), (''info'', P_other 81, -1, ''lt'', False),
     (''monitor'', P_other 82, 1, ''as'', False), (''ttl'', P_ttl, 2, ''rF'', True),
     (''touch'', P_touch, -2, ''rF'', True), (''pttl'', P_pttl, 2, ''rF'', True),
     (''persist'', P_persist, 2, ''wF'', True), (''slaveof'', P_other 83, 3, ''ast'', False),
     (''role'', P_other 84, 1, ''lst'', False), (''debug'', P_other 85, -1, ''as'', False),
     (''config'', P_other 86, -2, ''lat'', False), (''subscribe'', P_subscribe, -2, ''pslt'', False),
     (''unsubscribe'', P_unsubscribe, -1, ''pslt'', False), (''psubscribe'', P_psubscribe, -2, ''pslt'', False),
     (''punsubscribe'', P_punsubscribe, -1, ''pslt'', False), (''publish'', P_other 87, 3, ''pltF'', False),
     (''pubsub'', P_other 88, -2, ''pltR'', False), (''watch'', P_watch, -2, ''sF'', True),
     (''unwatch'', P_unwatch, 1, ''sF'', False), (''cluster'', P_other 89, -2, ''a'', False),
     (''restore'', P_other 90, -4, ''wm'', True), (''restore-asking'', P_other 90, -4, ''wmk'', True),
     (''migrate'', P_other 91, -6, ''w'', True), (''asking'', P_other 92, 1, ''F'', False),
     (''readonly'', P_other 93, 1, ''F'', False), (''readwrite'', P_other 94, 1, ''F'', False),
     (''dump'', P_other 95, 2, ''r'', True), (''object'', P_other 96, -2, ''r'', True),
     (''memory'', P_other 97, -2, ''r'', False), (''client'', P_other 98, -2, ''as'', False),
     (''eval'', P_other 99, -3, ''s'', True), (''evalsha'', P_other 100, -3, ''s'', True),
     (''slowlog'', P_other 101, -2, ''a'', False), (''script'', P_script, -2, ''s'', False),
     (''time'', P_other 102, 1, ''RF'', False), (''bitop'', P_other 103, -4, ''wm'', True),
     (''bitcount'', P_other 104, -2, ''r'', True), (''bitpos'', P_other 105, -3, ''r'', True),
     (''wait'', P_other 106, 3, ''s'', False), (''command'', P_other 107, 0, ''lt'', False),
     (''geoadd'', P_other 108, -5, ''wm'', True), (''georadius'', P_other 109, -6, ''w'', True),
     (''georadius_ro'', P_other 110, -6, ''r'', True), (''georadiusbymember'', P_other 111, -5, ''w'', True),
     (''georadiusbymember_ro'', P_other 112, -5, ''r'', True), (''geohash'', P_other 113, -2, ''r'', True),
     (''geopos'', P_other 114, -2, ''r'', True), (''geodist'', P_other 115, -4, ''r'', True),
     (''pfselftest'', P_other 116, 1, ''a'', False), (''pfadd'', P_other 117, -2, ''wmF'', True),
     (''pfcount'', P_other 118, -2, ''r'', True), (''pfmerge'', P_other 119, -2, ''wm'', True),
     (''pfdebug'', P_other 120, -3, ''w'', False), (''post'', P_other 121, -1, ''lt'', False),
     (''host:'', P_other 121, -1, ''lt'', False), (''latency'', P_other 122, -2, ''aslt'', False)]"

text \<open>\<open>None\<close> is \<open>serverPanic\<close>. The flags \<open>p\<close>, \<open>s\<close>, \<open>R\<close>, \<open>S\<close> and \<open>k\<close> have no field in the model.\<close>

definition parse_flag :: "redisCommand \<Rightarrow> char \<Rightarrow> redisCommand option" where
  "parse_flag cmd f =
     (if f = CHR ''w'' then Some (cmd\<lparr>cmd_write := True\<rparr>)
      else if f = CHR ''r'' then Some (cmd\<lparr>cmd_readonly := True\<rparr>)
      else if f = CHR ''m'' then Some (cmd\<lparr>cmd_denyoom := True\<rparr>)
      else if f = CHR ''a'' then Some (cmd\<lparr>cmd_admin := True\<rparr>)
      else if f = CHR ''p'' then Some cmd
      else if f = CHR ''s'' then Some cmd
      else if f = CHR ''R'' then Some cmd
      else if f = CHR ''S'' then Some cmd
      else if f = CHR ''l'' then Some (cmd\<lparr>cmd_loading := True\<rparr>)
      else if f = CHR ''t'' then Some (cmd\<lparr>cmd_stale := True\<rparr>)
      else if f = CHR ''M'' then Some (cmd\<lparr>cmd_skip_monitor := True\<rparr>)
      else if f = CHR ''k'' then Some cmd
      else if f = CHR ''F'' then Some (cmd\<lparr>cmd_fast := True\<rparr>)
      else None)"

fun parse_flags :: "redisCommand \<Rightarrow> string \<Rightarrow> redisCommand option" where
  "parse_flags cmd [] = Some cmd"
| "parse_flags cmd (f # fs) = do { cmd \<leftarrow> parse_flag cmd f; parse_flags cmd fs }"

definition table_entry :: "string \<times> command_proc \<times> int \<times> string \<times> bool \<Rightarrow> redisCommand" where
  "table_entry e =
     (case e of (name, p, arity, sflags, keys) \<Rightarrow>
        \<lparr>cmd_name = name, cmd_proc = p, cmd_arity = arity, cmd_write = False, cmd_readonly = False, cmd_admin = False,
         cmd_denyoom = False, cmd_loading = False, cmd_stale = False, cmd_skip_monitor = False, cmd_fast = False,
         cmd_module = False, cmd_has_keys = keys\<rparr>)"

text \<open>
  The two dictionaries get the same commands. The assertion is that no name is added twice, up to the
  comparison of the dictionaries.
\<close>

fun populate_loop ::
  "redisCommand list \<Rightarrow> (string \<times> command_proc \<times> int \<times> string \<times> bool) list \<Rightarrow> redisCommand list option" where
  "populate_loop acc [] = Some acc"
| "populate_loop acc (e # es) =
     do {
       cmd \<leftarrow> parse_flags (table_entry e) (fst (snd (snd (snd e))));
       if list_ex (\<lambda>cmd'. strcasecmp (bs (cmd_name cmd)) (bs (cmd_name cmd')) = 0) acc then None
       else populate_loop (acc @ [cmd]) es
     }"

definition populateCommandTable :: "redisCommand list option" where
  "populateCommandTable = populate_loop [] redisCommandTable"

section \<open>Databases and clients\<close>

definition new_db :: redisDb where
  "new_db = \<lparr>main_dict = dictCreate, expires = dictCreate, watched_keys = dictCreate, avg_ttl = 0\<rparr>"

definition initServer :: "server_env \<Rightarrow> nat \<Rightarrow> (nat \<Rightarrow> client) \<Rightarrow> redisServer" where
  \<comment> \<open>\<open>cls\<close> is the memory of the clients that are not connected yet\<close>
  "initServer e dbnum cls =
     \<lparr>dbs = replicate dbnum new_db, clients = cls, client_list = [], dirty = 0, stat_expiredkeys = 0,
      stat_keyspace_hits = 0, stat_keyspace_misses = 0, stat_numcommands = 0, also_propagate = [], rand_pos = 0,
      calls = [], env = e\<rparr>"

definition createClient :: "redisServer \<Rightarrow> nat \<Rightarrow> int \<Rightarrow> (nat \<Rightarrow> bool) \<Rightarrow> redisServer" where
  \<comment> \<open>\<open>c\<close> is the new client; the installation of the read handler has succeeded. \<open>limit\<close> stands for
    \<open>checkClientOutputBufferLimits\<close>\<close>
  "createClient s c fd' limit =
     (let cl = (clients s c)\<lparr>c_db := 0, argv := [], flag_master := False, flag_multi := False, flag_dirty_cas := False,
            flag_dirty_exec := False, flag_lua := False, flag_module := False, flag_reply_off := False,
            flag_reply_skip := False, flag_master_force_reply := False, flag_close_after_reply := False,
            flag_close_asap := False, flag_pending_write := False, flag_force_aof := False, flag_force_repl := False,
            flag_prevent_aof_prop := False, flag_prevent_repl_prop := False, flag_pubsub := False,
            authenticated := False, fd := fd', repl_may_write := True, mstate := [], w_keys := [], buf := [],
            reply := [], reply_bytes := 0, output_limit := limit\<rparr>;
          s = s\<lparr>clients := (clients s)(c := cl)\<rparr>
      in if fd' \<noteq> -1 then s\<lparr>client_list := client_list s @ [c]\<rparr> else s)"

end
