(* ===== verification/Keyspace_View.thy ===== *)
theory Keyspace_View
  imports Keyspace
begin

text \<open>
  The abstract state of the keyspace. The view of a server has, for every database, the map from keys
  to values (strings by their bytes, whatever their encoding), the map from keys to expiration
  times and the clients that watch a key, and the rest of the server with the outputs of the
  clients. \<open>rep s v\<close> says that \<open>s\<close> is well formed and has the view \<open>v\<close>.

  \<open>wp x Q\<close> says that \<open>x\<close> returns and that \<open>Q\<close> holds of what it returns.
\<close>

section \<open>Returning with a postcondition\<close>

definition wp :: "'a option \<Rightarrow> ('a \<Rightarrow> bool) \<Rightarrow> bool" where
  "wp x Q \<longleftrightarrow> (\<exists>y. x = Some y \<and> Q y)"

named_theorems wp_intro \<open>rules for the structure of a function\<close>

lemma wp_Some [wp_intro]: "Q y \<Longrightarrow> wp (Some y) Q"
  by (simp add: wp_def)

lemma wp_bind [wp_intro]: "wp x (\<lambda>y. wp (f y) Q) \<Longrightarrow> wp (x \<bind> f) Q"
  by (auto simp: wp_def)

lemma wp_map [wp_intro]: "wp x (\<lambda>y. Q (f y)) \<Longrightarrow> wp (map_option f x) Q"
  by (auto simp: wp_def)

lemma wp_if [wp_intro]: "(b \<Longrightarrow> wp x Q) \<Longrightarrow> (\<not> b \<Longrightarrow> wp y Q) \<Longrightarrow> wp (if b then x else y) Q"
  by simp

lemma wp_mono: "wp x P \<Longrightarrow> (\<And>y. P y \<Longrightarrow> Q y) \<Longrightarrow> wp x Q"
  by (auto simp: wp_def)

lemma wp_Ex: "wp x Q \<Longrightarrow> \<exists>y. x = Some y \<and> Q y"
  by (simp add: wp_def)

section \<open>The view\<close>

datatype aval = AStr "byte list" | AObj robj

definition absval :: "robj \<Rightarrow> aval" where
  "absval obj = (if otype obj = OBJ_STRING then AStr (obj_bytes obj) else AObj (obj\<lparr>lru := 0\<rparr>))"

record view =
  v_n :: nat
  v_kv :: "nat \<Rightarrow> sds \<Rightarrow> aval option"
  v_ttl :: "nat \<Rightarrow> sds \<Rightarrow> int option"
  v_wk :: "nat \<Rightarrow> sds \<Rightarrow> nat list option"
  v_srv :: redisServer

definition kv_of :: "redisServer \<Rightarrow> nat \<Rightarrow> sds \<Rightarrow> aval option" where
  "kv_of s i k = map_option absval (dict_lookup (main_type s) (main_dict (dbs s ! i)) k)"

definition ttl_of :: "redisServer \<Rightarrow> nat \<Rightarrow> sds \<Rightarrow> int option" where
  "ttl_of s i k = dict_lookup (expires_type s) (expires (dbs s ! i)) k"

definition wk_of :: "redisServer \<Rightarrow> nat \<Rightarrow> sds \<Rightarrow> nat list option" where
  "wk_of s i k = dict_lookup (watched_type s) (watched_keys (dbs s ! i)) k"

definition view_of :: "redisServer \<Rightarrow> view" where
  "view_of s =
     \<lparr>v_n = length (dbs s),
      v_kv = (\<lambda>i. if i < length (dbs s) then kv_of s i else (\<lambda>_. None)),
      v_ttl = (\<lambda>i. if i < length (dbs s) then ttl_of s i else (\<lambda>_. None)),
      v_wk = (\<lambda>i. if i < length (dbs s) then wk_of s i else (\<lambda>_. None)),
      v_srv = s\<lparr>dbs := [], rand_pos := 0, clients := client_view \<circ> clients s\<rparr>\<rparr>"

definition db_ok :: "redisServer \<Rightarrow> redisDb \<Rightarrow> bool" where
  "db_ok s db \<longleftrightarrow>
     dict_ok (main_type s) (main_dict db) \<and> dict_ok (expires_type s) (expires db) \<and>
     dict_ok (watched_type s) (watched_keys db) \<and>
     (\<forall>k obj. dict_lookup (main_type s) (main_dict db) k = Some obj \<longrightarrow> obj_ok obj)"

text \<open>Every key with an expiration time is a key of the database.\<close>

definition ttl_ok :: "view \<Rightarrow> bool" where
  "ttl_ok v \<longleftrightarrow> (\<forall>i k. v_ttl v i k \<noteq> None \<longrightarrow> v_kv v i k \<noteq> None)"

definition rep :: "redisServer \<Rightarrow> view \<Rightarrow> bool" where
  "rep s v \<longleftrightarrow> (\<forall>db \<in> set (dbs s). db_ok s db) \<and> view_of s = v \<and> ttl_ok v"

text \<open>Updates of the view.\<close>

definition v_set :: "view \<Rightarrow> nat \<Rightarrow> sds \<Rightarrow> aval \<Rightarrow> view" where
  "v_set v i k a = v\<lparr>v_kv := (v_kv v)(i := (v_kv v i)(k \<mapsto> a))\<rparr>"

definition v_setttl :: "view \<Rightarrow> nat \<Rightarrow> sds \<Rightarrow> int option \<Rightarrow> view" where
  "v_setttl v i k t = v\<lparr>v_ttl := (v_ttl v)(i := (v_ttl v i)(k := t))\<rparr>"

definition v_del :: "view \<Rightarrow> nat \<Rightarrow> sds \<Rightarrow> view" where
  "v_del v i k = v\<lparr>v_kv := (v_kv v)(i := (v_kv v i)(k := None)), v_ttl := (v_ttl v)(i := (v_ttl v i)(k := None))\<rparr>"

definition v_call :: "view \<Rightarrow> server_call \<Rightarrow> view" where
  "v_call v e = v\<lparr>v_srv := server_call (v_srv v) e\<rparr>"

definition v_client :: "view \<Rightarrow> nat \<Rightarrow> (client \<Rightarrow> client) \<Rightarrow> view" where
  "v_client v c f = v\<lparr>v_srv := upd_client (v_srv v) c f\<rparr>"

definition v_put :: "view \<Rightarrow> nat \<Rightarrow> byte list \<Rightarrow> view" where
  "v_put v c b = v_client v c (\<lambda>cl. put cl b)"

abbreviation v_env :: "view \<Rightarrow> server_env" where "v_env v \<equiv> env (v_srv v)"

section \<open>Dictionaries of the databases\<close>

lemma rep_env: "rep s v \<Longrightarrow> env s = v_env v"
  by (auto simp: rep_def view_of_def)

lemma rep_n: "rep s v \<Longrightarrow> length (dbs s) = v_n v"
  by (auto simp: rep_def view_of_def)

lemma rep_client: "rep s v \<Longrightarrow> client_view (clients s c) = clients (v_srv v) c"
  by (auto simp: rep_def view_of_def)

lemma rep_client_list: "rep s v \<Longrightarrow> client_list s = client_list (v_srv v)"
  by (auto simp: rep_def view_of_def)

lemma rep_client_fields:
  assumes "rep s v"
  shows "c_db (clients s c) = c_db (clients (v_srv v) c)" "argv (clients s c) = argv (clients (v_srv v) c)"
    "c_cmd (clients s c) = c_cmd (clients (v_srv v) c)" "flag_multi (clients s c) = flag_multi (clients (v_srv v) c)"
    "flag_dirty_cas (clients s c) = flag_dirty_cas (clients (v_srv v) c)"
    "flag_dirty_exec (clients s c) = flag_dirty_exec (clients (v_srv v) c)"
    "flag_master (clients s c) = flag_master (clients (v_srv v) c)"
    "mstate (clients s c) = mstate (clients (v_srv v) c)" "w_keys (clients s c) = w_keys (clients (v_srv v) c)"
    "flag_force_aof (clients s c) = flag_force_aof (clients (v_srv v) c)"
    "flag_force_repl (clients s c) = flag_force_repl (clients (v_srv v) c)"
    "flag_prevent_aof_prop (clients s c) = flag_prevent_aof_prop (clients (v_srv v) c)"
    "flag_prevent_repl_prop (clients s c) = flag_prevent_repl_prop (clients (v_srv v) c)"
    "c_lastcmd (clients s c) = c_lastcmd (clients (v_srv v) c)"
    "flag_lua (clients s c) = flag_lua (clients (v_srv v) c)"
    "flag_pubsub (clients s c) = flag_pubsub (clients (v_srv v) c)"
    "authenticated (clients s c) = authenticated (clients (v_srv v) c)"
    "flag_module (clients s c) = flag_module (clients (v_srv v) c)"
  using rep_client [OF assms, of c] by (metis client_view_simps)+

lemma rep_db:
  assumes "rep s v" "i < v_n v"
  shows "dict_ok (main_type s) (main_dict (dbs s ! i))" "dict_ok (expires_type s) (expires (dbs s ! i))"
    "dict_ok (watched_type s) (watched_keys (dbs s ! i))"
    "\<And>k obj. dict_lookup (main_type s) (main_dict (dbs s ! i)) k = Some obj \<Longrightarrow> obj_ok obj"
    "v_kv v i k = map_option absval (dict_lookup (main_type s) (main_dict (dbs s ! i)) k)"
    "v_ttl v i k = dict_lookup (expires_type s) (expires (dbs s ! i)) k"
    "v_wk v i k = dict_lookup (watched_type s) (watched_keys (dbs s ! i)) k"
proof -
  have i: "i < length (dbs s)" using assms by (simp add: rep_n)
  then have db: "db_ok s (dbs s ! i)" using assms by (simp add: rep_def)
  have v: "view_of s = v" using assms(1) by (simp add: rep_def)
  show "dict_ok (main_type s) (main_dict (dbs s ! i))" "dict_ok (expires_type s) (expires (dbs s ! i))"
    "dict_ok (watched_type s) (watched_keys (dbs s ! i))"
    "\<And>k obj. dict_lookup (main_type s) (main_dict (dbs s ! i)) k = Some obj \<Longrightarrow> obj_ok obj"
    using db by (auto simp: db_ok_def)
  show "v_kv v i k = map_option absval (dict_lookup (main_type s) (main_dict (dbs s ! i)) k)"
    "v_ttl v i k = dict_lookup (expires_type s) (expires (dbs s ! i)) k"
    "v_wk v i k = dict_lookup (watched_type s) (watched_keys (dbs s ! i)) k"
    using i by (simp_all add: v [symmetric] view_of_def kv_of_def ttl_of_def wk_of_def)
qed

lemma rep_ttl_kv: "rep s v \<Longrightarrow> v_kv v i k = None \<Longrightarrow> v_ttl v i k = None"
  unfolding rep_def ttl_ok_def by blast

lemma db_ok_env: "env s' = env s \<Longrightarrow> db_ok s' db = db_ok s db"
  by (simp add: db_ok_def)

lemma set_simps [simp]:
  "env (set_main s i d) = env s" "env (set_expires s i e) = env s" "env (set_watched s i w) = env s"
  "clients (set_main s i d) = clients s" "clients (set_expires s i e) = clients s"
  "clients (set_watched s i w) = clients s" "client_list (set_main s i d) = client_list s"
  "client_list (set_expires s i e) = client_list s" "client_list (set_watched s i w) = client_list s"
  "length (dbs (set_main s i d)) = length (dbs s)" "length (dbs (set_expires s i d')) = length (dbs s)"
  "length (dbs (set_watched s i w)) = length (dbs s)"
  by (simp_all add: set_main_def set_expires_def set_watched_def)

lemma set_dict_simps [simp]:
  assumes "i < length (dbs s)"
  shows "main_dict (dbs (set_main s i d) ! i) = d" "expires (dbs (set_expires s i e) ! i) = e"
    "watched_keys (dbs (set_watched s i w) ! i) = w"
    "expires (dbs (set_main s i d) ! i) = expires (dbs s ! i)"
    "watched_keys (dbs (set_main s i d) ! i) = watched_keys (dbs s ! i)"
    "main_dict (dbs (set_expires s i e) ! i) = main_dict (dbs s ! i)"
    "watched_keys (dbs (set_expires s i e) ! i) = watched_keys (dbs s ! i)"
    "main_dict (dbs (set_watched s i w) ! i) = main_dict (dbs s ! i)"
    "expires (dbs (set_watched s i w) ! i) = expires (dbs s ! i)"
  using assms by (simp_all add: set_main_def set_expires_def set_watched_def)

text \<open>Replacing one dictionary of one database.\<close>

lemma set_nth_ball: "(\<forall>x \<in> set xs. P x) \<Longrightarrow> P y \<Longrightarrow> (\<forall>x \<in> set (xs[i := y]). P x)"
  by (auto dest: set_update_subset_insert [THEN subsetD])

lemma rep_set_main:
  assumes "rep s v" "i < v_n v" "dict_ok (main_type s) d"
    and "\<And>k obj. dict_lookup (main_type s) d k = Some obj \<Longrightarrow> obj_ok obj"
    and "v' = v\<lparr>v_kv := (v_kv v)(i := (\<lambda>k. map_option absval (dict_lookup (main_type s) d k)))\<rparr>" "ttl_ok v'"
  shows "rep (set_main s i d) v'"
proof -
  have i: "i < length (dbs s)" using assms(1,2) by (simp add: rep_n)
  have "db_ok s (dbs s ! i)" using assms(1) i by (simp add: rep_def)
  then have "db_ok s ((dbs s ! i)\<lparr>main_dict := d\<rparr>)" using assms(3,4) by (auto simp: db_ok_def)
  then have "\<forall>db \<in> set (dbs (set_main s i d)). db_ok s db"
    using assms(1) set_nth_ball [of "dbs s" "db_ok s"] by (simp add: rep_def set_main_def)
  then have "\<forall>db \<in> set (dbs (set_main s i d)). db_ok (set_main s i d) db"
    by (simp add: db_ok_env [of "set_main s i d" s])
  moreover have "view_of (set_main s i d) = v'"
    using assms(1) i unfolding assms(5)
    by (auto simp: rep_def view_of_def kv_of_def ttl_of_def wk_of_def fun_eq_iff set_main_def nth_list_update)
  ultimately show ?thesis using assms(6) by (simp add: rep_def)
qed

lemma rep_set_expires:
  assumes "rep s v" "i < v_n v" "dict_ok (expires_type s) d"
    and "v' = v\<lparr>v_ttl := (v_ttl v)(i := dict_lookup (expires_type s) d)\<rparr>" "ttl_ok v'"
  shows "rep (set_expires s i d) v'"
proof -
  have i: "i < length (dbs s)" using assms(1,2) by (simp add: rep_n)
  have "db_ok s (dbs s ! i)" using assms(1) i by (simp add: rep_def)
  then have "db_ok s ((dbs s ! i)\<lparr>expires := d\<rparr>)" using assms(3) by (auto simp: db_ok_def)
  then have "\<forall>db \<in> set (dbs (set_expires s i d)). db_ok s db"
    using assms(1) set_nth_ball [of "dbs s" "db_ok s"] by (simp add: rep_def set_expires_def)
  then have "\<forall>db \<in> set (dbs (set_expires s i d)). db_ok (set_expires s i d) db"
    by (simp add: db_ok_env [of "set_expires s i d" s])
  moreover have "view_of (set_expires s i d) = v'"
    using assms(1) i unfolding assms(4)
    by (auto simp: rep_def view_of_def kv_of_def ttl_of_def wk_of_def fun_eq_iff set_expires_def nth_list_update)
  ultimately show ?thesis using assms(5) by (simp add: rep_def)
qed

lemma rep_set_watched:
  assumes "rep s v" "i < v_n v" "dict_ok (watched_type s) d"
    and "v' = v\<lparr>v_wk := (v_wk v)(i := dict_lookup (watched_type s) d)\<rparr>"
  shows "rep (set_watched s i d) v'"
proof -
  have i: "i < length (dbs s)" using assms(1,2) by (simp add: rep_n)
  have "db_ok s (dbs s ! i)" using assms(1) i by (simp add: rep_def)
  then have "db_ok s ((dbs s ! i)\<lparr>watched_keys := d\<rparr>)" using assms(3) by (auto simp: db_ok_def)
  then have "\<forall>db \<in> set (dbs (set_watched s i d)). db_ok s db"
    using assms(1) set_nth_ball [of "dbs s" "db_ok s"] by (simp add: rep_def set_watched_def)
  then have "\<forall>db \<in> set (dbs (set_watched s i d)). db_ok (set_watched s i d) db"
    by (simp add: db_ok_env [of "set_watched s i d" s])
  moreover have "view_of (set_watched s i d) = v'"
    using assms(1) i unfolding assms(4)
    by (auto simp: rep_def view_of_def kv_of_def ttl_of_def wk_of_def fun_eq_iff set_watched_def nth_list_update)
  moreover have "ttl_ok v'" using assms(1) unfolding assms(4) by (simp add: rep_def ttl_ok_def)
  ultimately show ?thesis by (simp add: rep_def)
qed

text \<open>The same, for the three changes of a dictionary that occur.\<close>

lemma rep_main_same:
  assumes "rep s v" "i < v_n v" "dict_ok (main_type s) d"
    and "dict_lookup (main_type s) d = dict_lookup (main_type s) (main_dict (dbs s ! i))"
  shows "rep (set_main s i d) v"
proof (rule rep_set_main [OF assms(1-3)])
  have "v_kv v i = (\<lambda>k. map_option absval (dict_lookup (main_type s) d k))"
    using rep_db(5) [OF assms(1,2)] assms(4) by auto
  then show "v = v\<lparr>v_kv := (v_kv v)(i := (\<lambda>k. map_option absval (dict_lookup (main_type s) d k)))\<rparr>"
    by (metis fun_upd_triv view.surjective view.update_convs(2))
qed (use assms rep_db(4) [OF assms(1,2)] in \<open>auto simp: rep_def\<close>)

lemma rep_main_upd:
  assumes "rep s v" "i < v_n v" "dict_ok (main_type s) d"
    and "dict_lookup (main_type s) d = (dict_lookup (main_type s) (main_dict (dbs s ! i)))(k \<mapsto> obj)" "obj_ok obj"
  shows "rep (set_main s i d) (v_set v i k (absval obj))"
proof (rule rep_set_main [OF assms(1-3)])
  have "(v_kv v i)(k \<mapsto> absval obj) = (\<lambda>k. map_option absval (dict_lookup (main_type s) d k))"
    using rep_db(5) [OF assms(1,2)] assms(4) by auto
  then show "v_set v i k (absval obj) = v\<lparr>v_kv := (v_kv v)(i := (\<lambda>k. map_option absval (dict_lookup (main_type s) d k)))\<rparr>"
    by (simp add: v_set_def)
  show "ttl_ok (v_set v i k (absval obj))" using assms(1) by (auto simp: rep_def ttl_ok_def v_set_def)
qed (use assms rep_db(4) [OF assms(1,2)] in \<open>auto split: if_splits\<close>)

lemma rep_main_del:
  assumes "rep s v" "i < v_n v" "dict_ok (main_type s) d"
    and "dict_lookup (main_type s) d = (dict_lookup (main_type s) (main_dict (dbs s ! i)))(k := None)" "v_ttl v i k = None"
  shows "rep (set_main s i d) (v_del v i k)"
proof (rule rep_set_main [OF assms(1-3)])
  have "(v_kv v i)(k := None) = (\<lambda>k. map_option absval (dict_lookup (main_type s) d k))"
    using rep_db(5) [OF assms(1,2)] assms(4) by auto
  moreover have "(v_ttl v)(i := (v_ttl v i)(k := None)) = v_ttl v" using assms(5) by (simp add: fun_upd_idem)
  ultimately show "v_del v i k = v\<lparr>v_kv := (v_kv v)(i := (\<lambda>k. map_option absval (dict_lookup (main_type s) d k)))\<rparr>"
    by (simp add: v_del_def)
  show "ttl_ok (v_del v i k)" using assms(1) by (auto simp: rep_def ttl_ok_def v_del_def)
qed (use assms rep_db(4) [OF assms(1,2)] in \<open>auto split: if_splits\<close>)

lemma rep_expires_upd:
  assumes "rep s v" "i < v_n v" "dict_ok (expires_type s) d"
    and "dict_lookup (expires_type s) d = (dict_lookup (expires_type s) (expires (dbs s ! i)))(k := t)"
    and "t \<noteq> None \<Longrightarrow> v_kv v i k \<noteq> None"
  shows "rep (set_expires s i d) (v_setttl v i k t)"
proof (rule rep_set_expires [OF assms(1-3)])
  have "(v_ttl v i)(k := t) = dict_lookup (expires_type s) d"
    using rep_db(6) [OF assms(1,2)] assms(4) by auto
  then show "v_setttl v i k t = v\<lparr>v_ttl := (v_ttl v)(i := dict_lookup (expires_type s) d)\<rparr>"
    by (simp add: v_setttl_def)
  show "ttl_ok (v_setttl v i k t)" using assms(1,5) by (auto simp: rep_def ttl_ok_def v_setttl_def)
qed

lemma v_setttl_triv: "v_ttl v i k = t \<Longrightarrow> v_setttl v i k t = v"
  by (simp add: v_setttl_def fun_upd_idem)

lemma rep_expires_same:
  assumes "rep s v" "i < v_n v" "dict_ok (expires_type s) d"
    and "dict_lookup (expires_type s) d = dict_lookup (expires_type s) (expires (dbs s ! i))"
  shows "rep (set_expires s i d) v"
proof -
  have "rep (set_expires s i d) (v_setttl v i k (v_ttl v i k))" for k
  proof (rule rep_expires_upd [OF assms(1-3)])
    show "dict_lookup (expires_type s) d = (dict_lookup (expires_type s) (expires (dbs s ! i)))(k := v_ttl v i k)"
      unfolding rep_db(6) [OF assms(1,2)] assms(4) by simp
    show "v_ttl v i k \<noteq> None \<Longrightarrow> v_kv v i k \<noteq> None" using rep_ttl_kv [OF assms(1), of i k] by metis
  qed
  then show ?thesis by (simp add: v_setttl_triv)
qed

lemma rep_watched_same:
  assumes "rep s v" "i < v_n v" "dict_ok (watched_type s) d"
    and "dict_lookup (watched_type s) d = dict_lookup (watched_type s) (watched_keys (dbs s ! i))"
  shows "rep (set_watched s i d) v"
proof (rule rep_set_watched [OF assms(1-3)])
  have "v_wk v i = dict_lookup (watched_type s) d" using rep_db(7) [OF assms(1,2)] assms(4) by auto
  then show "v = v\<lparr>v_wk := (v_wk v)(i := dict_lookup (watched_type s) d)\<rparr>"
    by (metis fun_upd_triv view.surjective view.update_convs(4))
qed

section \<open>The rest of the server\<close>

lemma rep_srv:
  assumes "rep s v" "dbs s' = dbs s" "env s' = env s"
    and "v' = v\<lparr>v_srv := s'\<lparr>dbs := [], rand_pos := 0, clients := client_view \<circ> clients s'\<rparr>\<rparr>"
  shows "rep s' v'"
proof -
  have "\<forall>db \<in> set (dbs s'). db_ok s' db" using assms(1,2) db_ok_env [OF assms(3)] by (simp add: rep_def)
  moreover have "view_of s' = v'"
    using assms(1-3) unfolding assms(4) by (auto simp: rep_def view_of_def kv_of_def ttl_of_def wk_of_def fun_eq_iff)
  moreover have "ttl_ok v'" using assms(1) unfolding assms(4) by (simp add: rep_def ttl_ok_def)
  ultimately show ?thesis by (simp add: rep_def)
qed

lemma rep_srv_of: "rep s v \<Longrightarrow> v_srv v = s\<lparr>dbs := [], rand_pos := 0, clients := client_view \<circ> clients s\<rparr>"
  by (auto simp: rep_def view_of_def)

lemma rep_call: "rep s v \<Longrightarrow> rep (server_call s e) (v_call v e)"
  by (frule rep_srv_of, erule rep_srv) (auto simp: server_call_def v_call_def)

lemma rep_rand: "rep s v \<Longrightarrow> rep (s\<lparr>rand_pos := n\<rparr>) v"
  by (frule rep_srv_of, erule rep_srv) auto

lemma rep_dirty: "rep s v \<Longrightarrow> rep (s\<lparr>dirty := n\<rparr>) (v\<lparr>v_srv := (v_srv v)\<lparr>dirty := n\<rparr>\<rparr>)"
  by (frule rep_srv_of, erule rep_srv) auto

lemma rep_stats:
  "rep s v \<Longrightarrow> rep (s\<lparr>stat_expiredkeys := n\<rparr>) (v\<lparr>v_srv := (v_srv v)\<lparr>stat_expiredkeys := n\<rparr>\<rparr>)"
  "rep s v \<Longrightarrow> rep (s\<lparr>stat_keyspace_hits := n\<rparr>) (v\<lparr>v_srv := (v_srv v)\<lparr>stat_keyspace_hits := n\<rparr>\<rparr>)"
  "rep s v \<Longrightarrow> rep (s\<lparr>stat_keyspace_misses := n\<rparr>) (v\<lparr>v_srv := (v_srv v)\<lparr>stat_keyspace_misses := n\<rparr>\<rparr>)"
  by (frule rep_srv_of, erule rep_srv; auto)+

lemma rep_dirty_val: "rep s v \<Longrightarrow> dirty s = dirty (v_srv v)"
  and rep_stat_val: "rep s v \<Longrightarrow> stat_expiredkeys s = stat_expiredkeys (v_srv v)"
    "rep s v \<Longrightarrow> stat_keyspace_hits s = stat_keyspace_hits (v_srv v)"
    "rep s v \<Longrightarrow> stat_keyspace_misses s = stat_keyspace_misses (v_srv v)"
  by (simp_all add: rep_srv_of)

lemma rep_upd_client:
  assumes "rep s v" "client_view (f (clients s c)) = g (clients (v_srv v) c)"
  shows "rep (upd_client s c f) (v_client v c g)"
  using assms(1)
  by (rule rep_srv) (use assms in \<open>auto simp: upd_client_def v_client_def rep_srv_of fun_eq_iff\<close>)

lemma v_simps [simp]:
  "v_n (v_set v i k a) = v_n v" "v_n (v_setttl v i k t) = v_n v" "v_n (v_del v i k) = v_n v"
  "v_n (v_call v e) = v_n v" "v_n (v_client v c f) = v_n v" "v_n (v_put v c b) = v_n v"
  "v_srv (v_set v i k a) = v_srv v" "v_srv (v_setttl v i k t) = v_srv v" "v_srv (v_del v i k) = v_srv v"
  "v_srv (v_call v e) = server_call (v_srv v) e" "v_srv (v_client v c f) = upd_client (v_srv v) c f"
  "v_kv (v_call v e) = v_kv v" "v_kv (v_client v c f) = v_kv v" "v_kv (v_put v c b) = v_kv v"
  "v_kv (v_setttl v i k t) = v_kv v" "v_ttl (v_set v i k a) = v_ttl v"
  "v_ttl (v_call v e) = v_ttl v" "v_ttl (v_client v c f) = v_ttl v" "v_ttl (v_put v c b) = v_ttl v"
  "v_wk (v_set v i k a) = v_wk v" "v_wk (v_setttl v i k t) = v_wk v" "v_wk (v_del v i k) = v_wk v"
  "v_wk (v_call v e) = v_wk v" "v_wk (v_client v c f) = v_wk v" "v_wk (v_put v c b) = v_wk v"
  by (simp_all add: v_set_def v_setttl_def v_del_def v_call_def v_client_def v_put_def)

lemma v_lookup_simps [simp]:
  "v_kv (v_set v i k a) j k' = (if j = i \<and> k' = k then Some a else v_kv v j k')"
  "v_kv (v_del v i k) j k' = (if j = i \<and> k' = k then None else v_kv v j k')"
  "v_ttl (v_del v i k) j k' = (if j = i \<and> k' = k then None else v_ttl v j k')"
  "v_ttl (v_setttl v i k t) j k' = (if j = i \<and> k' = k then t else v_ttl v j k')"
  by (simp_all add: v_set_def v_del_def v_setttl_def)

lemma srv_simps [simp]:
  "env (server_call s e) = env s" "env (upd_client s c f) = env s"
  "dbs (server_call s e) = dbs s" "dbs (upd_client s c f) = dbs s"
  "clients (server_call s e) = clients s" "client_list (server_call s e) = client_list s"
  "client_list (upd_client s c f) = client_list s"
  "clients (upd_client s c f) c' = (if c' = c then f (clients s c) else clients s c')"
  "dirty (server_call s e) = dirty s" "dirty (upd_client s c f) = dirty s"
  by (simp_all add: server_call_def upd_client_def)

lemma v_set_triv: "v_kv v i k = Some a \<Longrightarrow> v_set v i k a = v"
  by (simp add: v_set_def fun_upd_idem)

lemma v_del_triv: "v_kv v i k = None \<Longrightarrow> v_ttl v i k = None \<Longrightarrow> v_del v i k = v"
  by (simp add: v_del_def fun_upd_idem)

lemma absval_lru [simp]: "absval (obj\<lparr>lru := n\<rparr>) = absval obj"
  by (simp add: absval_def obj_simps)

end
