(* ===== verification/Keyspace_Correct.thy ===== *)
theory Keyspace_Correct
  imports Keyspace_View
begin

text \<open>
  Every operation of the keyspace returns, keeps the server well formed, and acts on the view
  as the specifications collected in \<open>spec\<close> state.
\<close>

lemma wp_simps [simp]: "wp (Some y) Q \<longleftrightarrow> Q y" "\<not> wp None Q"
  by (simp_all add: wp_def)

section \<open>Lookup\<close>

named_theorems spec \<open>specifications of the keyspace operations\<close>

lemma find_main:
  assumes "rep s v" "i < v_n v"
  shows "\<exists>d r. dictFind (main_type s) (main_dict (dbs s ! i)) k = Some (d, r) \<and> rep (set_main s i d) v \<and>
     dict_ok (main_type s) d \<and>
     dict_lookup (main_type s) d = dict_lookup (main_type s) (main_dict (dbs s ! i)) \<and>
     (case r of None \<Rightarrow> v_kv v i k = None
      | Some loc \<Rightarrow> loc_ok d loc \<and> de_key (entry_at d loc) = k \<and> obj_ok (de_val (entry_at d loc)) \<and>
                    v_kv v i k = Some (absval (de_val (entry_at d loc))))"
proof -
  obtain d r where r: "dictFind (main_type s) (main_dict (dbs s ! i)) k = Some (d, r)" "dict_ok (main_type s) d"
      "dict_lookup (main_type s) d = dict_lookup (main_type s) (main_dict (dbs s ! i))"
      "case r of None \<Rightarrow> dict_lookup (main_type s) (main_dict (dbs s ! i)) k = None
       | Some loc \<Rightarrow> loc_ok d loc \<and> de_key (entry_at d loc) = k \<and>
           dict_lookup (main_type s) (main_dict (dbs s ! i)) k = Some (de_val (entry_at d loc))"
    using db_dict.map_find [OF rep_db(1) [OF assms], of k] by blast
  have "rep (set_main s i d) v" using rep_main_same [OF assms r(2,3)] .
  then show ?thesis using r rep_db(4) [OF assms, of k] rep_db(5) [OF assms, of k]
    by (intro exI [of _ d] exI [of _ r]) (auto split: option.splits)
qed

lemma updateLFU_eq: "\<exists>n m. updateLFU s val = (s\<lparr>rand_pos := n\<rparr>, val\<lparr>lru := m\<rparr>)"
proof -
  define c where "c = LFUDecrAndReturn s val"
  have "LFULogIncr s c =
      (s\<lparr>rand_pos := (if c = 255 then rand_pos s else Suc (rand_pos s))\<rparr>, snd (LFULogIncr s c))"
    by (simp add: LFULogIncr_def Let_def)
  then obtain n k where e: "LFULogIncr s c = (s\<lparr>rand_pos := n\<rparr>, k)" by blast
  show ?thesis unfolding updateLFU_def c_def [symmetric] Let_def e
    by (intro exI [of _ n] exI) (rule case_prod_conv)
qed

lemma lookupKey_spec [spec]:
  assumes "rep s v" "i < v_n v"
    and "\<And>s' r. rep s' v \<Longrightarrow> env s' = env s \<Longrightarrow> v_kv v i k = map_option absval r \<Longrightarrow> pred_option obj_ok r \<Longrightarrow> Q (s', r)"
  shows "wp (lookupKey s i k nt) Q"
proof -
  obtain d r where r: "dictFind (main_type s) (main_dict (dbs s ! i)) k = Some (d, r)" "rep (set_main s i d) v"
      "dict_ok (main_type s) d"
      "case r of None \<Rightarrow> v_kv v i k = None
       | Some loc \<Rightarrow> loc_ok d loc \<and> de_key (entry_at d loc) = k \<and> obj_ok (de_val (entry_at d loc)) \<and>
                     v_kv v i k = Some (absval (de_val (entry_at d loc)))"
    using find_main [OF assms(1,2), of k] by blast
  show ?thesis
  proof (cases r)
    case None
    then show ?thesis using r assms(3) [of "set_main s i d" None] by (simp add: lookupKey_def)
  next
    case (Some loc)
    define val where "val = de_val (entry_at d loc)"
    have loc: "loc_ok d loc" "de_key (entry_at d loc) = k" "obj_ok val" "v_kv v i k = Some (absval val)"
      using r(4) Some by (simp_all add: val_def)
    have set: "rep (set_main (s1\<lparr>rand_pos := n\<rparr>) i (dictSetVal (main_type s) d loc (val\<lparr>lru := m\<rparr>))) v"
      if "s1 = set_main s i d" for s1 n m
    proof -
      note sv = db_dict.map_set_val [OF r(3) loc(1), of "val\<lparr>lru := m\<rparr>"]
      have "rep (s1\<lparr>rand_pos := n\<rparr>) v" using rep_rand [OF r(2)] that by simp
      moreover have "main_dict (dbs (s1\<lparr>rand_pos := n\<rparr>) ! i) = d" using that assms(2) by (simp add: rep_n [OF assms(1)])
      ultimately have "rep (set_main (s1\<lparr>rand_pos := n\<rparr>) i (dictSetVal (main_type s) d loc (val\<lparr>lru := m\<rparr>)))
            (v_set v i k (absval (val\<lparr>lru := m\<rparr>)))"
        using sv loc that assms(2) by (intro rep_main_upd) (simp_all add: obj_simps)
      then show ?thesis using loc(4) by (simp add: v_set_triv)
    qed
    have same: "(s1::redisServer)\<lparr>rand_pos := rand_pos s1\<rparr> = s1" for s1 by simp
    obtain n m where lfu: "updateLFU (set_main s i d) val = ((set_main s i d)\<lparr>rand_pos := n\<rparr>, val\<lparr>lru := m\<rparr>)"
      using updateLFU_eq by blast
    have ok: "pred_option obj_ok (Some (val\<lparr>lru := m\<rparr>))" "pred_option obj_ok (Some val)" for m
      using loc(3) by (simp_all add: obj_simps)
    show ?thesis
      using r(1) Some set [OF refl, of n m] set [OF refl, of "rand_pos (set_main s i d)"] lfu r(2) loc(4) ok
        assms(3)
      by (auto simp: lookupKey_def Let_def same val_def [symmetric])
  qed
qed

lemma dbExists_spec [spec]:
  assumes "rep s v" "i < v_n v"
    and "\<And>s'. rep s' v \<Longrightarrow> env s' = env s \<Longrightarrow> Q (s', v_kv v i k \<noteq> None)"
  shows "wp (dbExists s i k) Q"
proof -
  obtain d r where "dictFind (main_type s) (main_dict (dbs s ! i)) k = Some (d, r)" "rep (set_main s i d) v"
      "(r \<noteq> None) = (v_kv v i k \<noteq> None)"
    using find_main [OF assms(1,2), of k] by (fastforce split: option.splits)
  then show ?thesis using assms(3) [of "set_main s i d"] by (simp add: dbExists_def)
qed

section \<open>Deletion\<close>

lemma dictSize_expires: "rep s v \<Longrightarrow> i < v_n v \<Longrightarrow> dictSize (expires (dbs s ! i)) = 0 \<Longrightarrow> v_ttl v i k = None"
proof -
  assume a: "rep s v" "i < v_n v" "dictSize (expires (dbs s ! i)) = 0"
  note sz = keyptr_dict.map_size [OF rep_db(2) [OF a(1,2)]]
  then have "dom (dict_lookup (expires_type s) (expires (dbs s ! i))) = {}" using a(3) by (metis card_0_eq)
  then show "v_ttl v i k = None" using rep_db(6) [OF a(1,2), of k] by auto
qed

lemma delete_expire_spec [spec]:
  assumes "rep s v" "i < v_n v"
    and "\<And>s'. rep s' (v_setttl v i k None) \<Longrightarrow> env s' = env s \<Longrightarrow> Q s'"
  shows "wp (delete_expire s i k) Q"
proof (cases "dictSize (expires (dbs s ! i)) = 0")
  case True
  then have "v_setttl v i k None = v" using dictSize_expires [OF assms(1,2)] by (simp add: v_setttl_triv)
  then show ?thesis using True assms(1) assms(3) [of s] by (simp add: delete_expire_def)
next
  case False
  obtain d c where d: "dictDelete (expires_type s) (expires (dbs s ! i)) k =
       Some (d, if dict_lookup (expires_type s) (expires (dbs s ! i)) k = None then DICT_ERR else DICT_OK, c)"
      "dict_ok (expires_type s) d"
      "dict_lookup (expires_type s) d = (dict_lookup (expires_type s) (expires (dbs s ! i)))(k := None)"
    using keyptr_dict.map_delete [OF rep_db(2) [OF assms(1,2)], of k] by blast
  have "rep (set_expires s i d) (v_setttl v i k None)" using rep_expires_upd [OF assms(1,2) d(2,3)] by simp
  then show ?thesis using False d(1) assms(3) by (simp add: delete_expire_def)
qed

definition v_slotdel :: "view \<Rightarrow> sds \<Rightarrow> view" where
  "v_slotdel v k = (if cluster_enabled (v_env v) then v_call v (SlotToKeyDel k) else v)"

definition v_lazyfree :: "view \<Rightarrow> nat \<Rightarrow> sds \<Rightarrow> view" where
  "v_lazyfree v i k =
     (if free_effort (v_env v) i k > LAZYFREE_THRESHOLD \<and> refcount_at (v_env v) i k = 1
      then v_call v (LazyFreeObject i k) else v)"

definition v_dbdel :: "bool \<Rightarrow> view \<Rightarrow> nat \<Rightarrow> sds \<Rightarrow> view" where
  "v_dbdel lazy v i k =
     (if v_kv v i k = None then v
      else v_slotdel (if lazy then v_lazyfree (v_del v i k) i k else v_del v i k) k)"

lemma v_setttl_del: "v_del (v_setttl v i k t) i k = v_del v i k"
  by (simp add: v_del_def v_setttl_def)

lemma dbSyncDelete_spec [spec]:
  assumes "rep s v" "i < v_n v"
    and "\<And>s'. rep s' (v_dbdel False v i k) \<Longrightarrow> env s' = env s \<Longrightarrow> Q (s', v_kv v i k \<noteq> None)"
  shows "wp (dbSyncDelete s i k) Q"
  unfolding dbSyncDelete_def
proof (rule wp_bind, rule delete_expire_spec [OF assms(1,2)])
  fix s1 assume s1: "rep s1 (v_setttl v i k None)" "env s1 = env s"
  have i: "i < v_n (v_setttl v i k None)" using assms(2) by simp
  let ?m = "dict_lookup (main_type s1) (main_dict (dbs s1 ! i))"
  obtain d c where d: "dictDelete (main_type s1) (main_dict (dbs s1 ! i)) k =
       Some (d, if ?m k = None then DICT_ERR else DICT_OK, c)"
      "dict_ok (main_type s1) d" "dict_lookup (main_type s1) d = ?m(k := None)"
    using db_dict.map_delete [OF rep_db(1) [OF s1(1) i], of k] by blast
  have "rep (set_main s1 i d) (v_del (v_setttl v i k None) i k)" using rep_main_del [OF s1(1) i d(2,3)] by simp
  then have s2: "rep (set_main s1 i d) (v_del v i k)" by (simp add: v_setttl_del)
  have kv: "?m k = None \<longleftrightarrow> v_kv v i k = None" using rep_db(5) [OF s1(1) i, of k] by simp
  show "wp (dictDelete (main_type s1) (main_dict (dbs s1 ! i)) k \<bind> (\<lambda>(d, r, fr).
      let s = set_main s1 i d in
      if r = DICT_OK then Some (if cluster_enabled (env s) then server_call s (SlotToKeyDel k) else s, True)
      else Some (s, False))) Q"
  proof (cases "v_kv v i k = None")
    case True
    then have "v_del v i k = v" using rep_ttl_kv [OF assms(1)] by (simp add: v_del_triv)
    then show ?thesis using True d(1) kv s1(2) s2 assms(3) [of "set_main s1 i d"]
      by (simp add: v_dbdel_def)
  next
    case False
    then obtain a where a: "v_kv v i k = Some a" by blast
    define s4 where "s4 = (if cluster_enabled (env s) then server_call (set_main s1 i d) (SlotToKeyDel k) else set_main s1 i d)"
    have s4: "rep s4 (v_slotdel (v_del v i k) k)" "env s4 = env s"
      using s2 s1(2) rep_env [OF assms(1)] by (auto simp: s4_def v_slotdel_def rep_call)
    have "Q (s4, True)" using assms(3) [OF _ s4(2)] s4(1) a by (simp add: v_dbdel_def)
    moreover have "dictDelete (main_type s1) (main_dict (dbs s1 ! i)) k = Some (d, DICT_OK, c)"
      using d(1) kv False by simp
    ultimately show ?thesis using s1(2) by (simp add: s4_def Let_def)
  qed
qed

lemma dbAsyncDelete_spec [spec]:
  assumes "rep s v" "i < v_n v"
    and "\<And>s'. rep s' (v_dbdel True v i k) \<Longrightarrow> env s' = env s \<Longrightarrow> Q (s', v_kv v i k \<noteq> None)"
  shows "wp (dbAsyncDelete s i k) Q"
  unfolding dbAsyncDelete_def
proof (rule wp_bind, rule delete_expire_spec [OF assms(1,2)])
  fix s1 assume s1: "rep s1 (v_setttl v i k None)" "env s1 = env s"
  have i: "i < v_n (v_setttl v i k None)" using assms(2) by simp
  let ?m = "dict_lookup (main_type s1) (main_dict (dbs s1 ! i))"
  obtain d he where d: "dictUnlink (main_type s1) (main_dict (dbs s1 ! i)) k = Some (d, he)"
      "dict_ok (main_type s1) d" "map_option de_val he = ?m k" "dict_lookup (main_type s1) d = ?m(k := None)"
    using db_dict.map_unlink [OF rep_db(1) [OF s1(1) i], of k] by blast
  have "rep (set_main s1 i d) (v_del (v_setttl v i k None) i k)" using rep_main_del [OF s1(1) i d(2,4)] by simp
  then have s2: "rep (set_main s1 i d) (v_del v i k)" by (simp add: v_setttl_del)
  have kv: "he = None \<longleftrightarrow> v_kv v i k = None" using rep_db(5) [OF s1(1) i, of k] by (simp add: d(3) [symmetric])
  let ?rest = "\<lambda>(d, de). let s = set_main s1 i d in
      case de of None \<Rightarrow> Some (s, False)
      | Some e \<Rightarrow>
          let s = (if free_effort (env s) i k > LAZYFREE_THRESHOLD \<and> refcount_at (env s) i k = 1
                   then server_call s (LazyFreeObject i k) else s)
          in Some (if cluster_enabled (env s) then server_call s (SlotToKeyDel k) else s, True)"
  show "wp (dictUnlink (main_type s1) (main_dict (dbs s1 ! i)) k \<bind> ?rest) Q"
  proof (cases he)
    case None
    then have "v_del v i k = v" using kv rep_ttl_kv [OF assms(1)] by (simp add: v_del_triv)
    then show ?thesis using None d(1) kv s1(2) s2 assms(3) [of "set_main s1 i d"]
      by (simp add: v_dbdel_def)
  next
    case (Some e)
    define s3 where "s3 = (if free_effort (env s) i k > LAZYFREE_THRESHOLD \<and> refcount_at (env s) i k = 1
        then server_call (set_main s1 i d) (LazyFreeObject i k) else set_main s1 i d)"
    have s3: "rep s3 (v_lazyfree (v_del v i k) i k)" "env s3 = env s"
      using s2 s1(2) rep_env [OF assms(1)] by (auto simp: s3_def v_lazyfree_def rep_call)
    define s4 where "s4 = (if cluster_enabled (env s3) then server_call s3 (SlotToKeyDel k) else s3)"
    have s4: "rep s4 (v_slotdel (v_lazyfree (v_del v i k) i k) k)" "env s4 = env s"
      using s3 rep_env [OF s3(1)] by (auto simp: s4_def v_slotdel_def rep_call)
    have "?rest (d, Some e) = Some (s4, True)"
      using s1(2) by (simp add: s4_def s3_def Let_def)
    moreover obtain a where a: "v_kv v i k = Some a" using kv Some by auto
    have "Q (s4, True)" using assms(3) [OF _ s4(2)] s4(1) a by (simp add: v_dbdel_def)
    ultimately show ?thesis using Some d(1) by simp
  qed
qed

lemma dbDelete_spec [spec]:
  assumes "rep s v" "i < v_n v"
    and "\<And>s'. rep s' (v_dbdel (lazyfree_lazy_server_del (v_env v)) v i k) \<Longrightarrow> env s' = env s \<Longrightarrow> Q (s', v_kv v i k \<noteq> None)"
  shows "wp (dbDelete s i k) Q"
  using assms rep_env [OF assms(1)] by (auto simp: dbDelete_def intro!: dbSyncDelete_spec dbAsyncDelete_spec)

section \<open>Expiration\<close>

lemma find_expires:
  assumes "rep s v" "i < v_n v"
  shows "\<exists>d r. dictFind (expires_type s) (expires (dbs s ! i)) k = Some (d, r) \<and> rep (set_expires s i d) v \<and>
     v_ttl v i k = map_option (\<lambda>loc. de_val (entry_at d loc)) r"
proof -
  obtain d r where r: "dictFind (expires_type s) (expires (dbs s ! i)) k = Some (d, r)" "dict_ok (expires_type s) d"
      "dict_lookup (expires_type s) d = dict_lookup (expires_type s) (expires (dbs s ! i))"
      "case r of None \<Rightarrow> dict_lookup (expires_type s) (expires (dbs s ! i)) k = None
       | Some loc \<Rightarrow> loc_ok d loc \<and> de_key (entry_at d loc) = k \<and>
           dict_lookup (expires_type s) (expires (dbs s ! i)) k = Some (de_val (entry_at d loc))"
    using keyptr_dict.map_find [OF rep_db(2) [OF assms], of k] by blast
  have "rep (set_expires s i d) v" using rep_expires_same [OF assms r(2,3)] .
  then show ?thesis using r rep_db(6) [OF assms, of k]
    by (intro exI [of _ d] exI [of _ r]) (auto split: option.splits)
qed

lemma getExpire_spec [spec]:
  assumes "rep s v" "i < v_n v"
    and "\<And>s'. rep s' v \<Longrightarrow> env s' = env s \<Longrightarrow> Q (s', case v_ttl v i k of None \<Rightarrow> -1 | Some t \<Rightarrow> t)"
  shows "wp (getExpire s i k) Q"
proof (cases "dictSize (expires (dbs s ! i)) = 0")
  case True
  then show ?thesis using assms(1) dictSize_expires [OF assms(1,2) True] assms(3) [of s]
    by (simp add: getExpire_def)
next
  case False
  obtain e r where e: "dictFind (expires_type s) (expires (dbs s ! i)) k = Some (e, r)" "rep (set_expires s i e) v"
      "v_ttl v i k = map_option (\<lambda>loc. de_val (entry_at e loc)) r"
    using find_expires [OF assms(1,2), of k] by blast
  show ?thesis
  proof (cases r)
    case None
    then show ?thesis using False e assms(3) [of "set_expires s i e"] by (simp add: getExpire_def)
  next
    case (Some loc)
    let ?s = "set_expires s i e"
    obtain d kde where d: "dictFind (main_type ?s) (main_dict (dbs ?s ! i)) k = Some (d, kde)"
        "rep (set_main ?s i d) v"
        "case kde of None \<Rightarrow> v_kv v i k = None
         | Some loc \<Rightarrow> loc_ok d loc \<and> de_key (entry_at d loc) = k \<and> obj_ok (de_val (entry_at d loc)) \<and>
                       v_kv v i k = Some (absval (de_val (entry_at d loc)))"
      using find_main [OF e(2) assms(2), of k] by blast
    have t: "v_ttl v i k = Some (de_val (entry_at e loc))" using e(3) Some by simp
    then have "kde \<noteq> None" using d(3) rep_ttl_kv [OF e(2), of i k] by (cases kde) auto
    then show ?thesis using False Some e(1) d(1,2) t assms(3) [of "set_main ?s i d"]
      by (simp add: getExpire_def)
  qed
qed

lemma removeExpire_spec [spec]:
  assumes "rep s v" "i < v_n v" "v_kv v i k \<noteq> None"
    and "\<And>s'. rep s' (v_setttl v i k None) \<Longrightarrow> env s' = env s \<Longrightarrow> Q (s', v_ttl v i k \<noteq> None)"
  shows "wp (removeExpire s i k) Q"
proof -
  obtain d r where d: "dictFind (main_type s) (main_dict (dbs s ! i)) k = Some (d, r)" "rep (set_main s i d) v" "r \<noteq> None"
    using find_main [OF assms(1,2), of k] assms(3) by (fastforce split: option.splits)
  let ?s = "set_main s i d" and ?m = "dict_lookup (expires_type s) (expires (dbs s ! i))"
  have x: "expires (dbs ?s ! i) = expires (dbs s ! i)" using assms(2) by (simp add: rep_n [OF assms(1)])
  obtain e c where e: "dictDelete (expires_type s) (expires (dbs s ! i)) k =
       Some (e, if ?m k = None then DICT_ERR else DICT_OK, c)"
      "dict_ok (expires_type s) e" "dict_lookup (expires_type s) e = ?m(k := None)"
    using keyptr_dict.map_delete [OF rep_db(2) [OF assms(1,2)], of k] by blast
  have "rep (set_expires ?s i e) (v_setttl v i k None)"
    using rep_expires_upd [OF d(2) assms(2), of e k None] e(2,3) x by simp
  then show ?thesis using d(1,3) e(1) x rep_db(6) [OF assms(1,2), of k] assms(4) [of "set_expires ?s i e"]
    by (simp add: removeExpire_def split: if_splits)
qed

text \<open>Room for \<open>n\<close> more keys in a database.\<close>

definition v_fits :: "view \<Rightarrow> nat \<Rightarrow> nat \<Rightarrow> bool" where
  "v_fits v i n \<longleftrightarrow> card (dom (v_kv v i)) + n < 2 ^ 58"

abbreviation v_room :: "view \<Rightarrow> nat \<Rightarrow> bool" where
  "v_room v i \<equiv> v_fits v i 0"

lemma main_size:
  assumes "rep s v" "i < v_n v"
  shows "dictSize (main_dict (dbs s ! i)) = card (dom (v_kv v i))" "finite (dom (v_kv v i))"
proof -
  note sz = db_dict.map_size [OF rep_db(1) [OF assms]]
  have "dom (v_kv v i) = dom (dict_lookup (main_type s) (main_dict (dbs s ! i)))"
    using rep_db(5) [OF assms] by (auto simp: dom_def)
  then show "dictSize (main_dict (dbs s ! i)) = card (dom (v_kv v i))" "finite (dom (v_kv v i))"
    using sz by simp_all
qed

lemma expires_size:
  assumes "rep s v" "i < v_n v" "v_room v i"
  shows "dictSize (expires (dbs s ! i)) < 2 ^ 58"
proof -
  note sz = keyptr_dict.map_size [OF rep_db(2) [OF assms(1,2)]]
  have "dom (dict_lookup (expires_type s) (expires (dbs s ! i))) \<subseteq> dom (v_kv v i)"
  proof
    fix k assume "k \<in> dom (dict_lookup (expires_type s) (expires (dbs s ! i)))"
    then have "v_ttl v i k \<noteq> None" using rep_db(6) [OF assms(1,2), of k] by (simp add: domIff)
    then show "k \<in> dom (v_kv v i)" using rep_ttl_kv [OF assms(1), of i k] by (cases "v_kv v i k") auto
  qed
  then have "card (dom (dict_lookup (expires_type s) (expires (dbs s ! i)))) \<le> card (dom (v_kv v i))"
    using main_size(2) [OF assms(1,2)] by (rule card_mono [rotated])
  then show ?thesis using sz assms(3) by (simp add: v_fits_def)
qed

definition v_remember :: "view \<Rightarrow> nat option \<Rightarrow> nat \<Rightarrow> sds \<Rightarrow> view" where
  "v_remember v c i k =
     (case c of None \<Rightarrow> v
      | Some c \<Rightarrow>
          if masterhost (v_env v) \<and> \<not> repl_slave_ro (v_env v) \<and> \<not> flag_master (clients (v_srv v) c)
          then v_call v (RememberSlaveKey i k) else v)"

lemma setExpire_spec [spec]:
  assumes "rep s v" "i < v_n v" "v_room v i" "v_kv v i k \<noteq> None"
    and "\<And>s'. rep s' (v_remember (v_setttl v i k (Some when)) c i k) \<Longrightarrow> env s' = env s \<Longrightarrow> Q s'"
  shows "wp (setExpire s c i k when) Q"
proof -
  obtain d loc where d: "dictFind (main_type s) (main_dict (dbs s ! i)) k = Some (d, Some loc)"
      "rep (set_main s i d) v" "de_key (entry_at d loc) = k"
    using find_main [OF assms(1,2), of k] assms(4) by (fastforce split: option.splits)
  let ?s = "set_main s i d" and ?x = "expires (dbs s ! i)"
  have x: "expires (dbs ?s ! i) = ?x" using assms(2) by (simp add: rep_n [OF assms(1)])
  obtain e eloc where e: "dictAddOrFind (dict_can_resize (env s)) 0 (expires_type s) ?x k = Some (e, Some eloc)"
      "dict_ok (expires_type s) e" "loc_ok e eloc" "de_key (entry_at e eloc) = k"
      "dict_lookup (expires_type s) e = (if dict_lookup (expires_type s) ?x k = None
         then (dict_lookup (expires_type s) ?x)(k \<mapsto> 0) else dict_lookup (expires_type s) ?x)"
    using keyptr_dict.map_add_or_find [OF rep_db(2) [OF assms(1,2)] expires_size [OF assms(1-3)],
        of "dict_can_resize (env s)" 0 k] by blast
  note sv = keyptr_dict.map_set_val [OF e(2,3), of "when"]
  let ?e = "dictSetVal (expires_type s) e eloc when"
  have lk: "dict_lookup (expires_type s) ?e = (dict_lookup (expires_type s) ?x)(k := Some when)"
    using sv(2) e(4,5) by auto
  have r: "rep (set_expires ?s i ?e) (v_setttl v i k (Some when))"
    using rep_expires_upd [OF d(2) assms(2), of ?e k "Some when"] sv(1) lk x assms(4) by simp
  define s1 where "s1 = set_expires ?s i ?e"
  have s1: "rep s1 (v_setttl v i k (Some when))" "env s1 = env s" using r by (simp_all add: s1_def)
  have c: "flag_master (clients s c) = flag_master (clients (v_srv v) c)" for c
    by (rule rep_client_fields [OF assms(1)])
  show ?thesis
  proof (cases c)
    case None
    then show ?thesis using d(1,3) e(1) x s1 assms(5) [of s1]
      by (simp add: setExpire_def v_remember_def s1_def Let_def)
  next
    case (Some cc)
    define s2 where "s2 = (if masterhost (env s) \<and> \<not> repl_slave_ro (env s) \<and> \<not> flag_master (clients s cc)
        then server_call s1 (RememberSlaveKey i k) else s1)"
    have "rep s2 (v_remember (v_setttl v i k (Some when)) c i k)" "env s2 = env s"
      using s1 Some c rep_env [OF assms(1)] by (auto simp: s2_def v_remember_def rep_call)
    then have "Q s2" by (rule assms(5))
    then show ?thesis using Some d(1,3) e(1) x by (auto simp: setExpire_def s2_def s1_def Let_def)
  qed
qed

definition v_now :: "view \<Rightarrow> int" where
  "v_now v = (if lua_caller (v_env v) \<noteq> None then lua_time_start (v_env v) else mstime (v_env v))"

text \<open>A key is logically expired when its time has passed, outside of loading.\<close>

definition v_expired :: "view \<Rightarrow> nat \<Rightarrow> sds \<Rightarrow> bool" where
  "v_expired v i k \<longleftrightarrow>
     (case v_ttl v i k of None \<Rightarrow> False | Some t \<Rightarrow> 0 \<le> t \<and> t < v_now v \<and> \<not> loading (v_env v))"

definition v_propagateExpire :: "view \<Rightarrow> nat \<Rightarrow> sds \<Rightarrow> bool \<Rightarrow> view" where
  "v_propagateExpire v i k lazy =
     (let args = [if lazy then bs ''UNLINK'' else bs ''DEL'', k];
          v = (if aof_on (v_env v) then v_call v (FeedAppendOnlyFile (delCommand_ptr (v_env v)) i args) else v)
      in v_call v (FeedSlaves i args))"

lemma rep_propagateExpire: "rep s v \<Longrightarrow> rep (propagateExpire s i k lazy) (v_propagateExpire v i k lazy)"
  by (simp add: propagateExpire_def v_propagateExpire_def rep_env Let_def) (auto intro: rep_call)

lemma propagateExpire_env [simp]: "env (propagateExpire s i k lazy) = env s"
  by (simp add: propagateExpire_def Let_def)

definition v_expire_event :: "view \<Rightarrow> nat \<Rightarrow> sds \<Rightarrow> view" where
  "v_expire_event v i k =
     v_call (v_propagateExpire (v\<lparr>v_srv := (v_srv v)\<lparr>stat_expiredkeys := stat_expiredkeys (v_srv v) + 1\<rparr>\<rparr>)
       i k (lazyfree_lazy_expire (v_env v))) (NotifyKeyspaceEvent ''expired'' k i)"

definition v_expire :: "view \<Rightarrow> nat \<Rightarrow> sds \<Rightarrow> view" where
  "v_expire v i k =
     (if v_expired v i k \<and> \<not> masterhost (v_env v)
      then v_dbdel (lazyfree_lazy_expire (v_env v)) (v_expire_event v i k) i k else v)"

lemma v_event_simps [simp]:
  "v_n (v_expire_event v i k) = v_n v" "v_kv (v_expire_event v i k) = v_kv v"
  "v_ttl (v_expire_event v i k) = v_ttl v" "v_wk (v_expire_event v i k) = v_wk v"
  "v_env (v_expire_event v i k) = v_env v" "clients (v_srv (v_expire_event v i k)) = clients (v_srv v)"
  by (simp_all add: v_expire_event_def v_propagateExpire_def Let_def)

lemma expireIfNeeded_spec [spec]:
  assumes "rep s v" "i < v_n v"
    and "\<And>s'. rep s' (v_expire v i k) \<Longrightarrow> env s' = env s \<Longrightarrow> Q (s', v_expired v i k)"
  shows "wp (expireIfNeeded s i k) Q"
  unfolding expireIfNeeded_def
proof (rule wp_bind, rule getExpire_spec [OF assms(1,2)], unfold prod.case)
  fix s1 assume s1: "rep s1 v" "env s1 = env s"
  have e: "env s = v_env v" using rep_env [OF assms(1)] .
  let ?t = "case v_ttl v i k of None \<Rightarrow> -1 | Some t \<Rightarrow> t"
  define s2 where "s2 = notifyKeyspaceEvent
      (propagateExpire (s1\<lparr>stat_expiredkeys := stat_expiredkeys s1 + 1\<rparr>) i k (lazyfree_lazy_expire (env s1))) ''expired'' k i"
  have s2: "rep s2 (v_expire_event v i k)" "env s2 = env s"
  proof -
    have "rep (s1\<lparr>stat_expiredkeys := stat_expiredkeys s1 + 1\<rparr>)
        (v\<lparr>v_srv := (v_srv v)\<lparr>stat_expiredkeys := stat_expiredkeys (v_srv v) + 1\<rparr>\<rparr>)"
      using rep_stats(1) [OF s1(1)] rep_stat_val(1) [OF s1(1)] by simp
    then show "rep s2 (v_expire_event v i k)" using s1(2) e
      by (simp add: s2_def v_expire_event_def notifyKeyspaceEvent_def rep_propagateExpire rep_call)
    show "env s2 = env s" using s1(2) by (simp add: s2_def notifyKeyspaceEvent_def)
  qed
  have ex: "v_expired v i k \<longleftrightarrow> \<not> ?t < 0 \<and> \<not> loading (env s1) \<and> \<not> v_now v \<le> ?t"
    using s1(2) e by (auto simp: v_expired_def split: option.splits)
  have now: "(if lua_caller (env s1) \<noteq> None then lua_time_start (env s1) else mstime (env s1)) = v_now v"
    using s1(2) e by (simp add: v_now_def)
  have del: "wp (if lazyfree_lazy_expire (env s2) then dbAsyncDelete s2 i k else dbSyncDelete s2 i k) Q"
    if x: "v_expired v i k" "\<not> masterhost (env s1)"
  proof -
    have "\<exists>t. v_ttl v i k = Some t" using x(1) by (auto simp: v_expired_def split: option.splits)
    then have kv: "v_kv v i k \<noteq> None" using rep_ttl_kv [OF assms(1), of i k] by (cases "v_kv v i k") auto
    have post: "Q (s', v_kv (v_expire_event v i k) i k \<noteq> None)"
      if "rep s' (v_dbdel (lazyfree_lazy_expire (v_env v)) (v_expire_event v i k) i k)" "env s' = env s2" for s'
      using assms(3) [of s'] that x kv s1(2) s2(2) e by (simp add: v_expire_def)
    have i: "i < v_n (v_expire_event v i k)" using assms(2) by simp
    show ?thesis
    proof (cases "lazyfree_lazy_expire (v_env v)")
      case True
      then show ?thesis using s2(2) e post by (simp add: dbAsyncDelete_spec [OF s2(1) i])
    next
      case False
      then show ?thesis using s2(2) e post by (simp add: dbSyncDelete_spec [OF s2(1) i])
    qed
  qed
  have no: "Q (s1, v_expired v i k)" if "\<not> (v_expired v i k \<and> \<not> masterhost (env s1))"
  proof -
    have "v_expire v i k = v" using that s1(2) e by (auto simp: v_expire_def)
    then show ?thesis using assms(3) [of s1] s1 by simp
  qed
  have s2': "notifyKeyspaceEvent (propagateExpire (s1\<lparr>stat_expiredkeys := stat_expiredkeys s1 + 1\<rparr>) i k
      (lazyfree_lazy_expire (env (s1\<lparr>stat_expiredkeys := stat_expiredkeys s1 + 1\<rparr>)))) ''expired'' k i = s2"
    by (simp add: s2_def)
  show "wp (if ?t < 0 then Some (s1, False)
     else if loading (env s1) then Some (s1, False)
     else
       let now = (if lua_caller (env s1) \<noteq> None then lua_time_start (env s1) else mstime (env s1)) in
       if masterhost (env s1) then Some (s1, now > ?t)
       else if now \<le> ?t then Some (s1, False)
       else
         let s = s1\<lparr>stat_expiredkeys := stat_expiredkeys s1 + 1\<rparr>;
             s = propagateExpire s i k (lazyfree_lazy_expire (env s));
             s = notifyKeyspaceEvent s ''expired'' k i
         in if lazyfree_lazy_expire (env s) then dbAsyncDelete s i k else dbSyncDelete s i k) Q"
    unfolding now Let_def s2' using ex no del by auto
qed

lemma v_dbdel_simps [simp]:
  "v_n (v_dbdel b v i k) = v_n v" "v_env (v_dbdel b v i k) = v_env v" "v_wk (v_dbdel b v i k) = v_wk v"
  "clients (v_srv (v_dbdel b v i k)) = clients (v_srv v)"
  "v_kv (v_dbdel b v i k) j k' = (if j = i \<and> k' = k then None else v_kv v j k')"
  by (auto simp: v_dbdel_def v_slotdel_def v_lazyfree_def)

lemma v_dbdel_ttl: "v_kv v i k \<noteq> None \<Longrightarrow> v_ttl (v_dbdel b v i k) j k' = (if j = i \<and> k' = k then None else v_ttl v j k')"
  by (auto simp: v_dbdel_def v_slotdel_def v_lazyfree_def)

lemma v_expire_simps [simp]:
  "v_n (v_expire v i k) = v_n v" "v_env (v_expire v i k) = v_env v" "v_wk (v_expire v i k) = v_wk v"
  "clients (v_srv (v_expire v i k)) = clients (v_srv v)"
  by (simp_all add: v_expire_def)

lemma v_expire_kv:
  "v_kv (v_expire v i k) j k' =
     (if j = i \<and> k' = k \<and> v_expired v i k \<and> \<not> masterhost (v_env v) then None else v_kv v j k')"
  by (auto simp: v_expire_def)

lemma lookupKeyWrite_spec [spec]:
  assumes "rep s v" "i < v_n v"
    and "\<And>s' r. rep s' (v_expire v i k) \<Longrightarrow> env s' = env s \<Longrightarrow> v_kv (v_expire v i k) i k = map_option absval r \<Longrightarrow>
           pred_option obj_ok r \<Longrightarrow> Q (s', r)"
  shows "wp (lookupKeyWrite s i k) Q"
  unfolding lookupKeyWrite_def
  using assms by (auto intro!: wp_intro expireIfNeeded_spec [of s v] lookupKey_spec [of _ "v_expire v i k"])

text \<open>
  Reads: on a replica a logically expired key stays in the database, but a read-only command
  of a client other than the master does not see it.
\<close>

definition v_hidden :: "view \<Rightarrow> nat \<Rightarrow> sds \<Rightarrow> bool" where
  "v_hidden v i k \<longleftrightarrow> v_expired v i k \<and>
     (\<not> masterhost (v_env v) \<or>
      (case current_client (v_env v) of None \<Rightarrow> False
       | Some c \<Rightarrow> Some c \<noteq> master (v_env v) \<and> cmd_readonly (c_cmd (clients (v_srv v) c))))"

definition v_visible :: "view \<Rightarrow> nat \<Rightarrow> sds \<Rightarrow> aval option" where
  "v_visible v i k = (if v_hidden v i k then None else v_kv (v_expire v i k) i k)"

definition v_read :: "view \<Rightarrow> nat \<Rightarrow> sds \<Rightarrow> view" where
  "v_read v i k =
     (let v' = v_expire v i k in
      if v_hidden v i k then v'
      else if v_kv v' i k = None
      then v'\<lparr>v_srv := (v_srv v')\<lparr>stat_keyspace_misses := stat_keyspace_misses (v_srv v') + 1\<rparr>\<rparr>
      else v'\<lparr>v_srv := (v_srv v')\<lparr>stat_keyspace_hits := stat_keyspace_hits (v_srv v') + 1\<rparr>\<rparr>)"

lemma lookupKeyReadWithFlags_spec [spec]:
  assumes "rep s v" "i < v_n v"
    and "\<And>s' r. rep s' (v_read v i k) \<Longrightarrow> env s' = env s \<Longrightarrow> v_visible v i k = map_option absval r \<Longrightarrow>
           pred_option obj_ok r \<Longrightarrow> Q (s', r)"
  shows "wp (lookupKeyReadWithFlags s i k nt) Q"
  unfolding lookupKeyReadWithFlags_def
proof (rule wp_bind, rule expireIfNeeded_spec [OF assms(1,2)], unfold prod.case)
  fix s1 assume s1: "rep s1 (v_expire v i k)" "env s1 = env s"
  have cl: "c_cmd (clients s1 c) = c_cmd (clients (v_srv v) c)" for c
    using rep_client_fields(3) [OF s1(1)] by simp
  let ?h = "v_expired v i k \<and> (\<not> masterhost (env s1) \<or>
      (case current_client (env s1) of None \<Rightarrow> False
       | Some c \<Rightarrow> Some c \<noteq> master (env s1) \<and> cmd_readonly (c_cmd (clients s1 c))))"
  have h: "?h = v_hidden v i k"
    using s1(2) rep_env [OF assms(1)] by (simp add: v_hidden_def cl split: option.splits)
  show "wp (if ?h then Some (s1, None)
       else do {
         (s, val) \<leftarrow> lookupKey s1 i k nt;
         case val of
           None \<Rightarrow> Some (s\<lparr>stat_keyspace_misses := stat_keyspace_misses s + 1\<rparr>, None)
         | Some v \<Rightarrow> Some (s\<lparr>stat_keyspace_hits := stat_keyspace_hits s + 1\<rparr>, Some v)
       }) Q"
    unfolding h
  proof (rule wp_if)
    assume "v_hidden v i k"
    then show "wp (Some (s1, None)) Q" using assms(3) [of s1 None] s1 by (simp add: v_read_def v_visible_def)
  next
    assume nh: "\<not> v_hidden v i k"
    have i: "i < v_n (v_expire v i k)" using assms(2) by simp
    show "wp (do {
         (s, val) \<leftarrow> lookupKey s1 i k nt;
         case val of
           None \<Rightarrow> Some (s\<lparr>stat_keyspace_misses := stat_keyspace_misses s + 1\<rparr>, None)
         | Some v \<Rightarrow> Some (s\<lparr>stat_keyspace_hits := stat_keyspace_hits s + 1\<rparr>, Some v)
       }) Q"
    proof (rule wp_bind, rule lookupKey_spec [OF s1(1) i], unfold prod.case)
      fix s2 r assume s2: "rep s2 (v_expire v i k)" "env s2 = env s1"
        "v_kv (v_expire v i k) i k = map_option absval r" "pred_option obj_ok r"
      show "wp (case r of
           None \<Rightarrow> Some (s2\<lparr>stat_keyspace_misses := stat_keyspace_misses s2 + 1\<rparr>, None)
         | Some v \<Rightarrow> Some (s2\<lparr>stat_keyspace_hits := stat_keyspace_hits s2 + 1\<rparr>, Some v)) Q"
        using s2 s1(2) nh assms(3) rep_stats(2,3) [OF s2(1)] rep_stat_val(2,3) [OF s2(1)]
        by (cases r) (auto simp: v_read_def v_visible_def Let_def)
    qed
  qed
qed

lemma lookupKeyRead_spec [spec]:
  assumes "rep s v" "i < v_n v"
    and "\<And>s' r. rep s' (v_read v i k) \<Longrightarrow> env s' = env s \<Longrightarrow> v_visible v i k = map_option absval r \<Longrightarrow>
           pred_option obj_ok r \<Longrightarrow> Q (s', r)"
  shows "wp (lookupKeyRead s i k) Q"
  unfolding lookupKeyRead_def using assms by (rule lookupKeyReadWithFlags_spec)

section \<open>Replies\<close>

lemma with_client_spec:
  assumes "rep s v" "\<exists>cl. f (clients s c) = Some cl \<and> client_view cl = g (clients (v_srv v) c)"
    and "\<And>s'. rep s' (v_client v c g) \<Longrightarrow> env s' = env s \<Longrightarrow> Q s'"
  shows "wp (with_client s c f) Q"
proof -
  obtain cl where cl: "f (clients s c) = Some cl" "client_view cl = g (clients (v_srv v) c)" using assms(2) by blast
  have "rep (upd_client s c (\<lambda>_. cl)) (v_client v c g)" using rep_upd_client [OF assms(1)] cl(2) by simp
  then show ?thesis using cl(1) assms(3) [of "upd_client s c (\<lambda>_. cl)"] by (simp add: with_client_def)
qed

lemma reply_shared_spec [spec]:
  assumes "rep s v" and "\<And>s'. rep s' (v_put v c b) \<Longrightarrow> env s' = env s \<Longrightarrow> Q s'"
  shows "wp (reply_shared s c b) Q"
  unfolding reply_shared_def using addReplyShared_view [of "clients s c" b] assms rep_client [OF assms(1)]
  by (intro with_client_spec [OF assms(1), where g = "\<lambda>cl. put cl b"]) (simp_all add: v_put_def)

lemma reply_error_spec [spec]:
  assumes "rep s v" and "\<And>s'. rep s' (v_put v c (bs ''-ERR '' @ bs e @ crlf)) \<Longrightarrow> env s' = env s \<Longrightarrow> Q s'"
  shows "wp (reply_error s c e) Q"
  unfolding reply_error_def using assms rep_client [OF assms(1)]
  by (intro with_client_spec [OF assms(1), where g = "\<lambda>cl. put cl (bs ''-ERR '' @ bs e @ crlf)"])
     (simp_all add: v_put_def addReplyError_view)

lemma reply_longlong_spec [spec]:
  assumes "rep s v" "int_fits 8 n" and "\<And>s'. rep s' (v_put v c (int_reply n)) \<Longrightarrow> env s' = env s \<Longrightarrow> Q s'"
  shows "wp (reply_longlong s c n) Q"
  unfolding reply_longlong_def
  using addReplyLongLong_view [OF assms(2), of "clients s c"] assms rep_client [OF assms(1)]
  by (intro with_client_spec [OF assms(1), where g = "\<lambda>cl. put cl (int_reply n)"]) (simp_all add: v_put_def)

lemma reply_bulk_spec [spec]:
  assumes "rep s v" "obj_ok obj" "otype obj = OBJ_STRING" "length (obj_bytes obj) < 2 ^ 63"
    and "\<And>s'. rep s' (v_put v c (bulk_reply (obj_bytes obj))) \<Longrightarrow> env s' = env s \<Longrightarrow> Q s'"
  shows "wp (reply_bulk s c obj) Q"
  unfolding reply_bulk_def
  using addReplyBulk_view [OF assms(2-4), of "clients s c"] assms rep_client [OF assms(1)]
  by (intro with_client_spec [OF assms(1), where g = "\<lambda>cl. put cl (bulk_reply (obj_bytes obj))"]) (simp_all add: v_put_def)

section \<open>Insertion and replacement\<close>

definition is_list :: "aval \<Rightarrow> bool" where
  "is_list a = (case a of AObj obj \<Rightarrow> otype obj = OBJ_LIST | AStr _ \<Rightarrow> False)"

definition v_add :: "view \<Rightarrow> nat \<Rightarrow> sds \<Rightarrow> aval \<Rightarrow> view" where
  "v_add v i k a =
     (let v = v_set v i k a;
          v = (if is_list a then v_call v (SignalListAsReady i k) else v)
      in if cluster_enabled (v_env v) then v_call v (SlotToKeyAdd k) else v)"

lemma v_add_simps [simp]:
  "v_n (v_add v i k a) = v_n v" "v_env (v_add v i k a) = v_env v" "v_wk (v_add v i k a) = v_wk v"
  "v_ttl (v_add v i k a) = v_ttl v" "clients (v_srv (v_add v i k a)) = clients (v_srv v)"
  "v_kv (v_add v i k a) j k' = (if j = i \<and> k' = k then Some a else v_kv v j k')"
  by (simp_all add: v_add_def Let_def)

lemma is_list_absval: "is_list (absval obj) \<longleftrightarrow> otype obj = OBJ_LIST"
  by (simp add: is_list_def absval_def)

lemma dbAdd_spec [spec]:
  assumes "rep s v" "i < v_n v" "v_kv v i k = None" "v_room v i" "obj_ok obj"
    and "\<And>s'. rep s' (v_add v i k (absval obj)) \<Longrightarrow> env s' = env s \<Longrightarrow> Q s'"
  shows "wp (dbAdd s i k obj) Q"
proof -
  let ?m = "dict_lookup (main_type s) (main_dict (dbs s ! i))"
  have none: "?m k = None" using rep_db(5) [OF assms(1,2), of k] assms(3) by simp
  have sz: "dictSize (main_dict (dbs s ! i)) < 2 ^ 58"
    using main_size(1) [OF assms(1,2)] assms(4) by (simp add: v_fits_def)
  obtain d where d: "dictAdd (dict_can_resize (env s)) obj (main_type s) (main_dict (dbs s ! i)) k obj =
        Some (d, DICT_OK)" "dict_ok (main_type s) d" "dict_lookup (main_type s) d = ?m(k \<mapsto> obj)"
    using db_dict.map_add [OF rep_db(1) [OF assms(1,2)] sz, of "dict_can_resize (env s)" obj k obj] none by auto
  define s1 where "s1 = set_main s i d"
  have s1: "rep s1 (v_set v i k (absval obj))" "env s1 = env s"
    using rep_main_upd [OF assms(1,2) d(2,3) assms(5)] by (simp_all add: s1_def)
  define s2 where "s2 = (if otype obj = OBJ_LIST then server_call s1 (SignalListAsReady i k) else s1)"
  define v2 where "v2 = (if is_list (absval obj) then v_call (v_set v i k (absval obj)) (SignalListAsReady i k)
      else v_set v i k (absval obj))"
  have s2: "rep s2 v2" "env s2 = env s" using s1 by (auto simp: s2_def v2_def is_list_absval rep_call)
  define s3 where "s3 = (if cluster_enabled (env s2) then server_call s2 (SlotToKeyAdd k) else s2)"
  have "rep s3 (v_add v i k (absval obj))" "env s3 = env s"
    using s2 rep_env [OF s2(1)] by (auto simp: s3_def v_add_def v2_def Let_def rep_call)
  then have "Q s3" by (rule assms(6))
  moreover have "dbAdd s i k obj = Some s3" using d(1) by (simp add: dbAdd_def s3_def s2_def s1_def Let_def)
  ultimately show ?thesis by simp
qed

lemma obj_store_spec [spec]:
  assumes "rep s v" "i < v_n v" "v_kv v i k \<noteq> None" "obj_ok obj"
    and "\<And>s'. rep s' (v_set v i k (absval obj)) \<Longrightarrow> env s' = env s \<Longrightarrow> Q s'"
  shows "wp (obj_store s i k obj) Q"
proof -
  let ?t = "main_type s" and ?d = "main_dict (dbs s ! i)"
  obtain val where "dict_lookup ?t ?d k = Some val" using rep_db(5) [OF assms(1,2), of k] assms(3) by auto
  then obtain loc where loc: "table_search ?t ?d k (hashFunction ?t k) = Some (Some loc)"
      "dict_ok ?t (dictSetVal ?t ?d loc obj)" "dict_lookup ?t (dictSetVal ?t ?d loc obj) = (dict_lookup ?t ?d)(k \<mapsto> obj)"
    using db_dict.map_store [OF rep_db(1) [OF assms(1,2)], of k val obj] by blast
  have "rep (set_main s i (dictSetVal ?t ?d loc obj)) (v_set v i k (absval obj))"
    by (rule rep_main_upd [OF assms(1,2) loc(2,3) assms(4)])
  then show ?thesis using loc(1) assms(5) by (simp add: obj_store_def)
qed

lemma dbOverwrite_spec [spec]:
  assumes "rep s v" "i < v_n v" "v_kv v i k \<noteq> None" "v_room v i" "obj_ok obj"
    and "\<And>s'. rep s' (v_set v i k (absval obj)) \<Longrightarrow> env s' = env s \<Longrightarrow> Q s'"
  shows "wp (dbOverwrite s i k obj) Q"
proof -
  obtain d loc where d: "dictFind (main_type s) (main_dict (dbs s ! i)) k = Some (d, Some loc)"
      "rep (set_main s i d) v" "dict_ok (main_type s) d"
    using find_main [OF assms(1,2), of k] assms(3) by (fastforce split: option.splits)
  let ?s = "set_main s i d"
  have md: "main_dict (dbs ?s ! i) = d" using assms(2) by (simp add: rep_n [OF assms(1)])
  have sz: "dictSize d < 2 ^ 58" using main_size(1) [OF d(2) assms(2)] assms(4) md by (simp add: v_fits_def)
  obtain d' x where d': "dictReplace (dict_can_resize (env s)) obj (main_type s) d k obj = Some (d', x)"
      "dict_ok (main_type s) d'" "dict_lookup (main_type s) d' = (dict_lookup (main_type s) d)(k \<mapsto> obj)"
    using db_dict.map_replace [OF d(3) sz, of "dict_can_resize (env s)" obj k obj] by blast
  have two: "set_main ?s i d' = set_main s i d'" using assms(2) by (simp add: set_main_def rep_n [OF assms(1)])
  have r: "rep (set_main s i d') (v_set v i k (absval obj))"
    using rep_main_upd [OF d(2) assms(2), of d' k obj] d'(2,3) assms(5) md two by simp
  show ?thesis
  proof (cases "policy_lfu (env s)")
    case False
    obtain n fr where "x = (n, fr)" by (cases x)
    then show ?thesis using False d(1) d'(1) two r assms(6) by (simp add: dbOverwrite_def)
  next
    case True
    define l where "l = lru (de_val (entry_at d loc))"
    obtain m n where u: "updateLFU (set_main s i d') (obj\<lparr>lru := l\<rparr>) = ((set_main s i d')\<lparr>rand_pos := n\<rparr>, obj\<lparr>lru := m\<rparr>)"
      using updateLFU_eq [of "set_main s i d'" "obj\<lparr>lru := l\<rparr>"] by auto
    have "wp (obj_store ((set_main s i d')\<lparr>rand_pos := n\<rparr>) i k (obj\<lparr>lru := m\<rparr>)) Q"
    proof (rule obj_store_spec [OF rep_rand [OF r]])
      show "i < v_n (v_set v i k (absval obj))" "v_kv (v_set v i k (absval obj)) i k \<noteq> None"
        "obj_ok (obj\<lparr>lru := m\<rparr>)" using assms(2,5) by (simp_all add: obj_simps)
      fix s' assume "rep s' (v_set (v_set v i k (absval obj)) i k (absval (obj\<lparr>lru := m\<rparr>)))"
        "env s' = env ((set_main s i d')\<lparr>rand_pos := n\<rparr>)"
      then show "Q s'" using assms(6) [of s'] by (simp add: v_set_triv)
    qed
    moreover obtain n fr where "x = (n, fr)" by (cases x)
    ultimately show ?thesis using True d(1) d'(1) two u by (simp add: dbOverwrite_def l_def)
  qed
qed

lemma v_fits_mono: "v_fits v i n \<Longrightarrow> m \<le> n \<Longrightarrow> v_fits v i m"
  by (simp add: v_fits_def)

lemma v_fits_sub:
  assumes "v_fits v i n" "finite (dom (v_kv v i))" "dom (v_kv v' i) \<subseteq> dom (v_kv v i)"
  shows "v_fits v' i n"
  using assms card_mono [OF assms(2,3)] by (simp add: v_fits_def)

lemma v_fits_insert:
  assumes "v_fits v i (Suc n)" "finite (dom (v_kv v i))" "dom (v_kv v' i) \<subseteq> insert k (dom (v_kv v i))"
  shows "v_fits v' i n"
proof -
  have "card (dom (v_kv v' i)) \<le> card (insert k (dom (v_kv v i)))" using assms(2,3) by (intro card_mono) auto
  also have "\<dots> \<le> Suc (card (dom (v_kv v i)))" using assms(2) by (simp add: card_insert_if)
  finally show ?thesis using assms(1) by (simp add: v_fits_def)
qed

lemma v_fits_expire: "rep s v \<Longrightarrow> i < v_n v \<Longrightarrow> v_fits v i n \<Longrightarrow> v_fits (v_expire v j k) i n"
  by (erule v_fits_sub [OF _ main_size(2)]) (auto simp: v_expire_kv split: if_splits)

section \<open>Modified keys\<close>

definition v_touch :: "view \<Rightarrow> nat \<Rightarrow> sds \<Rightarrow> view" where
  "v_touch v i k =
     v\<lparr>v_srv := touch_clients (v_srv v) (case v_wk v i k of None \<Rightarrow> [] | Some cs \<Rightarrow> cs)\<rparr>"

lemma touch_clients_env [simp]: "env (touch_clients s cs) = env s"
  by (induction cs arbitrary: s) simp_all

lemma v_touch_simps [simp]:
  "v_n (v_touch v i k) = v_n v" "v_kv (v_touch v i k) = v_kv v" "v_ttl (v_touch v i k) = v_ttl v"
  "v_wk (v_touch v i k) = v_wk v" "v_env (v_touch v i k) = v_env v"
  by (simp_all add: v_touch_def)

lemma rep_touch: "rep s v \<Longrightarrow> rep (touch_clients s cs) (v\<lparr>v_srv := touch_clients (v_srv v) cs\<rparr>)"
proof (induction cs arbitrary: s v)
  case (Cons c cs)
  let ?f = "\<lambda>cl. cl\<lparr>flag_dirty_cas := True\<rparr>"
  have "rep (upd_client s c ?f) (v_client v c ?f)"
    using rep_client [OF Cons.prems, of c] by (intro rep_upd_client [OF Cons.prems]) simp
  from Cons.IH [OF this] show ?case by (simp add: v_client_def)
qed simp

lemma fetch_watched:
  assumes "rep s v" "i < v_n v"
  shows "\<exists>d. dictFetchValue (watched_type s) (watched_keys (dbs s ! i)) k = Some (d, v_wk v i k) \<and>
     rep (set_watched s i d) v"
proof -
  obtain d where d: "dictFetchValue (watched_type s) (watched_keys (dbs s ! i)) k =
        Some (d, dict_lookup (watched_type s) (watched_keys (dbs s ! i)) k)" "dict_ok (watched_type s) d"
      "dict_lookup (watched_type s) d = dict_lookup (watched_type s) (watched_keys (dbs s ! i))"
    using keylist_dict.map_fetch [OF rep_db(3) [OF assms], of k] by blast
  then show ?thesis using rep_watched_same [OF assms d(2,3)] rep_db(7) [OF assms, of k] by auto
qed

lemma watched_size_0:
  assumes "rep s v" "i < v_n v" "dictSize (watched_keys (dbs s ! i)) = 0"
  shows "v_wk v i k = None"
proof -
  note sz = keylist_dict.map_size [OF rep_db(3) [OF assms(1,2)]]
  then have "dom (dict_lookup (watched_type s) (watched_keys (dbs s ! i))) = {}" using assms(3) by (metis card_0_eq)
  then show ?thesis using rep_db(7) [OF assms(1,2), of k] by auto
qed

lemma signalModifiedKey_spec [spec]:
  assumes "rep s v" "i < v_n v" and "\<And>s'. rep s' (v_touch v i k) \<Longrightarrow> env s' = env s \<Longrightarrow> Q s'"
  shows "wp (signalModifiedKey s i k) Q"
proof (cases "dictSize (watched_keys (dbs s ! i)) = 0")
  case True
  then have "v_touch v i k = v" using watched_size_0 [OF assms(1,2)] by (simp add: v_touch_def)
  then show ?thesis using True assms(1) assms(3) [of s] by (simp add: signalModifiedKey_def touchWatchedKey_def)
next
  case False
  obtain d where d: "dictFetchValue (watched_type s) (watched_keys (dbs s ! i)) k = Some (d, v_wk v i k)"
      "rep (set_watched s i d) v"
    using fetch_watched [OF assms(1,2), of k] by blast
  show ?thesis
  proof (cases "v_wk v i k")
    case None
    then have "v_touch v i k = v" by (simp add: v_touch_def)
    then show ?thesis using False None d assms(3) [of "set_watched s i d"]
      by (simp add: signalModifiedKey_def touchWatchedKey_def)
  next
    case (Some cs)
    then have "rep (touch_clients (set_watched s i d) cs) (v_touch v i k)"
      using rep_touch [OF d(2)] by (simp add: v_touch_def)
    then show ?thesis using False Some d(1) assms(3) [of "touch_clients (set_watched s i d) cs"]
      by (simp add: signalModifiedKey_def touchWatchedKey_def)
  qed
qed

definition v_setkey :: "view \<Rightarrow> nat \<Rightarrow> sds \<Rightarrow> aval \<Rightarrow> view" where
  "v_setkey v i k a =
     (let v = v_expire v i k;
          v = (if v_kv v i k = None then v_add v i k a else v_set v i k a)
      in v_touch (v_setttl v i k None) i k)"

lemma setKey_spec [spec]:
  assumes "rep s v" "i < v_n v" "v_room v i" "obj_ok obj"
    and "\<And>s'. rep s' (v_setkey v i k (absval obj)) \<Longrightarrow> env s' = env s \<Longrightarrow> Q s'"
  shows "wp (setKey s i k obj) Q"
  unfolding setKey_def
proof (rule wp_bind, rule lookupKeyWrite_spec [OF assms(1,2)], unfold prod.case)
  fix s1 r assume s1: "rep s1 (v_expire v i k)" "env s1 = env s" "v_kv (v_expire v i k) i k = map_option absval r"
  let ?v1 = "v_expire v i k"
  let ?v2 = "if v_kv ?v1 i k = None then v_add ?v1 i k (absval obj) else v_set ?v1 i k (absval obj)"
  have i: "i < v_n ?v1" and room: "v_room ?v1 i" using assms v_fits_expire by auto
  have r: "r = None \<longleftrightarrow> v_kv ?v1 i k = None" using s1(3) by (simp only: option.map_disc_iff)
  have rest: "wp (do { (s, r) \<leftarrow> removeExpire s2 i k; signalModifiedKey s i k }) Q"
    if s2: "rep s2 ?v2" "env s2 = env s1" for s2
  proof (rule wp_bind, rule removeExpire_spec [OF s2(1)], unfold prod.case)
    fix s3 assume s3: "rep s3 (v_setttl ?v2 i k None)" "env s3 = env s2"
    show "wp (signalModifiedKey s3 i k) Q"
      using s3 i s2(2) s1(2) assms(5) by (intro signalModifiedKey_spec [OF s3(1)]) (auto simp: v_setkey_def Let_def)
  qed (use i in auto)
  show "wp (do { s \<leftarrow> (if r = None then dbAdd s1 i k obj else dbOverwrite s1 i k obj);
        (s, r) \<leftarrow> removeExpire s i k; signalModifiedKey s i k }) Q"
  proof (rule wp_bind, rule wp_if)
    assume "r = None"
    then show "wp (dbAdd s1 i k obj) (\<lambda>s. wp (do { (s, r) \<leftarrow> removeExpire s i k; signalModifiedKey s i k }) Q)"
      using rest r by (intro dbAdd_spec [OF s1(1) i _ room assms(4)]) simp_all
  next
    assume "r \<noteq> None"
    then obtain a where "v_kv ?v1 i k = Some a" using r by blast
    then show "wp (dbOverwrite s1 i k obj) (\<lambda>s. wp (do { (s, r) \<leftarrow> removeExpire s i k; signalModifiedKey s i k }) Q)"
      using rest r by (intro dbOverwrite_spec [OF s1(1) i _ room assms(4)]) simp_all
  qed
qed

lemma dbUnshareStringValue_spec [spec]:
  assumes "rep s v" "i < v_n v" "v_room v i" "v_kv v i k = Some (absval obj)" "obj_ok obj" "otype obj = OBJ_STRING"
    and "\<And>s' obj'. rep s' v \<Longrightarrow> env s' = env s \<Longrightarrow> otype obj' = OBJ_STRING \<Longrightarrow>
           ptr obj' = PSds (obj_bytes obj) \<Longrightarrow> encoding obj' = OBJ_ENCODING_RAW \<Longrightarrow> Q (s', obj')"
  shows "wp (dbUnshareStringValue s i k obj) Q"
proof (cases "refcount_at (env s) i k \<noteq> 1 \<or> encoding obj \<noteq> OBJ_ENCODING_RAW")
  case False
  then have "ptr obj = PSds (obj_bytes obj)"
    using string_cases [OF assms(5,6)] by (metis obj_bytes_def obj_encoding.distinct(1) obj_ptr.simps(10))
  then show ?thesis using False assms by (simp add: dbUnshareStringValue_def)
next
  case True
  obtain d where d: "getDecodedObject s obj = Some d" "ptr d = PSds (obj_bytes obj)"
    using getDecodedObject_ok [OF assms(5,6)] by blast
  let ?o = "createRawStringObject s (obj_bytes obj)"
  have o: "obj_ok ?o" "otype ?o = OBJ_STRING" "obj_bytes ?o = obj_bytes obj" by (simp_all add: create_ok)
  have "v_set v i k (absval ?o) = v" using assms(4,6) o by (simp add: v_set_triv absval_def)
  then have "wp (dbOverwrite s i k ?o) (\<lambda>s'. Q (s', ?o))"
    using assms o by (intro dbOverwrite_spec [OF assms(1,2)])
      (auto simp: createRawStringObject_def createObject_def)
  then show ?thesis using True assms(6) d by (auto simp: dbUnshareStringValue_def wp_def)
qed

section \<open>Lookup or reply\<close>

lemma lookupKeyReadOrReply_spec [spec]:
  assumes "rep s v" "i < v_n v" "i = c_db (clients (v_srv v) c)"
    and "\<And>s'. rep s' (v_put (v_read v i k) c b) \<Longrightarrow> env s' = env s \<Longrightarrow> v_visible v i k = None \<Longrightarrow> Q (s', None)"
    and "\<And>s' obj. rep s' (v_read v i k) \<Longrightarrow> env s' = env s \<Longrightarrow> v_visible v i k = Some (absval obj) \<Longrightarrow>
           obj_ok obj \<Longrightarrow> Q (s', Some obj)"
  shows "wp (lookupKeyReadOrReply s c k b) Q"
  unfolding lookupKeyReadOrReply_def
proof (rule wp_bind)
  have db: "c_db (clients s c) = i" using rep_client_fields(1) [OF assms(1)] assms(3) by simp
  show "wp (lookupKeyRead s (c_db (clients s c)) k) (\<lambda>x. wp (case x of (s, obj) \<Rightarrow>
      (case obj of None \<Rightarrow> map_option (\<lambda>s. (s, None)) (reply_shared s c b) | Some obj \<Rightarrow> Some (s, Some obj))) Q)"
    unfolding db
  proof (rule lookupKeyRead_spec [OF assms(1,2)], unfold prod.case)
    fix s1 r assume s1: "rep s1 (v_read v i k)" "env s1 = env s" "v_visible v i k = map_option absval r" "pred_option obj_ok r"
    show "wp (case r of None \<Rightarrow> map_option (\<lambda>s. (s, None)) (reply_shared s1 c b) | Some obj \<Rightarrow> Some (s1, Some obj)) Q"
    proof (cases r)
      case None
      then show ?thesis using s1 assms(4) by (auto intro!: wp_map reply_shared_spec [OF s1(1)])
    next
      case (Some obj)
      then show ?thesis using s1 assms(5) by simp
    qed
  qed
qed

lemma lookupKeyWriteOrReply_spec [spec]:
  assumes "rep s v" "i < v_n v" "i = c_db (clients (v_srv v) c)"
    and "\<And>s'. rep s' (v_put (v_expire v i k) c b) \<Longrightarrow> env s' = env s \<Longrightarrow> v_kv (v_expire v i k) i k = None \<Longrightarrow> Q (s', None)"
    and "\<And>s' obj. rep s' (v_expire v i k) \<Longrightarrow> env s' = env s \<Longrightarrow> v_kv (v_expire v i k) i k = Some (absval obj) \<Longrightarrow>
           obj_ok obj \<Longrightarrow> Q (s', Some obj)"
  shows "wp (lookupKeyWriteOrReply s c k b) Q"
  unfolding lookupKeyWriteOrReply_def
proof (rule wp_bind)
  have db: "c_db (clients s c) = i" using rep_client_fields(1) [OF assms(1)] assms(3) by simp
  show "wp (lookupKeyWrite s (c_db (clients s c)) k) (\<lambda>x. wp (case x of (s, obj) \<Rightarrow>
      (case obj of None \<Rightarrow> map_option (\<lambda>s. (s, None)) (reply_shared s c b) | Some obj \<Rightarrow> Some (s, Some obj))) Q)"
    unfolding db
  proof (rule lookupKeyWrite_spec [OF assms(1,2)], unfold prod.case)
    fix s1 r assume s1: "rep s1 (v_expire v i k)" "env s1 = env s" "v_kv (v_expire v i k) i k = map_option absval r" "pred_option obj_ok r"
    show "wp (case r of None \<Rightarrow> map_option (\<lambda>s. (s, None)) (reply_shared s1 c b) | Some obj \<Rightarrow> Some (s1, Some obj)) Q"
    proof (cases r)
      case None
      then show ?thesis using s1 assms(4) by (auto intro!: wp_map reply_shared_spec [OF s1(1)])
    next
      case (Some obj)
      then show ?thesis using s1 assms(5) by simp
    qed
  qed
qed

section \<open>Whole databases\<close>

definition v_clear :: "view \<Rightarrow> nat \<Rightarrow> view" where
  "v_clear v j = v\<lparr>v_kv := (v_kv v)(j := (\<lambda>_. None)), v_ttl := (v_ttl v)(j := (\<lambda>_. None))\<rparr>"

lemma v_clear_simps [simp]:
  "v_n (v_clear v j) = v_n v" "v_srv (v_clear v j) = v_srv v" "v_wk (v_clear v j) = v_wk v"
  "v_kv (v_clear v j) i k = (if i = j then None else v_kv v i k)"
  "v_ttl (v_clear v j) i k = (if i = j then None else v_ttl v i k)"
  by (simp_all add: v_clear_def)

lemma db_upd_commute: "(db::redisDb)\<lparr>expires := e, main_dict := d\<rparr> = db\<lparr>main_dict := d, expires := e\<rparr>"
  by (cases db) simp

lemma rep_clear:
  assumes "rep s v" "j < v_n v" "dict_ok (main_type s) d" "dict_ok (expires_type s) e"
    and "\<And>k. dict_lookup (main_type s) d k = None" "\<And>k. dict_lookup (expires_type s) e k = None"
  shows "rep (set_expires (set_main s j d) j e) (v_clear v j)"
proof -
  let ?v1 = "v\<lparr>v_ttl := (v_ttl v)(j := dict_lookup (expires_type s) e)\<rparr>"
  have "ttl_ok ?v1" using assms(1,6) by (simp add: rep_def ttl_ok_def)
  then have r1: "rep (set_expires s j e) ?v1" using assms by (intro rep_set_expires [OF assms(1,2,4)]) simp_all
  have n: "j < v_n ?v1" using assms(2) by simp
  have "rep (set_main (set_expires s j e) j d) (v_clear v j)"
    by (rule rep_set_main [OF r1 n])
       (use assms(1,3,5,6) in \<open>auto simp: v_clear_def rep_def ttl_ok_def fun_eq_iff\<close>)
  moreover have "set_main (set_expires s j e) j d = set_expires (set_main s j d) j e"
    using assms(2) by (simp add: set_main_def set_expires_def rep_n [OF assms(1)]) (subst db_upd_commute, rule refl)
  ultimately show ?thesis by simp
qed

lemma dict_empty_ok:
  "dict_ok t dictCreate" "dict_lookup t dictCreate k = None"
  "dict_ok t (fst (dictEmpty t cb d))" "dict_lookup t (fst (dictEmpty t cb d)) k = None"
  by (simp_all add: dictEmpty_def dictClear_def dictCreate_def dict_ok_def dict_tables_def dict_entries_def
      keys_uniq_def dict_lookup_def)

definition v_empty1 :: "bool \<Rightarrow> view \<Rightarrow> nat \<Rightarrow> view" where
  "v_empty1 async v j =
     (if async then v_call (v_clear v j) (LazyFreeDicts (card (dom (v_kv v j)))) else v_clear v j)"

fun v_empty_loop :: "view \<Rightarrow> int \<Rightarrow> bool \<Rightarrow> nat list \<Rightarrow> nat \<Rightarrow> view \<times> nat" where
  "v_empty_loop v dbnum async [] removed = (v, removed)"
| "v_empty_loop v dbnum async (j # js) removed =
     (if dbnum \<noteq> -1 \<and> dbnum \<noteq> int j then v_empty_loop v dbnum async js removed
      else v_empty_loop (v_empty1 async v j) dbnum async js (removed + card (dom (v_kv v j))))"

lemma v_empty1_simps [simp]: "v_n (v_empty1 a v j) = v_n v" "v_env (v_empty1 a v j) = v_env v"
    "v_wk (v_empty1 a v j) = v_wk v"
    "v_kv (v_empty1 a v j) i k = (if i = j then None else v_kv v i k)"
    "v_ttl (v_empty1 a v j) i k = (if i = j then None else v_ttl v i k)"
    "clients (v_srv (v_empty1 a v j)) = clients (v_srv v)"
  by (simp_all add: v_empty1_def)

lemma v_empty_loop_simps [simp]:
  "v_n (fst (v_empty_loop v dbnum a js m)) = v_n v" "v_env (fst (v_empty_loop v dbnum a js m)) = v_env v"
  "v_wk (fst (v_empty_loop v dbnum a js m)) = v_wk v"
  "clients (v_srv (fst (v_empty_loop v dbnum a js m))) = clients (v_srv v)"
  by (induction js arbitrary: v m) simp_all

lemma v_empty_loop_kv:
  "v_kv (fst (v_empty_loop v dbnum a js m)) i k =
     (if i \<in> set js \<and> (dbnum = -1 \<or> dbnum = int i) then None else v_kv v i k)"
proof (induction js arbitrary: v m)
  case (Cons j js)
  show ?case
  proof (cases "dbnum \<noteq> -1 \<and> dbnum \<noteq> int j")
    case True
    then have "v_empty_loop v dbnum a (j # js) m = v_empty_loop v dbnum a js m" by simp
    then show ?thesis using Cons.IH [of v m] True by auto
  next
    case False
    have "v_empty_loop v dbnum a (j # js) m = v_empty_loop (v_empty1 a v j) dbnum a js (m + card (dom (v_kv v j)))"
      unfolding v_empty_loop.simps if_not_P [OF False] by (rule refl)
    with False show ?thesis using Cons.IH [of "v_empty1 a v j" "m + card (dom (v_kv v j))"]
      by (cases "i = j") auto
  qed
qed simp

lemma v_empty_loop_ttl:
  "v_ttl (fst (v_empty_loop v dbnum a js m)) i k =
     (if i \<in> set js \<and> (dbnum = -1 \<or> dbnum = int i) then None else v_ttl v i k)"
proof (induction js arbitrary: v m)
  case (Cons j js)
  show ?case
  proof (cases "dbnum \<noteq> -1 \<and> dbnum \<noteq> int j")
    case True
    then have "v_empty_loop v dbnum a (j # js) m = v_empty_loop v dbnum a js m" by simp
    then show ?thesis using Cons.IH [of v m] True by auto
  next
    case False
    have "v_empty_loop v dbnum a (j # js) m = v_empty_loop (v_empty1 a v j) dbnum a js (m + card (dom (v_kv v j)))"
      unfolding v_empty_loop.simps if_not_P [OF False] by (rule refl)
    with False show ?thesis using Cons.IH [of "v_empty1 a v j" "m + card (dom (v_kv v j))"]
      by (cases "i = j") auto
  qed
qed simp

lemma emptyDb_loop_spec:
  assumes "rep s v" "\<forall>j \<in> set js. j < v_n v"
  shows "\<exists>s'. emptyDb_loop s dbnum async js m = (s', snd (v_empty_loop v dbnum async js m)) \<and>
     rep s' (fst (v_empty_loop v dbnum async js m)) \<and> env s' = env s"
  using assms
proof (induction js arbitrary: s v m)
  case (Cons j js)
  show ?case
  proof (cases "dbnum \<noteq> -1 \<and> dbnum \<noteq> int j")
    case True
    then show ?thesis using Cons by simp
  next
    case False
    have j: "j < v_n v" using Cons.prems by simp
    have sz: "dictSize (main_dict (dbs s ! j)) = card (dom (v_kv v j))" by (rule main_size(1) [OF Cons.prems(1) j])
    define s1 where "s1 = (if async then emptyDbAsync s j
        else set_expires (set_main s j (fst (dictEmpty (main_type s) False (main_dict (dbs s ! j))))) j
               (fst (dictEmpty (expires_type s) False (expires (dbs s ! j)))))"
    have x: "expires (dbs (set_main s j d) ! j) = expires (dbs s ! j)" for d
      using j by (simp add: rep_n [OF Cons.prems(1)])
    have "rep s1 (v_empty1 async v j)" "env s1 = env s"
      using rep_clear [OF Cons.prems(1) j dict_empty_ok(1,1,2,2)] rep_clear [OF Cons.prems(1) j dict_empty_ok(3,3,4,4)] sz
      by (simp_all add: s1_def v_empty1_def emptyDbAsync_def Let_def rep_call)
    then obtain s' where "emptyDb_loop s1 dbnum async js (m + card (dom (v_kv v j))) =
        (s', snd (v_empty_loop (v_empty1 async v j) dbnum async js (m + card (dom (v_kv v j)))))"
        "rep s' (fst (v_empty_loop (v_empty1 async v j) dbnum async js (m + card (dom (v_kv v j)))))" "env s' = env s"
      using Cons.IH [of s1 "v_empty1 async v j" "m + card (dom (v_kv v j))"] Cons.prems(2) by auto
    moreover have "emptyDb_loop s dbnum async (j # js) m = emptyDb_loop s1 dbnum async js (m + card (dom (v_kv v j)))"
      unfolding emptyDb_loop.simps if_not_P [OF False] using sz x by (simp add: s1_def Let_def)
    moreover have "v_empty_loop v dbnum async (j # js) m =
        v_empty_loop (v_empty1 async v j) dbnum async js (m + card (dom (v_kv v j)))"
      unfolding v_empty_loop.simps if_not_P [OF False] by (rule refl)
    ultimately show ?thesis by metis
  qed
qed simp

definition v_emptyDb :: "view \<Rightarrow> int \<Rightarrow> bool \<Rightarrow> view" where
  "v_emptyDb v dbnum async =
     (let v = fst (v_empty_loop v dbnum async [0..<v_n v] 0);
          v = (if cluster_enabled (v_env v) then v_call v (SlotToKeyFlush async) else v)
      in if dbnum = -1 then v_call v FlushSlaveKeys else v)"

definition v_removed :: "view \<Rightarrow> int \<Rightarrow> nat" where
  "v_removed v dbnum =
     sum_list (map (\<lambda>j. if dbnum = -1 \<or> dbnum = int j then card (dom (v_kv v j)) else 0) [0..<v_n v])"

lemma v_empty_loop_removed:
  "distinct js \<Longrightarrow> snd (v_empty_loop v dbnum a js m) =
     m + sum_list (map (\<lambda>j. if dbnum = -1 \<or> dbnum = int j then card (dom (v_kv v j)) else 0) js)"
proof (induction js arbitrary: v m)
  case (Cons j js)
  show ?case
  proof (cases "dbnum \<noteq> -1 \<and> dbnum \<noteq> int j")
    case True
    then show ?thesis using Cons by simp
  next
    case False
    let ?f = "\<lambda>v i. if dbnum = -1 \<or> dbnum = int i then card (dom (v_kv v i)) else 0"
    have "v_kv (v_empty1 a v j) i = v_kv v i" if "i \<in> set js" for i using that Cons.prems by auto
    then have eq: "map (?f (v_empty1 a v j)) js = map (?f v) js" by simp
    have "snd (v_empty_loop v dbnum a (j # js) m) =
        snd (v_empty_loop (v_empty1 a v j) dbnum a js (m + card (dom (v_kv v j))))"
      unfolding v_empty_loop.simps if_not_P [OF False] by (rule refl)
    also have "\<dots> = m + card (dom (v_kv v j)) + sum_list (map (?f (v_empty1 a v j)) js)"
      using Cons.IH Cons.prems by simp
    also have "\<dots> = m + sum_list (map (?f v) (j # js))" unfolding eq using False by auto
    finally show ?thesis .
  qed
qed simp

lemma emptyDb_spec:
  assumes "rep s v" "-1 \<le> dbnum" "dbnum < int (v_n v)"
  shows "\<exists>s'. emptyDb s dbnum async = (s', int (v_removed v dbnum)) \<and> rep s' (v_emptyDb v dbnum async) \<and> env s' = env s"
proof -
  obtain s1 where s1: "emptyDb_loop s dbnum async [0..<length (dbs s)] 0 =
      (s1, snd (v_empty_loop v dbnum async [0..<v_n v] 0))"
      "rep s1 (fst (v_empty_loop v dbnum async [0..<v_n v] 0))" "env s1 = env s"
    using emptyDb_loop_spec [OF assms(1), of "[0..<v_n v]" dbnum async 0] by (auto simp: rep_n [OF assms(1)])
  have r: "snd (v_empty_loop v dbnum async [0..<v_n v] 0) = v_removed v dbnum"
    by (simp add: v_removed_def v_empty_loop_removed)
  have "\<not> (dbnum < -1 \<or> dbnum \<ge> int (length (dbs s)))" using assms by (simp add: rep_n)
  then show ?thesis using s1 r rep_env [OF assms(1)]
    by (auto simp: emptyDb_def v_emptyDb_def Let_def intro!: rep_call)
qed

text \<open>A flush marks every client that watches a key it removes.\<close>

definition v_watches :: "view \<Rightarrow> int \<Rightarrow> nat \<Rightarrow> (sds \<times> nat) list \<Rightarrow> bool" where
  "v_watches v dbid c wks \<longleftrightarrow>
     (\<exists>(k, i) \<in> set wks. (dbid = -1 \<or> int i = dbid) \<and> v_kv v i k \<noteq> None)"

definition v_mark :: "view \<Rightarrow> nat \<Rightarrow> view" where
  "v_mark v c = v_client v c (\<lambda>cl. cl\<lparr>flag_dirty_cas := True\<rparr>)"

lemma v_mark_simps [simp]:
  "v_n (v_mark v c) = v_n v" "v_kv (v_mark v c) = v_kv v" "v_ttl (v_mark v c) = v_ttl v" "v_wk (v_mark v c) = v_wk v"
  "w_keys (clients (v_srv (v_mark v c)) c') = w_keys (clients (v_srv v) c')" "v_env (v_mark v c) = v_env v"
  "client_list (v_srv (v_mark v c)) = client_list (v_srv v)"
  by (simp_all add: v_mark_def)

lemma v_mark_mark [simp]: "v_mark (v_mark v c) c = v_mark v c"
  by (simp add: v_mark_def v_client_def upd_client_def)

lemma rep_mark: "rep s v \<Longrightarrow> rep (upd_client s c (\<lambda>cl. cl\<lparr>flag_dirty_cas := True\<rparr>)) (v_mark v c)"
  unfolding v_mark_def using rep_client by (intro rep_upd_client) simp_all

lemma touch_flush_keys_spec:
  assumes "rep s v" "\<forall>(k, i) \<in> set wks. i < v_n v"
  shows "\<exists>s'. touch_flush_keys s dbid c wks = Some s' \<and> rep s' (if v_watches v dbid c wks then v_mark v c else v) \<and>
    env s' = env s"
  using assms
proof (induction wks arbitrary: s v)
  case (Cons w wks)
  obtain k i where w: "w = (k, i)" by (cases w)
  show ?case
  proof (cases "dbid = -1 \<or> int i = dbid")
    case False
    then have "v_watches v dbid c (w # wks) = v_watches v dbid c wks" by (simp add: v_watches_def w)
    then show ?thesis using False Cons by (simp add: w)
  next
    case True
    have i: "i < v_n v" using Cons.prems(2) w by simp
    obtain d r where d: "dictFind (main_type s) (main_dict (dbs s ! i)) k = Some (d, r)" "rep (set_main s i d) v"
        "(r \<noteq> None) = (v_kv v i k \<noteq> None)"
      using find_main [OF Cons.prems(1) i, of k] by (fastforce split: option.splits)
    define s1 where "s1 = (if r \<noteq> None then upd_client (set_main s i d) c (\<lambda>cl. cl\<lparr>flag_dirty_cas := True\<rparr>) else set_main s i d)"
    define v1 where "v1 = (if r \<noteq> None then v_mark v c else v)"
    have s1: "rep s1 v1" "env s1 = env s" using d(2) rep_mark by (auto simp: s1_def v1_def)
    have "v_n v1 = v_n v" by (simp add: v1_def)
    then have wk1: "\<forall>(k, i) \<in> set wks. i < v_n v1" using Cons.prems(2) by simp
    obtain s' where s': "touch_flush_keys s1 dbid c wks = Some s'"
        "rep s' (if v_watches v1 dbid c wks then v_mark v1 c else v1)" "env s' = env s1"
      using Cons.IH [OF s1(1) wk1] by blast
    have "v_watches v1 dbid c wks = v_watches v dbid c wks" by (simp add: v1_def v_watches_def)
    moreover have "v_watches v dbid c (w # wks) \<longleftrightarrow> r \<noteq> None \<or> v_watches v dbid c wks"
      using True d(3) by (auto simp: v_watches_def w)
    ultimately have "(if v_watches v1 dbid c wks then v_mark v1 c else v1) =
        (if v_watches v dbid c (w # wks) then v_mark v c else v)" by (simp add: v1_def)
    moreover have "touch_flush_keys s dbid c (w # wks) = touch_flush_keys s1 dbid c wks"
      using True d(1) by (simp add: w s1_def)
    ultimately show ?thesis using s' s1(2) by simp
  qed
qed (simp add: v_watches_def)

definition v_touch_flush :: "view \<Rightarrow> int \<Rightarrow> nat list \<Rightarrow> view" where
  "v_touch_flush v dbid cs =
     v\<lparr>v_srv := (v_srv v)\<lparr>clients := (\<lambda>c. let cl = clients (v_srv v) c in
         if c \<in> set cs \<and> v_watches v dbid c (w_keys cl) then cl\<lparr>flag_dirty_cas := True\<rparr> else cl)\<rparr>\<rparr>"

lemma v_touch_flush_simps [simp]:
  "v_n (v_touch_flush v d cs) = v_n v" "v_kv (v_touch_flush v d cs) = v_kv v" "v_ttl (v_touch_flush v d cs) = v_ttl v"
  "v_wk (v_touch_flush v d cs) = v_wk v" "v_env (v_touch_flush v d cs) = v_env v"
  by (simp_all add: v_touch_flush_def)

lemma v_touch_flush_Cons:
  "v_touch_flush v dbid (c # cs) =
     v_touch_flush (if v_watches v dbid c (w_keys (clients (v_srv v) c)) then v_mark v c else v) dbid cs"
proof -
  have "v_watches (v_mark v c) dbid c' wks = v_watches v dbid c' wks" for c' wks by (simp add: v_watches_def)
  then show ?thesis
    by (auto simp: v_touch_flush_def v_mark_def v_client_def upd_client_def fun_eq_iff Let_def)
qed

lemma touch_flush_clients_spec:
  assumes "rep s v" "\<forall>c k i. (k, i) \<in> set (w_keys (clients (v_srv v) c)) \<longrightarrow> i < v_n v"
  shows "\<exists>s'. touch_flush_clients s dbid cs = Some s' \<and> rep s' (v_touch_flush v dbid cs) \<and> env s' = env s"
  using assms
proof (induction cs arbitrary: s v)
  case Nil
  then show ?case by (simp add: v_touch_flush_def Let_def)
next
  case (Cons c cs)
  have wk: "w_keys (clients s c) = w_keys (clients (v_srv v) c)" by (rule rep_client_fields [OF Cons.prems(1)])
  let ?v1 = "if v_watches v dbid c (w_keys (clients (v_srv v) c)) then v_mark v c else v"
  obtain s1 where s1: "touch_flush_keys s dbid c (w_keys (clients s c)) = Some s1" "rep s1 ?v1" "env s1 = env s"
    using touch_flush_keys_spec [OF Cons.prems(1), of "w_keys (clients (v_srv v) c)" dbid c] Cons.prems(2) wk
    by (auto split: prod.splits)
  have "\<forall>c k i. (k, i) \<in> set (w_keys (clients (v_srv ?v1) c)) \<longrightarrow> i < v_n ?v1" using Cons.prems(2) by auto
  from Cons.IH [OF s1(2) this] show ?case using s1(1,3) by (simp add: v_touch_flush_Cons)
qed

lemma signalFlushedDb_spec [spec]:
  assumes "rep s v" "\<forall>c k i. (k, i) \<in> set (w_keys (clients (v_srv v) c)) \<longrightarrow> i < v_n v"
    and "\<And>s'. rep s' (v_touch_flush v dbid (client_list (v_srv v))) \<Longrightarrow> env s' = env s \<Longrightarrow> Q s'"
  shows "wp (signalFlushedDb s dbid) Q"
  using touch_flush_clients_spec [OF assms(1,2), of dbid "client_list s"] assms(3) rep_client_list [OF assms(1)]
  by (auto simp: signalFlushedDb_def touchWatchedKeysOnFlush_def wp_def)

text \<open>Swapping two databases.\<close>

definition v_swap :: "view \<Rightarrow> nat \<Rightarrow> nat \<Rightarrow> view" where
  "v_swap v i j = v\<lparr>v_kv := (v_kv v)(i := v_kv v j, j := v_kv v i), v_ttl := (v_ttl v)(i := v_ttl v j, j := v_ttl v i)\<rparr>"

lemma dbSwapDatabases_spec:
  assumes "rep s v" "i < v_n v" "j < v_n v" "i \<noteq> j"
  shows "\<exists>s'. dbSwapDatabases s (int i) (int j) = Some s' \<and>
     rep s' (v_call (v_call (v_swap v i j) (ScanDatabaseForReadyLists i)) (ScanDatabaseForReadyLists j)) \<and> env s' = env s"
proof -
  have n: "i < length (dbs s)" "j < length (dbs s)" using assms by (simp_all add: rep_n)
  let ?a = "dbs s ! i" and ?b = "dbs s ! j"
  let ?a' = "?a\<lparr>main_dict := main_dict ?b, expires := expires ?b, avg_ttl := avg_ttl ?b\<rparr>"
  let ?b' = "?b\<lparr>main_dict := main_dict ?a, expires := expires ?a, avg_ttl := avg_ttl ?a\<rparr>"
  define s1 where "s1 = s\<lparr>dbs := (dbs s)[i := ?a', j := ?b']\<rparr>"
  have db: "db_ok s ?a" "db_ok s ?b" "\<forall>db \<in> set (dbs s). db_ok s db" using assms(1) n by (auto simp: rep_def)
  then have ab: "db_ok s ?a'" "db_ok s ?b'" by (auto simp: db_ok_def)
  have "\<forall>db \<in> set (dbs s1). db_ok s db"
    using set_nth_ball [OF set_nth_ball [OF db(3) ab(1), of i] ab(2), of j] by (simp add: s1_def)
  then have "\<forall>db \<in> set (dbs s1). db_ok s1 db" using db_ok_env [of s1 s] by (simp add: s1_def)
  moreover have "view_of s1 = v_swap v i j"
    using assms(1,4) n unfolding rep_def
    by (auto simp: s1_def view_of_def v_swap_def kv_of_def ttl_of_def wk_of_def fun_eq_iff nth_list_update)
  moreover have "ttl_ok (v_swap v i j)" using assms(1) by (auto simp: rep_def ttl_ok_def v_swap_def)
  ultimately have "rep s1 (v_swap v i j)" by (simp add: rep_def)
  moreover have "dbSwapDatabases s (int i) (int j) =
      Some (server_call (server_call s1 (ScanDatabaseForReadyLists i)) (ScanDatabaseForReadyLists j))"
    using n assms(4) by (simp add: dbSwapDatabases_def s1_def Let_def)
  ultimately show ?thesis by (auto simp: s1_def intro!: rep_call)
qed

end
