(* ===== verification/Command_View.thy ===== *)
theory Command_View
  imports Keyspace_Correct Transactions
begin

text \<open>
  The effect of the shared parts of the commands on the view: counters, events and replies, and
  the part of the clients that the keyspace operations leave alone.
\<close>

section \<open>What the operations keep of a client\<close>

text \<open>Operations on keys change of a client at most its output and the flag \<open>flag_dirty_cas\<close>.\<close>

definition cfix :: "client \<Rightarrow> client" where
  "cfix cl = cl\<lparr>buf := [], flag_dirty_cas := False\<rparr>"

definition v_fix :: "view \<Rightarrow> nat \<Rightarrow> client" where
  "v_fix v c = cfix (clients (v_srv v) c)"

abbreviation v_db :: "view \<Rightarrow> nat \<Rightarrow> nat" where "v_db v c \<equiv> c_db (v_fix v c)"
abbreviation v_args :: "view \<Rightarrow> nat \<Rightarrow> sds list" where "v_args v c \<equiv> argv (v_fix v c)"

named_theorems rep_simps \<open>fields of a server read from its view\<close>

lemma cfix_fields:
  "c_db (cfix cl) = c_db cl" "argv (cfix cl) = argv cl" "c_cmd (cfix cl) = c_cmd cl" "c_lastcmd (cfix cl) = c_lastcmd cl"
  "flag_multi (cfix cl) = flag_multi cl" "flag_dirty_exec (cfix cl) = flag_dirty_exec cl" "flag_lua (cfix cl) = flag_lua cl"
  "flag_master (cfix cl) = flag_master cl" "mstate (cfix cl) = mstate cl" "w_keys (cfix cl) = w_keys cl"
  "flag_force_aof (cfix cl) = flag_force_aof cl" "flag_force_repl (cfix cl) = flag_force_repl cl"
  "flag_prevent_aof_prop (cfix cl) = flag_prevent_aof_prop cl" "flag_pubsub (cfix cl) = flag_pubsub cl"
  "flag_prevent_repl_prop (cfix cl) = flag_prevent_repl_prop cl" "authenticated (cfix cl) = authenticated cl"
  by (simp_all add: cfix_def)

lemma rep_fix [rep_simps]:
  assumes "rep s v"
  shows "c_db (clients s c) = c_db (v_fix v c)" "argv (clients s c) = argv (v_fix v c)"
    "c_cmd (clients s c) = c_cmd (v_fix v c)" "c_lastcmd (clients s c) = c_lastcmd (v_fix v c)"
    "flag_multi (clients s c) = flag_multi (v_fix v c)" "flag_dirty_exec (clients s c) = flag_dirty_exec (v_fix v c)"
    "flag_lua (clients s c) = flag_lua (v_fix v c)" "flag_master (clients s c) = flag_master (v_fix v c)"
    "mstate (clients s c) = mstate (v_fix v c)" "w_keys (clients s c) = w_keys (v_fix v c)"
    "flag_force_aof (clients s c) = flag_force_aof (v_fix v c)"
    "flag_force_repl (clients s c) = flag_force_repl (v_fix v c)"
    "flag_prevent_aof_prop (clients s c) = flag_prevent_aof_prop (v_fix v c)"
    "flag_prevent_repl_prop (clients s c) = flag_prevent_repl_prop (v_fix v c)"
    "flag_pubsub (clients s c) = flag_pubsub (v_fix v c)" "authenticated (clients s c) = authenticated (v_fix v c)"
  by (simp_all add: v_fix_def cfix_fields rep_client_fields [OF assms])

lemma rep_flag_dirty_cas [rep_simps]:
  "rep s v \<Longrightarrow> flag_dirty_cas (clients s c) = flag_dirty_cas (clients (v_srv v) c)"
  by (rule rep_client_fields)

lemmas rep_env' [rep_simps] = rep_env rep_n rep_dirty_val rep_client_list

lemma cfix_put [simp]: "cfix (put cl b) = cfix cl"
  by (simp add: cfix_def put_def)

lemma fix_clients: "clients (v_srv v') = clients (v_srv v) \<Longrightarrow> v_fix v' c = v_fix v c"
  by (simp add: v_fix_def)

section \<open>Counters, events and replies\<close>

definition v_dirty :: "view \<Rightarrow> int \<Rightarrow> view" where
  "v_dirty v n = v\<lparr>v_srv := (v_srv v)\<lparr>dirty := dirty (v_srv v) + n\<rparr>\<rparr>"

abbreviation v_notify :: "view \<Rightarrow> string \<Rightarrow> sds \<Rightarrow> nat \<Rightarrow> view" where
  "v_notify v e k i \<equiv> v_call v (NotifyKeyspaceEvent e k i)"

lemma rep_dirty_add [intro]: "rep s v \<Longrightarrow> rep (dirty_add s n) (v_dirty v n)"
  using rep_dirty [of s v "dirty s + n"] by (simp add: dirty_add_def v_dirty_def rep_dirty_val)

lemma rep_notify [intro]: "rep s v \<Longrightarrow> rep (notifyKeyspaceEvent s e k i) (v_notify v e k i)"
  by (simp add: notifyKeyspaceEvent_def rep_call)

lemma dirty_add_simps [simp]:
  "env (dirty_add s n) = env s" "clients (dirty_add s n) = clients s"
  "env (notifyKeyspaceEvent s e k i) = env s" "clients (notifyKeyspaceEvent s e k i) = clients s"
  by (simp_all add: dirty_add_def notifyKeyspaceEvent_def)

lemma reply_status_spec [spec]:
  assumes "rep s v" and "\<And>s'. rep s' (v_put v c (bs ''+'' @ bs e @ crlf)) \<Longrightarrow> Q s'"
  shows "wp (reply_status s c e) Q"
  unfolding reply_status_def
  by (rule with_client_spec [OF assms(1), where g = "\<lambda>cl. put cl (bs ''+'' @ bs e @ crlf)"])
     (use assms in \<open>simp_all add: addReplyStatus_view rep_client v_put_def\<close>)

lemma reply_object_spec [spec]:
  assumes "rep s v" "obj_ok obj" "otype obj = OBJ_STRING" and "\<And>s'. rep s' (v_put v c (obj_bytes obj)) \<Longrightarrow> Q s'"
  shows "wp (reply_object s c obj) Q"
  unfolding reply_object_def
  by (rule with_client_spec [OF assms(1), where g = "\<lambda>cl. put cl (obj_bytes obj)"])
     (use assms addReply_view [OF assms(2,3)] in \<open>simp_all add: rep_client [OF assms(1), symmetric] v_put_def\<close>)

lemma reply_multibulk_len_spec [spec]:
  assumes "rep s v" "int n < 2 ^ 63" and "\<And>s'. rep s' (v_put v c (multibulk_len n)) \<Longrightarrow> Q s'"
  shows "wp (reply_multibulk_len s c (int n)) Q"
  unfolding reply_multibulk_len_def
  by (rule with_client_spec [OF assms(1), where g = "\<lambda>cl. put cl (multibulk_len n)"])
     (use assms addReplyMultiBulkLen_view [OF assms(2)] in \<open>simp_all add: rep_client [OF assms(1), symmetric] v_put_def\<close>)

definition no_newlines :: "byte list \<Rightarrow> byte list" where
  "no_newlines msg = map (\<lambda>b. if b = 13 \<or> b = 10 then 32 else b) msg"

lemma reply_error_format_spec [spec]:
  assumes "rep s v" and "\<And>s'. rep s' (v_put v c (bs ''-ERR '' @ no_newlines msg @ crlf)) \<Longrightarrow> Q s'"
  shows "wp (reply_error_format s c msg) Q"
  unfolding reply_error_format_def
  by (rule with_client_spec [OF assms(1), where g = "\<lambda>cl. put cl (bs ''-ERR '' @ no_newlines msg @ crlf)"])
     (use assms in \<open>simp_all add: addReplyErrorFormat_def addReplyErrorLength_view rep_client v_put_def no_newlines_def\<close>)

lemma reply_cbuffer_spec [spec]:
  assumes "rep s v" "length b < 2 ^ 63" and "\<And>s'. rep s' (v_put v c (bulk_reply b)) \<Longrightarrow> Q s'"
  shows "wp (reply_cbuffer s c b) Q"
  unfolding reply_cbuffer_def
proof (rule with_client_spec [OF assms(1), where g = "\<lambda>cl. put cl (bulk_reply b)"])
  have "int_fits 8 (int (length b))" using assms(2) by (simp add: int_fits_def)
  then obtain c1 where c1: "addReplyLongLongWithPrefix (clients s c) (int (length b)) 0x24 = Some c1"
      "client_view c1 = put (client_view (clients s c)) ([0x24] @ repr (int (length b)) @ crlf)"
    using prefix_view by blast
  obtain c2 where "addReplyShared (addReplyString c1 b) crlf = Some c2"
      "client_view c2 = put (client_view (addReplyString c1 b)) crlf"
    using addReplyShared_view by blast
  then show "\<exists>cl. addReplyBulkCBuffer (clients s c) b = Some cl \<and> client_view cl = put (clients (v_srv v) c) (bulk_reply b)"
    using c1 assms(1)
    by (auto simp: addReplyBulkCBuffer_def addReplyString_view rep_client bulk_reply_def)
qed (use assms in \<open>auto simp: v_put_def\<close>)

lemma with_client_r_spec:
  assumes "rep s v" "\<exists>cl. f (clients s c) = Some (cl, r) \<and> client_view cl = g (clients (v_srv v) c)"
    and "\<And>s'. rep s' (v_client v c g) \<Longrightarrow> Q (s', r)"
  shows "wp (with_client_r s c f) Q"
proof -
  obtain cl where cl: "f (clients s c) = Some (cl, r)" "client_view cl = g (clients (v_srv v) c)" using assms(2) by blast
  have "rep (upd_client s c (\<lambda>_. cl)) (v_client v c g)" by (rule rep_upd_client [OF assms(1)]) (simp add: cl)
  then show ?thesis using assms(3) cl(1) by (simp add: with_client_r_def)
qed

lemma v_client_id: "v_client v c (\<lambda>cl. cl) = v"
  by (simp add: v_client_def upd_client_def)

definition not_an_integer :: "byte list" where
  "not_an_integer = bs ''-ERR value is not an integer or out of range'' @ crlf"

lemma bs_append: "bs (x @ y) = bs x @ bs y"
  by (simp add: bs_def)

lemma llOrReply_spec:
  assumes "rep s v" "case obj of None \<Rightarrow> r = Some 0 | Some x \<Rightarrow> obj_ok x \<and> otype x = OBJ_STRING \<and> r = string2ll (obj_bytes x)"
    and "r = None \<Longrightarrow> (\<And>s'. rep s' (v_put v c not_an_integer) \<Longrightarrow> Q (s', None))"
    and "\<And>n s'. r = Some n \<Longrightarrow> rep s' v \<Longrightarrow> Q (s', Some n)"
  shows "wp (with_client_r s c (\<lambda>cl. getLongLongFromObjectOrReply cl obj None)) Q"
proof -
  have g: "getLongLongFromObject obj = Some r"
  proof (cases obj)
    case None
    then show ?thesis using assms(2) by (simp add: getLongLongFromObject_def)
  next
    case (Some x)
    then show ?thesis using assms(2) by (simp add: getLongLongFromObject_ok)
  qed
  have m: "bs ''-ERR '' @ bs ''value is not an integer or out of range'' @ crlf = not_an_integer"
    by (simp add: not_an_integer_def bs_append [symmetric])
  show ?thesis
  proof (cases r)
    case None
    then show ?thesis using assms(1,3) g
      by (intro with_client_r_spec [where r = None and g = "\<lambda>cl. put cl not_an_integer" and v = v])
         (simp_all add: getLongLongFromObjectOrReply_def addReplyError_view rep_client v_put_def m)
  next
    case (Some n)
    then show ?thesis using assms(1,4) g
      by (intro with_client_r_spec [where r = "Some n" and g = "\<lambda>cl. cl" and v = v])
         (simp_all add: getLongLongFromObjectOrReply_def rep_client v_client_id)
  qed
qed

lemma argLongLongOrReply_spec [spec]:
  assumes "rep s v"
    and "string2ll a = None \<Longrightarrow> (\<And>s'. rep s' (v_put v c not_an_integer) \<Longrightarrow> Q (s', None))"
    and "\<And>n s'. string2ll a = Some n \<Longrightarrow> rep s' v \<Longrightarrow> Q (s', Some n)"
  shows "wp (argLongLongOrReply s c a None) Q"
  unfolding argLongLongOrReply_def
  by (rule llOrReply_spec [OF assms(1), where r = "string2ll a"]) (use assms create_ok in auto)

definition long_error :: "string option \<Rightarrow> byte list" where
  "long_error msg = bs ''-ERR '' @ bs (case msg of Some m \<Rightarrow> m | None \<Rightarrow> ''value is not an integer or out of range'') @ crlf"

lemma argLongOrReply_spec [spec]:
  assumes "rep s v"
    and "string2ll a = None \<Longrightarrow> (\<And>s'. rep s' (v_put v c (long_error msg)) \<Longrightarrow> Q (s', None))"
    and "\<And>n s'. string2ll a = Some n \<Longrightarrow> rep s' v \<Longrightarrow> Q (s', Some n)"
  shows "wp (argLongOrReply s c a msg) Q"
proof (cases "string2ll a")
  case None
  then show ?thesis unfolding argLongOrReply_def using assms(1,2) getLongLongFromObject_ok [OF create_ok(3,6), of s a]
    by (intro with_client_r_spec [where r = None and g = "\<lambda>cl. put cl (long_error msg)" and v = v])
       (simp_all add: getLongFromObjectOrReply_def getLongLongFromObjectOrReply_def addReplyError_view rep_client
          v_put_def long_error_def create_ok split: option.splits)
next
  case (Some n)
  then have "int_fits 8 n" using string2ll_repr_inv by blast
  then have n: "\<not> n < LLONG_MIN" "\<not> n > LLONG_MAX" by (auto simp: LLONG_MIN_def LLONG_MAX_def int_fits_def)
  show ?thesis unfolding argLongOrReply_def using assms(1,3) Some n getLongLongFromObject_ok [OF create_ok(3,6), of s a]
    by (intro with_client_r_spec [where r = "Some n" and g = "\<lambda>cl. cl" and v = v])
       (simp_all add: getLongFromObjectOrReply_def getLongLongFromObjectOrReply_def rep_client v_client_id create_ok)
qed

lemma checkTypeOrReply_spec [spec]:
  assumes "rep s v"
    and "otype obj \<noteq> type \<Longrightarrow> (\<And>s'. rep s' (v_put v c shared_wrongtypeerr) \<Longrightarrow> Q (s', True))"
    and "otype obj = type \<Longrightarrow> (\<And>s'. rep s' v \<Longrightarrow> Q (s', False))"
  shows "wp (checkTypeOrReply s c obj type) Q"
proof (cases "otype obj = type")
  case True
  then show ?thesis unfolding checkTypeOrReply_def using assms(1,3)
    by (intro with_client_r_spec [where r = False and g = "\<lambda>cl. cl" and v = v])
       (simp_all add: checkType_def rep_client v_client_id)
next
  case False
  then show ?thesis unfolding checkTypeOrReply_def using assms(1,2) addReplyShared_view [of "clients s c" shared_wrongtypeerr]
    by (intro with_client_r_spec [where r = True and g = "\<lambda>cl. put cl shared_wrongtypeerr" and v = v])
       (auto simp: checkType_def rep_client v_put_def)
qed

lemma encodeArg_spec [wp_intro]:
  assumes "\<And>obj. obj_ok obj \<Longrightarrow> otype obj = OBJ_STRING \<Longrightarrow> obj_bytes obj = a \<Longrightarrow> absval obj = AStr a \<Longrightarrow> Q obj"
  shows "wp (encodeArg s j a) Q"
  using tryObjectEncoding_ok [OF create_ok(3,6), of s "argv_refcount (env s) j" s a] assms
  by (auto simp: encodeArg_def absval_def create_ok)

section \<open>Frames\<close>

lemma v_dirty_simps [simp]:
  "v_n (v_dirty v n) = v_n v" "v_kv (v_dirty v n) = v_kv v" "v_ttl (v_dirty v n) = v_ttl v" "v_wk (v_dirty v n) = v_wk v"
  "v_env (v_dirty v n) = v_env v" "clients (v_srv (v_dirty v n)) = clients (v_srv v)"
  "client_list (v_srv (v_dirty v n)) = client_list (v_srv v)"
  by (simp_all add: v_dirty_def)

lemma v_put_srv [simp]:
  "v_env (v_put v c b) = v_env v" "client_list (v_srv (v_put v c b)) = client_list (v_srv v)"
  "clients (v_srv (v_put v c b)) c' = (if c' = c then put (clients (v_srv v) c) b else clients (v_srv v) c')"
  by (simp_all add: v_put_def)

lemma v_put_put [simp]: "v_put (v_put v c a) c b = v_put v c (a @ b)"
  by (simp add: v_put_def v_client_def upd_client_def)

lemma v_read_simps [simp]:
  "v_n (v_read v i k) = v_n v" "v_env (v_read v i k) = v_env v" "v_wk (v_read v i k) = v_wk v"
  "clients (v_srv (v_read v i k)) = clients (v_srv v)" "v_kv (v_read v i k) = v_kv (v_expire v i k)"
  "v_ttl (v_read v i k) = v_ttl (v_expire v i k)"
  by (simp_all add: v_read_def Let_def)

lemma v_remember_simps [simp]:
  "v_n (v_remember v c i k) = v_n v" "v_kv (v_remember v c i k) = v_kv v" "v_ttl (v_remember v c i k) = v_ttl v"
  "v_wk (v_remember v c i k) = v_wk v" "v_env (v_remember v c i k) = v_env v"
  "clients (v_srv (v_remember v c i k)) = clients (v_srv v)"
  by (simp_all add: v_remember_def split: option.splits)

lemma clients_touch_cfix: "cfix (clients (touch_clients s cs) c) = cfix (clients s c)"
  by (induction s cs rule: touch_clients.induct) (auto simp: cfix_def)

lemma client_list_touch [simp]: "client_list (touch_clients s cs) = client_list s"
  by (induction s cs rule: touch_clients.induct) auto

lemma v_fix_basic [simp]:
  "v_fix (v_set v i k a) c = v_fix v c" "v_fix (v_setttl v i k t) c = v_fix v c" "v_fix (v_del v i k) c = v_fix v c"
  "v_fix (v_call v e) c = v_fix v c" "v_fix (v_put v c' b) c = v_fix v c" "v_fix (v_dirty v n) c = v_fix v c"
  "v_fix (v_dbdel lz v i k) c = v_fix v c" "v_fix (v_expire v i k) c = v_fix v c" "v_fix (v_read v i k) c = v_fix v c"
  "v_fix (v_add v i k a) c = v_fix v c" "v_fix (v_remember v c'' i k) c = v_fix v c"
  "v_fix (v_touch v i k) c = v_fix v c" "v_fix (v_clear v i) c = v_fix v c" "v_fix (v_swap v i j) c = v_fix v c"
  "v_fix (v_touch_flush v dbid cs) c = v_fix v c" "v_fix (v_propagateExpire v i k lz) c = v_fix v c"
  by (simp_all add: v_fix_def v_touch_def clients_touch_cfix v_swap_def v_touch_flush_def v_propagateExpire_def Let_def)
     (auto simp: cfix_def)

lemma v_setkey_simps [simp]:
  "v_fix (v_setkey v i k a) c = v_fix v c" "v_n (v_setkey v i k a) = v_n v" "v_env (v_setkey v i k a) = v_env v"
  "v_wk (v_setkey v i k a) = v_wk v"
  by (simp_all add: v_setkey_def Let_def)

lemma v_setkey_kv [simp]:
  "v_kv (v_setkey v i k a) j k' = (if j = i \<and> k' = k then Some a else v_kv v j k')"
  by (auto simp: v_setkey_def Let_def v_expire_kv)

lemma v_emptyDb_simps [simp]:
  "v_fix (v_emptyDb v d as) c = v_fix v c" "v_n (v_emptyDb v d as) = v_n v" "v_env (v_emptyDb v d as) = v_env v"
  "v_wk (v_emptyDb v d as) = v_wk v"
  by (simp_all add: v_emptyDb_def Let_def v_fix_def)

lemma v_emptyDb_kv:
  "i < v_n v \<Longrightarrow> v_kv (v_emptyDb v d as) i k = (if d = -1 \<or> d = int i then None else v_kv v i k)"
  "i < v_n v \<Longrightarrow> v_ttl (v_emptyDb v d as) i k = (if d = -1 \<or> d = int i then None else v_ttl v i k)"
  by (simp_all add: v_emptyDb_def Let_def v_empty_loop_kv v_empty_loop_ttl)

lemma v_swap_simps [simp]:
  "v_n (v_swap v i j) = v_n v" "v_srv (v_swap v i j) = v_srv v" "v_wk (v_swap v i j) = v_wk v"
  by (simp_all add: v_swap_def)

lemma v_client_list [simp]:
  "client_list (v_srv (v_dbdel lz v i k)) = client_list (v_srv v)"
  "client_list (v_srv (v_expire v i k)) = client_list (v_srv v)"
  "client_list (v_srv (v_read v i k)) = client_list (v_srv v)"
  "client_list (v_srv (v_add v i k a)) = client_list (v_srv v)"
  "client_list (v_srv (v_remember v co i k)) = client_list (v_srv v)"
  "client_list (v_srv (v_touch v i k)) = client_list (v_srv v)"
  "client_list (v_srv (v_touch_flush v dbid cs)) = client_list (v_srv v)"
  by (simp_all add: v_dbdel_def v_slotdel_def v_lazyfree_def v_expire_def v_expire_event_def v_propagateExpire_def
        v_read_def v_add_def v_remember_def v_touch_def v_touch_flush_def Let_def split: option.splits)

section \<open>Well-formed views\<close>

text \<open>
  Every client has selected a database that exists and watches keys of such databases, and no string is longer
  than 512 MB.
\<close>

definition vok :: "view \<Rightarrow> bool" where
  "vok v \<longleftrightarrow> (\<forall>c. v_db v c < v_n v) \<and> (\<forall>c k i. (k, i) \<in> set (w_keys (v_fix v c)) \<longrightarrow> i < v_n v) \<and>
     (\<forall>i k b. v_kv v i k = Some (AStr b) \<longrightarrow> length b \<le> 512 * 1024 * 1024)"

named_theorems cmd \<open>facts for the refinement proofs of the commands\<close>

lemma v_db_clients [simp]: "c_db (clients (v_srv v) c) = v_db v c"
  by (simp add: v_fix_def cfix_fields)

lemma arg_rep [rep_simps]:
  "rep s v \<Longrightarrow> arg s c j = (if j < length (v_args v c) then Some (v_args v c ! j) else None)"
  by (simp add: arg_def rep_simps)

lemma vok_db [cmd]: "vok v \<Longrightarrow> v_db v c < v_n v"
  by (simp add: vok_def)

lemma vok_db_le [cmd]: "vok v \<Longrightarrow> \<not> v_n v \<le> v_db v c"
  using vok_db by (simp add: not_le)

lemma vok_string [cmd]: "v_kv v i k = Some (AStr b) \<Longrightarrow> vok v \<Longrightarrow> length b < 9223372036854775808"
  by (fastforce simp: vok_def)

lemma visible_kv: "v_visible v i k = Some a \<Longrightarrow> v_kv v i k = Some a"
  by (auto simp: v_visible_def v_expire_kv split: if_splits)

lemma vok_visible [cmd]: "v_visible v i k = Some (AStr b) \<Longrightarrow> vok v \<Longrightarrow> length b < 9223372036854775808"
  using visible_kv vok_string by blast

lemma vok_fits [cmd]:
  "v_kv v i k = Some (AStr b) \<Longrightarrow> vok v \<Longrightarrow> int_fits 8 (int (length b))"
  "v_visible v i k = Some (AStr b) \<Longrightarrow> vok v \<Longrightarrow> int_fits 8 (int (length b))"
  using vok_string vok_visible by (fastforce simp: int_fits_def)+

lemma vok_expire [cmd]: "vok v \<Longrightarrow> vok (v_expire v i k)"
  by (auto simp: vok_def v_expire_kv)

lemma absval_string [cmd]:
  "absval obj = AStr b \<longleftrightarrow> otype obj = OBJ_STRING \<and> obj_bytes obj = b"
  "otype obj = OBJ_STRING \<Longrightarrow> absval obj = AStr (obj_bytes obj)"
  "otype obj \<noteq> OBJ_STRING \<Longrightarrow> absval obj = AObj (obj\<lparr>lru := 0\<rparr>)"
  by (auto simp: absval_def)

declare Let_def [cmd] int_reply_01 [cmd] stringObjectLen_ok [cmd]

text \<open>From a refinement to a rule for the weakest precondition.\<close>

lemma wp_ref: "wp x (\<lambda>(s', r). rep s' W \<and> r = R) \<Longrightarrow> (\<And>s'. rep s' W \<Longrightarrow> Q (s', R)) \<Longrightarrow> wp x Q"
  by (auto simp: wp_def)

lemma wp_ref1: "wp x (\<lambda>s'. rep s' W) \<Longrightarrow> (\<And>s'. rep s' W \<Longrightarrow> Q s') \<Longrightarrow> wp x Q"
  by (auto simp: wp_def)

lemma lookupKeyReadOrReply_ref [spec]:
  assumes "rep s v" "v_db v c < v_n v"
    and "\<And>s'. rep s' (v_put (v_read v (v_db v c) k) c b) \<Longrightarrow> v_visible v (v_db v c) k = None \<Longrightarrow> Q (s', None)"
    and "\<And>s' obj. rep s' (v_read v (v_db v c) k) \<Longrightarrow> v_visible v (v_db v c) k = Some (absval obj) \<Longrightarrow>
           obj_ok obj \<Longrightarrow> Q (s', Some obj)"
  shows "wp (lookupKeyReadOrReply s c k b) Q"
  using assms by (intro lookupKeyReadOrReply_spec [OF assms(1,2)]) simp_all

lemma lookupKeyWriteOrReply_ref [spec]:
  assumes "rep s v" "v_db v c < v_n v"
    and "\<And>s'. rep s' (v_put (v_expire v (v_db v c) k) c b) \<Longrightarrow> v_kv (v_expire v (v_db v c) k) (v_db v c) k = None \<Longrightarrow> Q (s', None)"
    and "\<And>s' obj. rep s' (v_expire v (v_db v c) k) \<Longrightarrow> v_kv (v_expire v (v_db v c) k) (v_db v c) k = Some (absval obj) \<Longrightarrow>
           obj_ok obj \<Longrightarrow> Q (s', Some obj)"
  shows "wp (lookupKeyWriteOrReply s c k b) Q"
  using assms by (intro lookupKeyWriteOrReply_spec [OF assms(1,2)]) simp_all

lemma lookupKeyWrite_ref [spec]:
  assumes "rep s v" "i < v_n v"
    and "\<And>s'. rep s' (v_expire v i k) \<Longrightarrow> v_kv (v_expire v i k) i k = None \<Longrightarrow> Q (s', None)"
    and "\<And>s' obj. rep s' (v_expire v i k) \<Longrightarrow> v_kv (v_expire v i k) i k = Some (absval obj) \<Longrightarrow> obj_ok obj \<Longrightarrow> Q (s', Some obj)"
  shows "wp (lookupKeyWrite s i k) Q"
proof (rule lookupKeyWrite_spec [OF assms(1,2)])
  fix s' r assume "rep s' (v_expire v i k)" "v_kv (v_expire v i k) i k = map_option absval r" "pred_option obj_ok r"
  then show "Q (s', r)" using assms(3,4) by (cases r) auto
qed

lemma lookupKeyReadWithFlags_ref [spec]:
  assumes "rep s v" "i < v_n v"
    and "\<And>s'. rep s' (v_read v i k) \<Longrightarrow> v_visible v i k = None \<Longrightarrow> Q (s', None)"
    and "\<And>s' obj. rep s' (v_read v i k) \<Longrightarrow> v_visible v i k = Some (absval obj) \<Longrightarrow> obj_ok obj \<Longrightarrow> Q (s', Some obj)"
  shows "wp (lookupKeyReadWithFlags s i k nt) Q"
proof (rule lookupKeyReadWithFlags_spec [OF assms(1,2)])
  fix s' r assume "rep s' (v_read v i k)" "v_visible v i k = map_option absval r" "pred_option obj_ok r"
  then show "Q (s', r)" using assms(3,4) by (cases r) auto
qed

lemma lookupKeyRead_ref [spec]:
  assumes "rep s v" "i < v_n v"
    and "\<And>s'. rep s' (v_read v i k) \<Longrightarrow> v_visible v i k = None \<Longrightarrow> Q (s', None)"
    and "\<And>s' obj. rep s' (v_read v i k) \<Longrightarrow> v_visible v i k = Some (absval obj) \<Longrightarrow> obj_ok obj \<Longrightarrow> Q (s', Some obj)"
  shows "wp (lookupKeyRead s i k) Q"
  unfolding lookupKeyRead_def using assms by (rule lookupKeyReadWithFlags_ref)

definition err :: "string \<Rightarrow> byte list" where "err e = bs ''-ERR '' @ bs e @ crlf"

lemma reply_error_ref [spec]:
  assumes "rep s v" and "\<And>s'. rep s' (v_put v c (err e)) \<Longrightarrow> Q s'"
  shows "wp (reply_error s c e) Q"
  using assms by (intro reply_error_spec [OF assms(1)]) (simp add: err_def)

declare reply_error_spec [spec del]

declare lookupKeyReadOrReply_spec [spec del] lookupKeyWriteOrReply_spec [spec del] lookupKeyWrite_spec [spec del]
  lookupKeyReadWithFlags_spec [spec del] lookupKeyRead_spec [spec del]

text \<open>States reached by updates that need no dictionary.\<close>

named_theorems rep_intro \<open>views of updated states\<close>

lemmas [rep_intro] = rep_dirty_add rep_notify rep_call

text \<open>The number of keys.\<close>

definition vfin :: "view \<Rightarrow> bool" where
  "vfin v \<longleftrightarrow> (\<forall>i. finite (dom (v_kv v i)))"

lemma rep_vfin: "rep s v \<Longrightarrow> vfin v"
  unfolding vfin_def
proof
  fix i assume r: "rep s v"
  show "finite (dom (v_kv v i))"
  proof (cases "i < v_n v")
    case True
    then show ?thesis using main_size(2) [OF r] by simp
  next
    case False
    then have "v_kv v i = (\<lambda>_. None)" using r by (auto simp: rep_def view_of_def)
    then show ?thesis by simp
  qed
qed

lemma vfin_sub: "vfin v \<Longrightarrow> (\<And>i. \<exists>K. finite K \<and> dom (v_kv v' i) \<subseteq> dom (v_kv v i) \<union> K) \<Longrightarrow> vfin v'"
  unfolding vfin_def by (metis finite_UnI finite_subset)

lemma vfin_same [cmd]:
  "vfin (v_setttl v i k t) = vfin v" "vfin (v_call v e) = vfin v" "vfin (v_put v c b) = vfin v"
  "vfin (v_dirty v n) = vfin v" "vfin (v_remember v co i k) = vfin v" "vfin (v_touch v i k) = vfin v"
  by (simp_all add: vfin_def)

lemma v_fits_same [cmd]:
  "v_fits (v_setttl v i k t) = v_fits v" "v_fits (v_call v e) = v_fits v" "v_fits (v_put v c b) = v_fits v"
  "v_fits (v_dirty v n) = v_fits v" "v_fits (v_remember v co i k) = v_fits v" "v_fits (v_touch v i k) = v_fits v"
  by (simp_all add: v_fits_def fun_eq_iff)

lemma dom_expire: "dom (v_kv (v_expire v i k) j) \<subseteq> dom (v_kv v j)"
  by (auto simp: v_expire_kv split: if_splits)

lemma fits_expire [cmd]: "vfin v \<Longrightarrow> v_fits v j n \<Longrightarrow> v_fits (v_expire v i k) j n"
  using v_fits_sub [of v j n "v_expire v i k"] dom_expire by (auto simp: vfin_def)

lemma fits_read [cmd]: "v_fits (v_read v i k) = v_fits (v_expire v i k)" "vfin (v_read v i k) = vfin (v_expire v i k)"
  by (simp_all add: v_fits_def fun_eq_iff vfin_def)

lemma vfin_expire [cmd]: "vfin v \<Longrightarrow> vfin (v_expire v i k)"
  by (erule vfin_sub, rule exI [of _ "{}"]) (simp add: dom_expire)

lemma vfin_set [cmd]: "vfin v \<Longrightarrow> vfin (v_set v i k a)" "vfin v \<Longrightarrow> vfin (v_add v i k a)" "vfin v \<Longrightarrow> vfin (v_setkey v i k a)"
  by (erule vfin_sub, rule exI [of _ "{k}"], force split: if_splits)+

lemma fits_setkey [cmd]: "vfin v \<Longrightarrow> v_fits v i (Suc n) \<Longrightarrow> v_fits (v_setkey v i k a) i n"
  by (rule v_fits_insert [of v i n _ k]) (auto simp: vfin_def split: if_splits)

lemma fits_room [cmd]: "v_fits v i (Suc n) \<Longrightarrow> v_room v i"
  by (simp add: v_fits_def)

lemma fits_dbdel [cmd]: "vfin v \<Longrightarrow> v_fits v j n \<Longrightarrow> v_fits (v_dbdel lz v i k) j n"
  by (rule v_fits_sub [of v j n]) (auto simp: vfin_def split: if_splits)

lemma vfin_dbdel [cmd]: "vfin v \<Longrightarrow> vfin (v_dbdel lz v i k)"
  by (erule vfin_sub, rule exI [of _ "{}"]) (auto split: if_splits)

lemma fits_add [cmd]: "vfin v \<Longrightarrow> v_fits v i (Suc n) \<Longrightarrow> v_fits (v_add v i k a) i n"
  by (rule v_fits_insert [of v i n _ k]) (auto simp: vfin_def split: if_splits)

end
