(* ===== verification/Db_Commands_Correct.thy ===== *)
theory Db_Commands_Correct
  imports Command_View
begin

text \<open>
  What the commands on keys of any type and the commands of expiration do to the view.
\<close>

section \<open>Deleting and counting keys\<close>

fun v_delkeys :: "bool \<Rightarrow> view \<Rightarrow> nat \<Rightarrow> sds list \<Rightarrow> nat \<Rightarrow> view \<times> nat" where
  "v_delkeys lz v i [] n = (v, n)"
| "v_delkeys lz v i (k # ks) n =
     (let v = v_expire v i k in
      if v_kv v i k \<noteq> None
      then v_delkeys lz (v_dirty (v_notify (v_touch (v_dbdel lz v i k) i k) ''del'' k i) 1) i ks (n + 1)
      else v_delkeys lz v i ks n)"

definition v_delGeneric :: "view \<Rightarrow> nat \<Rightarrow> bool \<Rightarrow> sds list \<Rightarrow> view" where
  "v_delGeneric v c lz ks = (let (v', n) = v_delkeys lz v (v_db v c) ks 0 in v_put v' c (int_reply (int n)))"

lemma v_delkeys_count: "snd (v_delkeys lz v i ks n) \<le> n + length ks"
  by (induction lz v i ks n rule: v_delkeys.induct) (fastforce simp: Let_def)+

lemma dbdel_none: "v_kv v i k = None \<Longrightarrow> v_dbdel lz v i k = v"
  by (simp add: v_dbdel_def)

lemma del_loop_ref:
  assumes "rep s v" "v_db v c = i" "i < v_n v"
  shows "wp (del_loop s c lz ks n) (\<lambda>(s', r). rep s' (fst (v_delkeys lz v i ks n)) \<and> r = snd (v_delkeys lz v i ks n))"
  using assms
proof (induction lz v i ks n arbitrary: s rule: v_delkeys.induct)
  case (2 lz v i k ks n)
  show ?case using 2(3-5) 2(1,2) [OF refl]
    apply (simp add: rep_simps)
    apply (rule wp_intro conjI impI rep_intro | (rule spec, assumption) | (rule spec, (rule rep_intro)+, assumption) |
      thin_tac "env _ = env _" | clarsimp simp: rep_simps cmd | (simp add: rep_notify rep_dirty_add dbdel_none cmd)[1])+
    done
qed auto

text \<open>A loop that counts, and the reply with the count.\<close>

lemma count_reply:
  assumes "wp x (\<lambda>(s', r). rep s' (fst w) \<and> r = snd w)" "snd w \<le> n" "n < 2 ^ 31"
  shows "wp (x \<bind> (\<lambda>(s, n). reply_longlong s c (int n)))
    (\<lambda>s'. rep s' (let (v', n) = w in v_put v' c (int_reply (int n))))"
proof -
  have "int_fits 8 (int (snd w))" using assms(2,3) by (simp add: int_fits_def)
  then show ?thesis
    by (intro wp_bind, intro wp_ref [OF assms(1)]) (auto simp: split_def Let_def intro!: reply_longlong_spec)
qed

lemma delGenericCommand_ref:
  assumes "rep s v" "vok v" "v_args v c = a0 # ks" "length ks < 2 ^ 31"
  shows "wp (delGenericCommand s c lz) (\<lambda>s'. rep s' (v_delGeneric v c lz ks))"
  unfolding delGenericCommand_def v_delGeneric_def rep_simps [OF assms(1)] assms(3) list.sel
  by (rule count_reply [OF del_loop_ref [OF assms(1) refl vok_db [OF assms(2)]] v_delkeys_count [where n = 0, simplified] assms(4)])

fun v_exists_loop :: "view \<Rightarrow> nat \<Rightarrow> sds list \<Rightarrow> nat \<Rightarrow> view \<times> nat" where
  "v_exists_loop v i [] n = (v, n)"
| "v_exists_loop v i (k # ks) n =
     (let v = v_expire v i k in v_exists_loop v i ks (if v_kv v i k \<noteq> None then n + 1 else n))"

definition v_exists :: "view \<Rightarrow> nat \<Rightarrow> sds list \<Rightarrow> view" where
  "v_exists v c ks = (let (v', n) = v_exists_loop v (v_db v c) ks 0 in v_put v' c (int_reply (int n)))"

lemma v_exists_count: "snd (v_exists_loop v i ks n) \<le> n + length ks"
  by (induction v i ks n rule: v_exists_loop.induct) (fastforce simp: Let_def)+

lemma exists_loop_ref:
  assumes "rep s v" "v_db v c = i" "i < v_n v"
  shows "wp (exists_loop s c ks n) (\<lambda>(s', r). rep s' (fst (v_exists_loop v i ks n)) \<and> r = snd (v_exists_loop v i ks n))"
  using assms
proof (induction v i ks n arbitrary: s rule: v_exists_loop.induct)
  case (2 v i k ks n)
  show ?case using 2(2-4) 2(1) [OF refl]
    apply (simp add: rep_simps)
    apply (rule wp_intro conjI impI rep_intro | (rule spec, assumption) | (rule spec, (rule rep_intro)+, assumption) |
      thin_tac "env _ = env _" | clarsimp simp: rep_simps cmd | (simp add:  cmd)[1])+
    done
qed auto

lemma existsCommand_ref:
  assumes "rep s v" "vok v" "v_args v c = a0 # ks" "length ks < 2 ^ 31"
  shows "wp (existsCommand s c) (\<lambda>s'. rep s' (v_exists v c ks))"
  unfolding existsCommand_def v_exists_def rep_simps [OF assms(1)] assms(3) list.sel
  by (rule count_reply [OF exists_loop_ref [OF assms(1) refl vok_db [OF assms(2)]] v_exists_count [where n = 0, simplified] assms(4)])

fun v_touch_loop :: "view \<Rightarrow> nat \<Rightarrow> sds list \<Rightarrow> nat \<Rightarrow> view \<times> nat" where
  "v_touch_loop v i [] n = (v, n)"
| "v_touch_loop v i (k # ks) n = v_touch_loop (v_read v i k) i ks (if v_visible v i k \<noteq> None then n + 1 else n)"

definition v_touchCommand :: "view \<Rightarrow> nat \<Rightarrow> sds list \<Rightarrow> view" where
  "v_touchCommand v c ks = (let (v', n) = v_touch_loop v (v_db v c) ks 0 in v_put v' c (int_reply (int n)))"

lemma v_touch_count: "snd (v_touch_loop v i ks n) \<le> n + length ks"
  by (induction v i ks n rule: v_touch_loop.induct) fastforce+

lemma touch_loop_ref:
  assumes "rep s v" "v_db v c = i" "i < v_n v"
  shows "wp (touch_loop s c ks n) (\<lambda>(s', r). rep s' (fst (v_touch_loop v i ks n)) \<and> r = snd (v_touch_loop v i ks n))"
  using assms
proof (induction v i ks n arbitrary: s rule: v_touch_loop.induct)
  case (2 v i k ks n)
  show ?case using 2(2-4) 2(1)
    apply (simp add: rep_simps)
    apply (rule wp_intro conjI impI rep_intro | (rule spec, assumption) | (rule spec, (rule rep_intro)+, assumption) |
      thin_tac "env _ = env _" | clarsimp simp: rep_simps cmd | (simp add:  cmd)[1])+
    done
qed auto

lemma touchCommand_ref:
  assumes "rep s v" "vok v" "v_args v c = a0 # ks" "length ks < 2 ^ 31"
  shows "wp (touchCommand s c) (\<lambda>s'. rep s' (v_touchCommand v c ks))"
  unfolding touchCommand_def v_touchCommand_def rep_simps [OF assms(1)] assms(3) list.sel
  by (rule count_reply [OF touch_loop_ref [OF assms(1) refl vok_db [OF assms(2)]] v_touch_count [where n = 0, simplified] assms(4)])

section \<open>Databases\<close>

definition v_select :: "view \<Rightarrow> nat \<Rightarrow> nat \<Rightarrow> view" where
  "v_select v c j = v_client v c (\<lambda>cl. cl\<lparr>c_db := j\<rparr>)"

lemma rep_select [rep_intro]: "rep s v \<Longrightarrow> rep (upd_client s c (\<lambda>cl. cl\<lparr>c_db := j\<rparr>)) (v_select v c j)"
  unfolding v_select_def by (rule rep_upd_client) (simp_all add: rep_client)

lemma selectDb_rep:
  "rep s v \<Longrightarrow> selectDb s c n = (if n < 0 \<or> n \<ge> int (v_n v) then None else Some (upd_client s c (\<lambda>cl. cl\<lparr>c_db := nat n\<rparr>)))"
  by (simp add: selectDb_def rep_n)

lemma v_select_simps [simp]:
  "v_n (v_select v c j) = v_n v" "v_kv (v_select v c j) = v_kv v" "v_ttl (v_select v c j) = v_ttl v"
  "v_wk (v_select v c j) = v_wk v" "v_env (v_select v c j) = v_env v"
  "v_fix (v_select v c j) c' = (if c' = c then (v_fix v c)\<lparr>c_db := j\<rparr> else v_fix v c')"
  by (simp_all add: v_select_def v_fix_def cfix_def del: v_db_clients)

definition v_selectCommand :: "view \<Rightarrow> nat \<Rightarrow> sds \<Rightarrow> view" where
  "v_selectCommand v c a =
     (case string2ll a of
        None \<Rightarrow> v_put v c (long_error (Some ''invalid DB index''))
      | Some n \<Rightarrow>
          if cluster_enabled (v_env v) \<and> n \<noteq> 0 then v_put v c (err ''SELECT is not allowed in cluster mode'')
          else if wrap32 n < 0 \<or> wrap32 n \<ge> int (v_n v) then v_put v c (err ''DB index is out of range'')
          else v_put (v_select v c (nat (wrap32 n))) c shared_ok)"

lemma selectCommand_ref:
  assumes "rep s v" "v_args v c = a0 # a # rest"
  shows "wp (selectCommand s c) (\<lambda>s'. rep s' (v_selectCommand v c a))"
  unfolding selectCommand_def using assms
  apply (simp add: rep_simps)
  apply (rule wp_intro conjI impI rep_intro | (rule spec, assumption) | (rule spec, (rule rep_intro)+, assumption) |
      thin_tac "env _ = env _" | clarsimp simp: rep_simps cmd | (simp add: v_selectCommand_def selectDb_rep cmd)[1])+
  done

definition v_dbsize :: "view \<Rightarrow> nat \<Rightarrow> view" where
  "v_dbsize v c = v_put v c (int_reply (int (card (dom (v_kv v (v_db v c))))))"

lemma dbsizeCommand_ref:
  assumes "rep s v" "vok v" "v_room v (v_db v c)"
  shows "wp (dbsizeCommand s c) (\<lambda>s'. rep s' (v_dbsize v c))"
proof -
  have "int_fits 8 (int (card (dom (v_kv v (v_db v c)))))" using assms(3) by (simp add: v_fits_def int_fits_def)
  then show ?thesis
    unfolding dbsizeCommand_def v_dbsize_def
    by (simp add: rep_simps [OF assms(1)] main_size [OF assms(1) vok_db [OF assms(2)]])
       (rule reply_longlong_spec [OF assms(1)], auto)
qed

definition v_type_name :: "view \<Rightarrow> aval option \<Rightarrow> string" where
  "v_type_name v a =
     (case a of
        None \<Rightarrow> ''none''
      | Some (AStr _) \<Rightarrow> ''string''
      | Some (AObj obj) \<Rightarrow>
          (case otype obj of
             OBJ_STRING \<Rightarrow> ''string'' | OBJ_LIST \<Rightarrow> ''list'' | OBJ_SET \<Rightarrow> ''set'' | OBJ_ZSET \<Rightarrow> ''zset''
           | OBJ_HASH \<Rightarrow> ''hash'' | OBJ_MODULE \<Rightarrow> mt_name (v_env v) (ptr obj)))"

definition v_type :: "view \<Rightarrow> nat \<Rightarrow> sds \<Rightarrow> view" where
  "v_type v c k =
     (let i = v_db v c in v_put (v_read v i k) c (bs ''+'' @ bs (v_type_name v (v_visible v i k)) @ crlf))"

lemma type_name_rep: "rep s v \<Longrightarrow> type_name s obj = v_type_name v (map_option absval obj)"
  by (auto simp: type_name_def v_type_name_def absval_def rep_env split: option.splits obj_type.splits)

lemma v_type_name_read: "v_type_name (v_read v i k) a = v_type_name v a"
  by (simp add: v_type_name_def split: option.split aval.split obj_type.split)

lemma typeCommand_ref:
  assumes "rep s v" "vok v" "v_args v c = a0 # k # rest"
  shows "wp (typeCommand s c) (\<lambda>s'. rep s' (v_type v c k))"
  unfolding typeCommand_def using assms
  apply (simp add: rep_simps)
  apply (rule wp_intro conjI impI rep_intro | (rule spec, assumption) | (rule spec, (rule rep_intro)+, assumption) |
      thin_tac "env _ = env _" | clarsimp simp: rep_simps cmd | (simp add: v_type_def type_name_rep v_type_name_read cmd)[1])+
  done

definition v_swapdb :: "view \<Rightarrow> nat \<Rightarrow> sds \<Rightarrow> sds \<Rightarrow> view" where
  "v_swapdb v c a1 a2 =
     (if cluster_enabled (v_env v) then v_put v c (err ''SWAPDB is not allowed in cluster mode'')
      else
        case string2ll a1 of
          None \<Rightarrow> v_put v c (long_error (Some ''invalid first DB index''))
        | Some id1 \<Rightarrow>
            (case string2ll a2 of
               None \<Rightarrow> v_put v c (long_error (Some ''invalid second DB index''))
             | Some id2 \<Rightarrow>
                 let i = wrap32 id1; j = wrap32 id2 in
                 if i < 0 \<or> i \<ge> int (v_n v) \<or> j < 0 \<or> j \<ge> int (v_n v) then v_put v c (err ''DB index is out of range'')
                 else
                   let v = (if i = j then v
                            else v_call (v_call (v_swap v (nat i) (nat j)) (ScanDatabaseForReadyLists (nat i)))
                                   (ScanDatabaseForReadyLists (nat j)))
                   in v_put (v_dirty v 1) c shared_ok))"

lemma swap_reply:
  assumes "rep s v"
  shows "wp (case dbSwapDatabases s i j of
               None \<Rightarrow> reply_error s c ''DB index is out of range''
             | Some s \<Rightarrow> reply_shared (dirty_add s 1) c shared_ok)
    (\<lambda>s'. rep s' (if i < 0 \<or> i \<ge> int (v_n v) \<or> j < 0 \<or> j \<ge> int (v_n v) then v_put v c (err ''DB index is out of range'')
       else v_put (v_dirty (if i = j then v
         else v_call (v_call (v_swap v (nat i) (nat j)) (ScanDatabaseForReadyLists (nat i)))
                (ScanDatabaseForReadyLists (nat j))) 1) c shared_ok))"
proof (cases "i < 0 \<or> i \<ge> int (v_n v) \<or> j < 0 \<or> j \<ge> int (v_n v)")
  case True
  then have "dbSwapDatabases s i j = None" using rep_n [OF assms] by (simp add: dbSwapDatabases_def)
  then show ?thesis using True by (auto intro!: reply_error_ref [OF assms])
next
  case False
  then have n: "nat i < v_n v" "nat j < v_n v" "int (nat i) = i" "int (nat j) = j" by auto
  let ?w = "if i = j then v else v_call (v_call (v_swap v (nat i) (nat j)) (ScanDatabaseForReadyLists (nat i)))
      (ScanDatabaseForReadyLists (nat j))"
  obtain s' where s': "dbSwapDatabases s i j = Some s'" "rep s' ?w"
  proof (cases "i = j")
    case True
    then show ?thesis using that False rep_n [OF assms] assms by (simp add: dbSwapDatabases_def)
  next
    case neq: False
    then have "nat i \<noteq> nat j" using False by auto
    then show ?thesis using that dbSwapDatabases_spec [OF assms n(1,2)] n neq by auto
  qed
  show ?thesis unfolding s'(1) option.case if_not_P [OF False] by (rule reply_shared_spec [OF rep_dirty_add [OF s'(2)]])
qed

lemma swapdbCommand_ref:
  assumes "rep s v" "v_args v c = a0 # a1 # a2 # rest"
  shows "wp (swapdbCommand s c) (\<lambda>s'. rep s' (v_swapdb v c a1 a2))"
  unfolding swapdbCommand_def using assms
  apply (simp add: rep_simps)
  apply (rule wp_intro conjI impI | (rule spec, assumption) | clarsimp simp: rep_simps | (simp add: v_swapdb_def)[1] |
      (rule wp_mono [OF swap_reply], assumption, simp add: Let_def))+
  done

section \<open>Moving keys\<close>

text \<open>An expiration time that \<open>getExpire\<close> reads and \<open>setExpire\<close> gives to another key.\<close>

definition v_moved_ttl :: "view \<Rightarrow> nat \<Rightarrow> nat \<Rightarrow> sds \<Rightarrow> int option \<Rightarrow> view" where
  "v_moved_ttl v c i k t =
     (let e = (case t of None \<Rightarrow> -1 | Some t \<Rightarrow> t) in
      if e \<noteq> -1 then v_remember (v_setttl v i k (Some e)) (Some c) i k else v)"

definition v_rename :: "view \<Rightarrow> nat \<Rightarrow> bool \<Rightarrow> sds \<Rightarrow> sds \<Rightarrow> view" where
  "v_rename v c nx src dst =
     (let i = v_db v c; lz = lazyfree_lazy_server_del (v_env v); v = v_expire v i src in
      case v_kv v i src of
        None \<Rightarrow> v_put v c shared_nokeyerr
      | Some a \<Rightarrow>
          if src = dst then v_put v c (if nx then shared_czero else shared_ok)
          else
            let t = v_ttl v i src; v = v_expire v i dst; old = v_kv v i dst in
            if old \<noteq> None \<and> nx then v_put v c shared_czero
            else
              let v = (if old \<noteq> None then v_dbdel lz v i dst else v);
                  v = v_moved_ttl (v_add v i dst a) c i dst t;
                  v = v_touch (v_touch (v_dbdel lz v i src) i src) i dst;
                  v = v_notify (v_notify v ''rename_from'' src i) ''rename_to'' dst i
              in v_put (v_dirty v 1) c (if nx then shared_cone else shared_ok))"

lemma moved_ttl_simps [simp]:
  "v_fix (v_moved_ttl v c i k t) c' = v_fix v c'" "v_n (v_moved_ttl v c i k t) = v_n v"
  "v_env (v_moved_ttl v c i k t) = v_env v" "v_kv (v_moved_ttl v c i k t) = v_kv v"
  by (simp_all add: v_moved_ttl_def Let_def)

lemma fits_moved [cmd]: "v_fits (v_moved_ttl v c i k t) = v_fits v" "vfin (v_moved_ttl v c i k t) = vfin v"
  by (simp_all add: v_fits_def fun_eq_iff vfin_def)

lemma renameGenericCommand_ref:
  assumes "rep s v" "vok v" "v_args v c = a0 # src # dst # rest" "v_fits v (v_db v c) 1"
  shows "wp (renameGenericCommand s c nx) (\<lambda>s'. rep s' (v_rename v c nx src dst))"
  unfolding renameGenericCommand_def using assms rep_vfin [OF assms(1)]
  apply (simp add: rep_simps)
  apply (rule wp_intro conjI impI rep_intro | (rule spec, assumption) | (rule spec, (rule rep_intro)+, assumption) |
      thin_tac "env _ = env _" | clarsimp simp: rep_simps cmd | (simp add: v_rename_def v_moved_ttl_def cmd)[1])+
  done

definition v_move :: "view \<Rightarrow> nat \<Rightarrow> sds \<Rightarrow> sds \<Rightarrow> view" where
  "v_move v c k a =
     (if cluster_enabled (v_env v) then v_put v c (err ''MOVE is not allowed in cluster mode'')
      else
        let src = v_db v c in
        case string2ll a of
          None \<Rightarrow> v_put v c shared_outofrangeerr
        | Some n \<Rightarrow>
            if n < -(2 ^ 31) \<or> n > 2 ^ 31 - 1 \<or> n < 0 \<or> n \<ge> int (v_n v) then v_put v c shared_outofrangeerr
            else
              let dst = nat n in
              if src = dst then v_put v c shared_sameobjecterr
              else
                let v = v_expire v src k in
                case v_kv v src k of
                  None \<Rightarrow> v_put v c shared_czero
                | Some a \<Rightarrow>
                    let t = v_ttl v src k; v = v_expire v dst k in
                    if v_kv v dst k \<noteq> None then v_put v c shared_czero
                    else
                      let v = v_moved_ttl (v_add v dst k a) c dst k t;
                          v = v_dbdel (lazyfree_lazy_server_del (v_env v)) v src k
                      in v_put (v_dirty v 1) c shared_cone)"

lemma select_back: "v_select (v_select v c j) c (v_db v c) = v"
  by (simp add: v_select_def v_client_def upd_client_def v_fix_def cfix_fields del: v_db_clients)

lemma rep_select_back:
  "rep s v \<Longrightarrow> rep (upd_client (upd_client s c (\<lambda>cl. cl\<lparr>c_db := j\<rparr>)) c (\<lambda>cl. cl\<lparr>c_db := v_db v c\<rparr>)) v"
  using rep_select [OF rep_select, of s v c j c "v_db v c"] by (simp add: select_back)

lemma moveCommand_ref:
  assumes "rep s v" "vok v" "v_args v c = a0 # k # a # rest" "\<And>i. v_fits v i 1"
  shows "wp (moveCommand s c) (\<lambda>s'. rep s' (v_move v c k a))"
proof (cases "cluster_enabled (v_env v) \<or> (case string2ll a of None \<Rightarrow> True | Some n \<Rightarrow>
    n < -(2 ^ 31) \<or> n > 2 ^ 31 - 1 \<or> n < 0 \<or> n \<ge> int (v_n v))")
  case True
  have ll: "getLongLongFromObject (Some (createStringObject s a)) = Some (string2ll a)"
    by (simp add: getLongLongFromObject_ok create_ok)
  show ?thesis
    using True assms(1,3) ll selectDb_rep [OF assms(1)]
    by (auto simp: moveCommand_def v_move_def rep_simps Let_def split: option.splits
        intro!: reply_error_ref [OF assms(1)] reply_shared_spec [OF assms(1)])
next
  case False
  then obtain n where n0: "string2ll a = Some n" "\<not> (n < -(2 ^ 31) \<or> n > 2 ^ 31 - 1)" "0 \<le> n" "n < int (v_n v)"
      "\<not> cluster_enabled (v_env v)"
    by (auto split: option.splits)
  then obtain d where n: "string2ll a = Some (int d)" "int d \<le> 2147483647" "d < v_n v" "\<not> cluster_enabled (v_env v)"
    using nonneg_int_cases [OF n0(3)] by auto
  define s0 where "s0 = upd_client s c (\<lambda>cl. cl\<lparr>c_db := d\<rparr>)"
  define s1 where "s1 = upd_client s0 c (\<lambda>cl. cl\<lparr>c_db := v_db v c\<rparr>)"
  have ll: "getLongLongFromObject (Some (createStringObject s a)) = Some (Some (int d))"
    by (simp add: getLongLongFromObject_ok create_ok n)
  have sel: "selectDb s c (int d) = Some s0" using n selectDb_rep [OF assms(1)] by (simp add: s0_def)
  have r0: "rep s0 (v_select v c d)" unfolding s0_def by (rule rep_select [OF assms(1)])
  have ret: "selectDb s0 c (int (v_db v c)) = Some s1"
    using vok_db [OF assms(2), of c] selectDb_rep [OF r0] by (simp add: s1_def)
  have r1: "rep s1 v" unfolding s1_def s0_def by (rule rep_select_back [OF assms(1)])
  have db: "cdb s0 c = d" by (simp add: s0_def)
  show ?thesis
    unfolding moveCommand_def
    using n(2-4) ll sel ret r1 assms(2,3) assms(4) [of d] rep_vfin [OF assms(1)]
    apply (simp add: rep_simps [OF assms(1)] db)
    apply (rule wp_intro conjI impI rep_intro | (rule spec, assumption) | (rule spec, (rule rep_intro)+, assumption) |
      thin_tac "env _ = env _" | clarsimp simp: rep_simps cmd | (simp add: v_move_def v_moved_ttl_def n(1) cmd)[1])+
    done
qed

section \<open>Expiration\<close>

definition v_lookup :: "view \<Rightarrow> sds \<Rightarrow> redisCommand option" where
  "v_lookup v name = (case commands (v_env v) name of None \<Rightarrow> orig_commands (v_env v) name | Some cmd \<Rightarrow> Some cmd)"

lemma v_lookup_env: "v_env v' = v_env v \<Longrightarrow> v_lookup v' = v_lookup v"
  unfolding v_lookup_def by (simp only: )

lemma v_lookupCommand_simps [simp]:
  "v_lookup (v_dirty v n) = v_lookup v" "v_lookup (v_dbdel lz v i k) = v_lookup v" "v_lookup (v_expire v i k) = v_lookup v"
  by (rule v_lookup_env, simp)+

definition v_rewrite :: "view \<Rightarrow> nat \<Rightarrow> sds list \<Rightarrow> view" where
  "v_rewrite v c args = v_client v c (\<lambda>cl. cl\<lparr>argv := args, c_cmd := the (v_lookup v (args ! 0))\<rparr>)"

lemma v_rewrite_simps [simp]:
  "v_n (v_rewrite v c args) = v_n v" "v_kv (v_rewrite v c args) = v_kv v" "v_ttl (v_rewrite v c args) = v_ttl v"
  "v_wk (v_rewrite v c args) = v_wk v" "v_env (v_rewrite v c args) = v_env v"
  "c_db (v_fix (v_rewrite v c args) c') = c_db (v_fix v c')"
  "v_fix (v_rewrite v c args) c' =
     (if c' = c then (v_fix v c)\<lparr>argv := args, c_cmd := the (v_lookup v (args ! 0))\<rparr> else v_fix v c')"
  by (simp_all add: v_rewrite_def v_fix_def cfix_def del: v_db_clients)

lemma rewrite_spec [spec]:
  assumes "rep s v" "v_lookup v (args ! 0) \<noteq> None" "\<And>s'. rep s' (v_rewrite v c args) \<Longrightarrow> Q s'"
  shows "wp (rewriteClientCommandVector s c args) Q"
proof -
  obtain cmd where cmd: "v_lookup v (args ! 0) = Some cmd" using assms(2) by blast
  then have "lookupCommandOrOriginal s (args ! 0) = Some cmd"
    unfolding lookupCommandOrOriginal_def rep_env [OF assms(1)] by (simp add: v_lookup_def)
  moreover have "rep (upd_client s c (\<lambda>cl. cl\<lparr>argv := args, c_cmd := cmd\<rparr>)) (v_rewrite v c args)"
    unfolding v_rewrite_def by (rule rep_upd_client [OF assms(1)]) (simp add: rep_client [OF assms(1)] cmd)
  ultimately show ?thesis using assms(3) by (simp add: rewriteClientCommandVector_def)
qed

definition v_expireGeneric :: "view \<Rightarrow> nat \<Rightarrow> sds \<Rightarrow> sds \<Rightarrow> int \<Rightarrow> bool \<Rightarrow> view" where
  "v_expireGeneric v c k a base secs =
     (case string2ll a of
        None \<Rightarrow> v_put v c not_an_integer
      | Some w \<Rightarrow>
          let i = v_db v c; w = wrap64 ((if secs then wrap64 (w * 1000) else w) + base); v = v_expire v i k;
              lz = lazyfree_lazy_expire (v_env v) in
          if v_kv v i k = None then v_put v c shared_czero
          else if w \<le> mstime (v_env v) \<and> \<not> loading (v_env v) \<and> \<not> masterhost (v_env v)
          then
            let v = v_rewrite (v_dirty (v_dbdel lz v i k) 1) c [if lz then bs ''UNLINK'' else bs ''DEL'', k]
            in v_put (v_notify (v_touch v i k) ''del'' k i) c shared_cone
          else
            let v = v_put (v_remember (v_setttl v i k (Some w)) (Some c) i k) c shared_cone
            in v_dirty (v_notify (v_touch v i k) ''expire'' k i) 1)"

lemma expireGenericCommand_ref:
  assumes "rep s v" "vok v" "v_args v c = a0 # k # a # rest" "v_room v (v_db v c)"
    "v_lookup v (bs ''DEL'') \<noteq> None" "v_lookup v (bs ''UNLINK'') \<noteq> None"
  shows "wp (expireGenericCommand s c base secs) (\<lambda>s'. rep s' (v_expireGeneric v c k a base secs))"
  unfolding expireGenericCommand_def using assms rep_vfin [OF assms(1)]
  apply (simp add: rep_simps)
  apply (rule wp_intro conjI impI rep_intro | (rule spec, assumption) | (rule spec, (rule rep_intro)+, assumption) |
      thin_tac "env _ = env _" | clarsimp simp: rep_simps cmd | (simp add: v_expireGeneric_def cmd)[1])+
  done

definition v_ttlGeneric :: "view \<Rightarrow> nat \<Rightarrow> sds \<Rightarrow> bool \<Rightarrow> view" where
  "v_ttlGeneric v c k ms =
     (let i = v_db v c; v' = v_read v i k in
      if v_visible v i k = None then v_put v' c (int_reply (-2))
      else
        let e = (case v_ttl v' i k of None \<Rightarrow> -1 | Some t \<Rightarrow> t);
            ttl = (if e \<noteq> -1 then (let t = wrap64 (e - mstime (v_env v)) in if t < 0 then 0 else t) else -1)
        in v_put v' c (int_reply (if ttl = -1 then -1 else if ms then ttl else tdiv (wrap64 (ttl + 500)) 1000)))"

lemma tdiv_fits: "int_fits 8 a \<Longrightarrow> int_fits 8 (tdiv a 1000)"
proof -
  assume "int_fits 8 a"
  then have "\<bar>a\<bar> div 1000 < 2 ^ 63" "0 \<le> \<bar>a\<bar> div 1000" by (auto simp: int_fits_def)
  then show ?thesis by (auto simp: tdiv_def int_fits_def)
qed

lemma small_fits: "int_fits 8 0" "int_fits 8 (-1)" "int_fits 8 (-2)"
  by (simp_all add: int_fits_def)

lemma ttlGenericCommand_ref:
  assumes "rep s v" "vok v" "v_args v c = a0 # k # rest"
  shows "wp (ttlGenericCommand s c ms) (\<lambda>s'. rep s' (v_ttlGeneric v c k ms))"
  unfolding ttlGenericCommand_def using assms
  apply (simp add: rep_simps)
  apply (rule wp_intro conjI impI rep_intro | (rule spec, assumption) | (rule spec, (rule rep_intro)+, assumption) |
      thin_tac "env _ = env _" | clarsimp simp: rep_simps cmd | (simp add: v_ttlGeneric_def tdiv_fits small_fits cmd)[1])+
  done

definition v_persist :: "view \<Rightarrow> nat \<Rightarrow> sds \<Rightarrow> view" where
  "v_persist v c k =
     (let i = v_db v c; v = v_expire v i k in
      if v_kv v i k \<noteq> None \<and> v_ttl v i k \<noteq> None
      then v_dirty (v_put (v_setttl v i k None) c shared_cone) 1
      else v_put v c shared_czero)"

lemma persistCommand_ref:
  assumes "rep s v" "vok v" "v_args v c = a0 # k # rest"
  shows "wp (persistCommand s c) (\<lambda>s'. rep s' (v_persist v c k))"
  unfolding persistCommand_def using assms
  apply (simp add: rep_simps)
  apply (rule wp_intro conjI impI rep_intro | (rule spec, assumption) | (rule spec, (rule rep_intro)+, assumption) |
      thin_tac "env _ = env _" | clarsimp simp: rep_simps cmd | (simp add: v_persist_def v_setttl_triv cmd)[1])+
  done

section \<open>Flushing\<close>

definition flush_flags :: "sds list \<Rightarrow> bool option" where
  "flush_flags opts =
     (case opts of [] \<Rightarrow> Some False
      | a # rest \<Rightarrow> if rest \<noteq> [] \<or> strcasecmp a (bs ''async'') \<noteq> 0 then None else Some True)"

lemma getFlushCommandFlags_spec [spec]:
  assumes "rep s v" "v_args v c = a0 # opts"
    "flush_flags opts = None \<Longrightarrow> (\<And>s'. rep s' (v_put v c shared_syntaxerr) \<Longrightarrow> Q (s', None))"
    "\<And>as. flush_flags opts = Some as \<Longrightarrow> rep s v \<Longrightarrow> Q (s, Some as)"
  shows "wp (getFlushCommandFlags s c) Q"
  using assms
  by (cases opts) (auto simp: getFlushCommandFlags_def flush_flags_def rep_simps Let_def
      intro!: wp_intro reply_shared_spec [OF assms(1)])

definition v_flushdb :: "view \<Rightarrow> nat \<Rightarrow> sds list \<Rightarrow> view" where
  "v_flushdb v c opts =
     (case flush_flags opts of
        None \<Rightarrow> v_put v c shared_syntaxerr
      | Some as \<Rightarrow>
          let i = int (v_db v c); v = v_touch_flush v i (client_list (v_srv v))
          in v_put (v_dirty (v_emptyDb v i as) (int (v_removed v i))) c shared_ok)"

lemma vok_watch: "vok v \<Longrightarrow> \<forall>c k i. (k, i) \<in> set (w_keys (clients (v_srv v) c)) \<longrightarrow> i < v_n v"
  by (simp add: vok_def v_fix_def cfix_fields del: v_db_clients)

lemma flushdbCommand_ref:
  assumes "rep s v" "vok v" "v_args v c = a0 # opts"
  shows "wp (flushdbCommand s c) (\<lambda>s'. rep s' (v_flushdb v c opts))"
  unfolding flushdbCommand_def
proof (rule wp_bind, rule getFlushCommandFlags_spec [OF assms(1,3)], goal_cases)
  case (1 s')
  then show ?case by (simp add: v_flushdb_def)
next
  case (2 as)
  let ?i = "int (v_db v c)" and ?v = "v_touch_flush v (int (v_db v c)) (client_list (v_srv v))"
  show ?case
    unfolding prod.case option.case rep_simps [OF assms(1)]
  proof (rule wp_bind, rule signalFlushedDb_spec [OF assms(1) vok_watch [OF assms(2)]])
    fix s1 assume s1: "rep s1 ?v"
    obtain s2 where s2: "emptyDb s1 ?i as = (s2, int (v_removed ?v ?i))" "rep s2 (v_emptyDb ?v ?i as)"
      using emptyDb_spec [OF s1, of ?i as] vok_db [OF assms(2), of c] by auto
    show "wp (let (s, n) = emptyDb s1 (int (cdb s1 c)) as in reply_shared (dirty_add s n) c shared_ok)
        (\<lambda>s'. rep s' (v_flushdb v c opts))"
      using s2 rep_simps [OF s1] 2(1)
      by (auto simp: v_flushdb_def Let_def intro!: reply_shared_spec [OF rep_dirty_add])
  qed
qed

definition v_setdirty :: "view \<Rightarrow> int \<Rightarrow> view" where
  "v_setdirty v n = v\<lparr>v_srv := (v_srv v)\<lparr>dirty := n\<rparr>\<rparr>"

lemma v_setdirty_simps [simp]:
  "v_n (v_setdirty v n) = v_n v" "v_kv (v_setdirty v n) = v_kv v" "v_ttl (v_setdirty v n) = v_ttl v"
  "v_wk (v_setdirty v n) = v_wk v" "v_env (v_setdirty v n) = v_env v" "v_fix (v_setdirty v n) c = v_fix v c"
  "clients (v_srv (v_setdirty v n)) = clients (v_srv v)"
  by (simp_all add: v_setdirty_def v_fix_def)

definition v_after_flushall :: "view \<Rightarrow> view" where
  "v_after_flushall v =
     (let v = (if rdb_child (v_env v) then v_call v KillSaveChild else v);
          v = (if saveparamslen (v_env v) > 0 then v_setdirty (v_call v RdbSave) (wrap32 (dirty (v_srv v))) else v)
      in v_dirty v 1)"

definition v_flushall :: "view \<Rightarrow> nat \<Rightarrow> sds list \<Rightarrow> view" where
  "v_flushall v c opts =
     (case flush_flags opts of
        None \<Rightarrow> v_put v c shared_syntaxerr
      | Some as \<Rightarrow>
          let v = v_touch_flush v (-1) (client_list (v_srv v));
              v = v_put (v_dirty (v_emptyDb v (-1) as) (int (v_removed v (-1)))) c shared_ok
          in v_after_flushall v)"

lemma after_flushall_rep:
  assumes "rep s v"
  shows "rep (let s = (if rdb_child (env s) then server_call s KillSaveChild else s);
           s = (if saveparamslen (env s) > 0
                then (let saved_dirty = wrap32 (dirty s) in (server_call s RdbSave)\<lparr>dirty := saved_dirty\<rparr>) else s)
       in dirty_add s 1) (v_after_flushall v)"
proof -
  let ?s = "if rdb_child (env s) then server_call s KillSaveChild else s"
  let ?v = "if rdb_child (v_env v) then v_call v KillSaveChild else v"
  have r: "rep ?s ?v" using assms rep_call [OF assms] by (simp add: rep_env)
  then have "rep ((server_call ?s RdbSave)\<lparr>dirty := n\<rparr>) (v_setdirty (v_call ?v RdbSave) n)" for n
    using rep_dirty [OF rep_call [OF r]] by (simp add: v_setdirty_def)
  then have "rep (if saveparamslen (env ?s) > 0 then (server_call ?s RdbSave)\<lparr>dirty := wrap32 (dirty ?s)\<rparr> else ?s)
      (if saveparamslen (v_env ?v) > 0 then v_setdirty (v_call ?v RdbSave) (wrap32 (dirty (v_srv ?v))) else ?v)"
    using r rep_env [OF r] rep_dirty_val [OF r] by presburger
  then show ?thesis unfolding v_after_flushall_def Let_def by (rule rep_dirty_add)
qed

lemma flushallCommand_ref:
  assumes "rep s v" "vok v" "v_args v c = a0 # opts"
  shows "wp (flushallCommand s c) (\<lambda>s'. rep s' (v_flushall v c opts))"
  unfolding flushallCommand_def
proof (rule wp_bind, rule getFlushCommandFlags_spec [OF assms(1,3)], goal_cases)
  case (1 s')
  then show ?case by (simp add: v_flushall_def)
next
  case (2 as)
  let ?v = "v_touch_flush v (-1) (client_list (v_srv v))"
  show ?case
    unfolding prod.case option.case rep_simps [OF assms(1)]
  proof (rule wp_bind, rule signalFlushedDb_spec [OF assms(1) vok_watch [OF assms(2)]])
    fix s1 assume s1: "rep s1 ?v"
    obtain s2 where s2: "emptyDb s1 (-1) as = (s2, int (v_removed ?v (-1)))" "rep s2 (v_emptyDb ?v (-1) as)"
      using emptyDb_spec [OF s1, of "-1" as] by auto
    let ?w = "v_put (v_dirty (v_emptyDb ?v (-1) as) (int (v_removed ?v (-1)))) c shared_ok"
    have fin: "rep s' (v_flushall v c opts)" if "rep s' (v_after_flushall ?w)" for s'
      using that 2(1) by (simp add: v_flushall_def Let_def)
    show "wp (let (s, n) = emptyDb s1 (-1) as
       in reply_shared (dirty_add s n) c shared_ok \<bind>
          (\<lambda>s. let s = if rdb_child (env s) then server_call s KillSaveChild else s;
                    s = if 0 < saveparamslen (env s)
                        then let saved_dirty = wrap32 (dirty s) in (server_call s RdbSave)\<lparr>dirty := saved_dirty\<rparr> else s
                in Some (dirty_add s 1)))
        (\<lambda>s'. rep s' (v_flushall v c opts))"
      unfolding Let_def s2(1) prod.case
      by (rule wp_bind, rule reply_shared_spec [OF rep_dirty_add [OF s2(2)]], rule wp_Some, rule fin)
         (erule after_flushall_rep [unfolded Let_def])
  qed
qed

end
