(* ===== verification/String_Commands_Correct.thy ===== *)
theory String_Commands_Correct
  imports Command_View
begin

text \<open>
  What the string commands do to the view: an abstract command for every command of
  \<open>String_Commands\<close>, and the proof that the command refines it. The abstract commands know nothing of
  dictionaries, encodings, reference counts and reply buffers.
\<close>

section \<open>GET\<close>

definition v_get :: "view \<Rightarrow> nat \<Rightarrow> sds \<Rightarrow> view \<times> bool" where
  "v_get v c k =
     (let i = v_db v c; v' = v_read v i k in
      case v_visible v i k of
        None \<Rightarrow> (v_put v' c shared_nullbulk, True)
      | Some (AStr b) \<Rightarrow> (v_put v' c (bulk_reply b), True)
      | Some (AObj _) \<Rightarrow> (v_put v' c shared_wrongtypeerr, False))"

lemma getGenericCommand_ref:
  assumes "rep s v" "vok v" "v_args v c = a0 # k # rest"
  shows "wp (getGenericCommand s c) (\<lambda>(s', r). rep s' (fst (v_get v c k)) \<and> r = snd (v_get v c k))"
  unfolding getGenericCommand_def using assms
  by (simp add: rep_simps) (rule wp_intro conjI impI | (rule spec, assumption) | (rule spec, (rule rep_intro)+, assumption) | thin_tac "env _ = env _" | clarsimp simp: v_get_def cmd)+

lemma getCommand_ref:
  assumes "rep s v" "vok v" "v_args v c = a0 # k # rest"
  shows "wp (getCommand s c) (\<lambda>s'. rep s' (fst (v_get v c k)))"
  unfolding getCommand_def by (rule wp_map, rule wp_ref [OF getGenericCommand_ref [OF assms]]) simp

definition v_getset :: "view \<Rightarrow> nat \<Rightarrow> sds \<Rightarrow> sds \<Rightarrow> view" where
  "v_getset v c k a =
     (let (v, ok) = v_get v c k; i = v_db v c in
      if ok then v_dirty (v_notify (v_setkey v i k (AStr a)) ''set'' k i) 1 else v)"

lemma v_get_frame [cmd]:
  "v_fix (fst (v_get v c k)) c' = v_fix v c'" "v_n (fst (v_get v c k)) = v_n v"
  "vfin v \<Longrightarrow> vfin (fst (v_get v c k))"
  "vfin v \<Longrightarrow> v_fits v i n \<Longrightarrow> v_fits (fst (v_get v c k)) i n"
  by (auto simp: v_get_def cmd split: option.splits aval.splits)

lemma getsetCommand_ref:
  assumes "rep s v" "vok v" "v_args v c = a0 # k # a # rest" "v_room v (v_db v c)"
  shows "wp (getsetCommand s c) (\<lambda>s'. rep s' (v_getset v c k a))"
  unfolding getsetCommand_def
  apply (rule wp_bind, rule wp_ref [OF getGenericCommand_ref [OF assms(1-3)]])
  using assms rep_vfin [OF assms(1)]
  apply (clarsimp simp: v_getset_def rep_simps cmd split_def)
  apply (rule wp_intro conjI impI rep_intro | (rule spec, assumption) | (rule spec, (rule rep_intro)+, assumption) | thin_tac "env _ = env _" | clarsimp simp: v_getset_def rep_simps cmd)+
  done

section \<open>SET\<close>

definition v_setGeneric ::
  "view \<Rightarrow> nat \<Rightarrow> bool \<Rightarrow> bool \<Rightarrow> sds \<Rightarrow> sds \<Rightarrow> sds option \<Rightarrow> bool \<Rightarrow> byte list \<Rightarrow> byte list \<Rightarrow> view" where
  "v_setGeneric v c nx xx k b expire secs ok abort =
     (let i = v_db v c in
      case (case expire of None \<Rightarrow> Some 0 | Some e \<Rightarrow> string2ll e) of
        None \<Rightarrow> v_put v c not_an_integer
      | Some ms \<Rightarrow>
          if expire \<noteq> None \<and> ms \<le> 0
          then v_put v c (bs ''-ERR '' @
                 no_newlines (bs ''invalid expire time in '' @ bs (cmd_name (c_cmd (v_fix v c)))) @ crlf)
          else
            let ms = (if expire \<noteq> None \<and> secs then wrap64 (ms * 1000) else ms);
                (v, stop) = (if nx then (v_expire v i k, v_kv (v_expire v i k) i k \<noteq> None) else (v, False));
                (v, stop) = (if \<not> stop \<and> xx then (v_expire v i k, v_kv (v_expire v i k) i k = None) else (v, stop))
            in if stop then v_put v c abort
               else
                 let v = v_dirty (v_setkey v i k (AStr b)) 1;
                     v = (if expire \<noteq> None
                          then v_remember (v_setttl v i k (Some (wrap64 (mstime (v_env v) + ms)))) (Some c) i k else v);
                     v = v_notify v ''set'' k i;
                     v = (if expire \<noteq> None then v_notify v ''expire'' k i else v)
                 in v_put v c ok)"

lemma setGenericCommand_ref:
  assumes "rep s v" "vok v" "v_fits v (v_db v c) 1" "obj_ok val" "absval val = AStr b"
  shows "wp (setGenericCommand s c nx xx k val expire secs ok abort)
    (\<lambda>s'. rep s' (v_setGeneric v c nx xx k b expire secs ok abort))"
  unfolding setGenericCommand_def
  using assms rep_vfin [OF assms(1)]
  apply (cases expire; cases nx; cases xx)
  apply (simp_all add: rep_simps)
  apply (rule wp_intro conjI impI rep_intro | (rule spec, assumption) | (rule spec, (rule rep_intro)+, assumption) | thin_tac "env _ = env _" | clarsimp simp: v_setGeneric_def rep_simps cmd)+
  done

definition v_setCommand :: "view \<Rightarrow> nat \<Rightarrow> sds \<Rightarrow> sds \<Rightarrow> sds list \<Rightarrow> view" where
  "v_setCommand v c k a opts =
     (case set_options opts no_options of
        None \<Rightarrow> v_put v c shared_syntaxerr
      | Some f \<Rightarrow> v_setGeneric v c (so_nx f) (so_xx f) k a (so_expire f) (so_seconds f) shared_ok shared_nullbulk)"

lemma set_commands_ref:
  assumes "rep s v" "vok v" "v_fits v (v_db v c) 1"
  shows "v_args v c = a0 # k # a # opts \<Longrightarrow> wp (setCommand s c) (\<lambda>s'. rep s' (v_setCommand v c k a opts))"
    "v_args v c = a0 # k # a # opts \<Longrightarrow>
       wp (setnxCommand s c) (\<lambda>s'. rep s' (v_setGeneric v c True False k a None True shared_cone shared_czero))"
    "v_args v c = a0 # k # e # a # opts \<Longrightarrow>
       wp (setexCommand s c) (\<lambda>s'. rep s' (v_setGeneric v c False False k a (Some e) True shared_ok shared_nullbulk))"
    "v_args v c = a0 # k # e # a # opts \<Longrightarrow>
       wp (psetexCommand s c) (\<lambda>s'. rep s' (v_setGeneric v c False False k a (Some e) False shared_ok shared_nullbulk))"
  unfolding setCommand_def v_setCommand_def setnxCommand_def setexCommand_def psetexCommand_def
  using assms
  by (auto simp: rep_simps split: option.splits intro!: wp_intro setGenericCommand_ref reply_shared_spec [OF assms(1)])

section \<open>Ranges\<close>

definition too_long :: "byte list" where "too_long = err ''string exceeds maximum allowed size (512MB)''"

lemma checkStringLength_spec [spec]:
  assumes "rep s v"
    and "n > 512 * 1024 * 1024 \<Longrightarrow> (\<And>s'. rep s' (v_put v c too_long) \<Longrightarrow> Q (s', False))"
    and "n \<le> 512 * 1024 * 1024 \<Longrightarrow> rep s v \<Longrightarrow> Q (s, True)"
  shows "wp (checkStringLength s c n) Q"
  unfolding checkStringLength_def using assms
  by (auto simp: too_long_def intro!: wp_intro reply_error_ref [OF assms(1)])

text \<open>The string after \<open>SETRANGE\<close>: zeros fill the gap before the offset.\<close>

definition setrange_bytes :: "byte list \<Rightarrow> nat \<Rightarrow> byte list \<Rightarrow> byte list" where
  "setrange_bytes old off val =
     (let b = old @ replicate (off + length val - length old) 0 in take off b @ val @ drop (off + length val) b)"

definition v_setrange :: "view \<Rightarrow> nat \<Rightarrow> sds \<Rightarrow> sds \<Rightarrow> sds \<Rightarrow> view" where
  "v_setrange v c k a val =
     (case string2ll a of
        None \<Rightarrow> v_put v c (long_error None)
      | Some off \<Rightarrow>
          if off < 0 then v_put v c (err ''offset is out of range'')
          else
            let i = v_db v c; v = v_expire v i k in
            case v_kv v i k of
              Some (AObj _) \<Rightarrow> v_put v c shared_wrongtypeerr
            | r \<Rightarrow>
                let old = (case r of Some (AStr b) \<Rightarrow> b | _ \<Rightarrow> []) in
                if val = [] then v_put v c (int_reply (int (length old)))
                else if off + int (length val) > 512 * 1024 * 1024 then v_put v c too_long
                else
                  let b = setrange_bytes old (nat off) val;
                      v = (if r = None then v_add v i k (AStr b) else v_set v i k (AStr b));
                      v = v_dirty (v_notify (v_touch v i k) ''setrange'' k i) 1
                  in v_put v c (int_reply (int (length b))))"

lemma length_setrange_bytes: "val \<noteq> [] \<Longrightarrow> length (setrange_bytes old off val) = max (length old) (off + length val)"
  by (auto simp: setrange_bytes_def Let_def max_def)

lemma v_set_add: "v_set (v_add v i k (AStr a)) i k (AStr b) = v_add v i k (AStr b)"
  by (simp add: v_add_def is_list_def v_set_def v_call_def Let_def)

lemma setrange_store_ref:
  assumes "rep s v" "vok v" "otype obj = OBJ_STRING" "ptr obj = PSds old" "encoding obj = OBJ_ENCODING_RAW"
    "v_kv v (v_db v c) k = Some a" "val \<noteq> []" "off + length val \<le> 512 * 1024 * 1024" "length old \<le> 512 * 1024 * 1024"
  shows "wp (setrange_store s c k obj off val)
    (\<lambda>s'. rep s' (let b = setrange_bytes old off val; i = v_db v c;
                      v = v_dirty (v_notify (v_touch (v_set v i k (AStr b)) i k) ''setrange'' k i) 1
                  in v_put v c (int_reply (int (length b)))))"
proof -
  let ?b = "setrange_bytes old off val"
  have g: "sdsgrowzero old (off + length val) = Some (old @ replicate (off + length val - length old) 0)"
    using assms(8) by (simp add: sdsgrowzero_def)
  have m: "memcpy_at (old @ replicate (off + length val - length old) 0) off val = ?b"
    by (simp add: memcpy_at_def setrange_bytes_def Let_def)
  have fits: "int_fits 8 (int (length ?b))"
    using assms(7-9) by (auto simp: length_setrange_bytes int_fits_def max_def)
  have o: "obj_ok (obj\<lparr>ptr := PSds ?b\<rparr>)" "absval (obj\<lparr>ptr := PSds ?b\<rparr>) = AStr ?b"
    using assms(3-5) by (simp_all add: obj_ok_def sdsEncodedObject_def absval_def obj_bytes_def)
  show ?thesis
    unfolding setrange_store_def using assms g m fits o
    apply (simp add: rep_simps)
    apply (rule wp_intro conjI impI rep_intro | (rule spec, assumption) | (rule spec, (rule rep_intro)+, assumption) | thin_tac "env _ = env _" |
    clarsimp simp:  rep_simps cmd)+
    done
qed

lemma setrange_zeros: "setrange_bytes (replicate (off + length val) 0) off val = setrange_bytes [] off val"
  by (simp add: setrange_bytes_def Let_def)

lemma raw_object:
  "otype (createObject s OBJ_STRING (PSds b)) = OBJ_STRING" "ptr (createObject s OBJ_STRING (PSds b)) = PSds b"
  "encoding (createObject s OBJ_STRING (PSds b)) = OBJ_ENCODING_RAW" "obj_ok (createObject s OBJ_STRING (PSds b))"
  "absval (createObject s OBJ_STRING (PSds b)) = AStr b"
  by (simp_all add: createObject_def obj_ok_def sdsEncodedObject_def absval_def obj_bytes_def)

lemma setrangeCommand_ref:
  assumes "rep s v" "vok v" "v_args v c = a0 # k # a # val # rest" "v_fits v (v_db v c) 1"
    "\<And>off. string2ll a = Some off \<Longrightarrow> off + int (length val) < 2 ^ 63"
  shows "wp (setrangeCommand s c) (\<lambda>s'. rep s' (v_setrange v c k a val))"
proof -
  let ?i = "v_db v c" and ?v = "v_expire v (v_db v c) k"
  have new: "wp (setrange_store s1 c k (createObject s1' OBJ_STRING (PSds (replicate (nat off + length val) 0))) (nat off) val)
      (\<lambda>s'. rep s' (v_setrange v c k a val))"
    if "rep s1 (v_add ?v ?i k (AStr (replicate (nat off + length val) 0)))" "v_kv ?v ?i k = None"
      "string2ll a = Some off" "0 \<le> off" "val \<noteq> []" "off + int (length val) \<le> 512 * 1024 * 1024" for s1 s1' off
  proof -
    let ?w = "v_add ?v ?i k (AStr (replicate (nat off + length val) 0))"
    have "nat off + length val \<le> 512 * 1024 * 1024" using that(4,6) by simp
    then have "vok ?w" using assms(2) by (auto simp: vok_def v_expire_kv)
    from setrange_store_ref [OF that(1) this raw_object(1-3) [of s1' "replicate (nat off + length val) 0"],
        where c = c and k = k and val = val and off = "nat off" and
        a = "AStr (replicate (nat off + length val) 0)"] that
    show ?thesis
      by (simp add: v_setrange_def setrange_zeros v_set_add Let_def)
  qed
  have upd: "wp (setrange_store s1 c k obj (nat off) val) (\<lambda>s'. rep s' (v_setrange v c k a val))"
    if "rep s1 ?v" "v_kv ?v ?i k = Some (AStr old)" "otype obj = OBJ_STRING" "ptr obj = PSds old"
      "encoding obj = OBJ_ENCODING_RAW"
      "string2ll a = Some off" "0 \<le> off" "val \<noteq> []" "off + int (length val) \<le> 512 * 1024 * 1024" for s1 obj old off
  proof -
    have "vok ?v" using assms(2) by (simp add: vok_expire)
    moreover have "length old \<le> 512 * 1024 * 1024" using calculation that(2) by (auto simp: vok_def)
    ultimately show ?thesis
      using setrange_store_ref [OF that(1) _ that(3-5), where c = c and k = k and val = val and off = "nat off"] that
      by (simp add: v_setrange_def Let_def)
  qed
  have w: "wrap64 (off + int (length val)) = off + int (length val)" if "string2ll a = Some off" "0 \<le> off" for off
    using that assms(5) [of off] by (intro wrap64_id) (simp add: int_fits_def)
  have z: "sdsnewlen_zero (nat off + length val) = Some (replicate (nat off + length val) 0)"
    if "off + int (length val) \<le> 512 * 1024 * 1024" "0 \<le> off" for off
    using that by (auto simp: sdsnewlen_zero_def)
  show ?thesis
    unfolding setrangeCommand_def using assms(1-4) rep_vfin [OF assms(1)] w z
    apply (simp add: rep_simps)
    apply (rule wp_intro conjI impI rep_intro | (rule spec, assumption) | (rule spec, (rule rep_intro)+, assumption) |
      thin_tac "env _ = env _" | rule new upd | clarsimp simp: raw_object rep_simps cmd |
      (simp add: v_setrange_def cmd)[1])+
    done
qed

definition v_getrange :: "view \<Rightarrow> nat \<Rightarrow> sds \<Rightarrow> sds \<Rightarrow> sds \<Rightarrow> view" where
  "v_getrange v c k a1 a2 =
     (case string2ll a1 of
        None \<Rightarrow> v_put v c not_an_integer
      | Some start \<Rightarrow>
          (case string2ll a2 of
             None \<Rightarrow> v_put v c not_an_integer
           | Some stop \<Rightarrow>
               let i = v_db v c; v' = v_read v i k in
               (case v_visible v i k of
                  None \<Rightarrow> v_put v' c shared_emptybulk
                | Some (AObj _) \<Rightarrow> v_put v' c shared_wrongtypeerr
                | Some (AStr b) \<Rightarrow>
                    (case getrange_bounds start stop (length b) of
                       None \<Rightarrow> v_put v' c shared_emptybulk
                     | Some (start, stop) \<Rightarrow>
                         v_put v' c
                           (if start > stop \<or> b = [] then shared_emptybulk
                            else bulk_reply (take (nat (stop - start + 1)) (drop (nat start) b)))))))"

text \<open>The string that \<open>getrangeCommand\<close> cuts is the string of the object.\<close>

lemma getrange_string_ok:
  assumes "obj_ok obj" "otype obj = OBJ_STRING"
  shows "getrange_string obj = Some (obj_bytes obj)"
  using assms
proof (cases rule: string_cases)
  case (Sds p)
  then show ?thesis by (auto simp: getrange_string_def sdsEncodedObject_def obj_bytes_def)
next
  case (Int n)
  then show ?thesis using ll2string_buffer [of n 32 junk32] by (auto simp: getrange_string_def junk32_def obj_bytes_def)
qed

lemma getrange_length: "v_visible v i k = Some (AStr b) \<Longrightarrow> vok v \<Longrightarrow> min (length b - m) n < 9223372036854775808"
  using vok_visible [of v i k b] by simp

lemma getrangeCommand_ref:
  assumes "rep s v" "vok v" "v_args v c = a0 # k # a1 # a2 # rest"
  shows "wp (getrangeCommand s c) (\<lambda>s'. rep s' (v_getrange v c k a1 a2))"
  unfolding getrangeCommand_def using assms
  apply (simp add: rep_simps)
  apply (rule wp_intro conjI impI rep_intro | (rule spec, assumption) | (rule spec, (rule rep_intro)+, assumption) |
      thin_tac "env _ = env _" | clarsimp simp: rep_simps cmd | (simp add: v_getrange_def cmd)[1] | (clarsimp simp: getrange_string_ok getrange_length split: option.splits))+
  done

section \<open>Several keys\<close>

fun v_mget_loop :: "view \<Rightarrow> nat \<Rightarrow> sds list \<Rightarrow> view" where
  "v_mget_loop v c [] = v"
| "v_mget_loop v c (k # ks) =
     (let i = v_db v c in
      v_mget_loop (v_put (v_read v i k) c
        (case v_visible v i k of Some (AStr b) \<Rightarrow> bulk_reply b | _ \<Rightarrow> shared_nullbulk)) c ks)"

lemma vok_read [cmd]: "vok v \<Longrightarrow> vok (v_read v i k)" and vok_put [cmd]: "vok (v_put v c b) = vok v"
  by (auto simp: vok_def v_expire_kv)

lemma mget_loop_ref:
  assumes "rep s v" "vok v"
  shows "wp (mget_loop s c ks) (\<lambda>s'. rep s' (v_mget_loop v c ks))"
  using assms
proof (induction ks arbitrary: s v)
  case (Cons k ks)
  show ?case using Cons.prems
    apply (simp add: rep_simps)
    apply (rule wp_intro conjI impI rep_intro | (rule spec, assumption) | (rule spec, (rule rep_intro)+, assumption) |
      thin_tac "env _ = env _" | clarsimp simp: rep_simps cmd | (simp add:  cmd)[1] | rule Cons.IH | (simp split: option.splits aval.splits)[1])+
      done
qed simp

definition v_mget :: "view \<Rightarrow> nat \<Rightarrow> sds list \<Rightarrow> view" where
  "v_mget v c ks = v_mget_loop (v_put v c (multibulk_len (length ks))) c ks"

lemma mgetCommand_ref:
  assumes "rep s v" "vok v" "v_args v c = a0 # ks" "length ks < 2 ^ 31"
  shows "wp (mgetCommand s c) (\<lambda>s'. rep s' (v_mget v c ks))"
  unfolding mgetCommand_def v_mget_def using assms
  by (auto simp: rep_simps vok_put intro!: wp_bind reply_multibulk_len_spec [OF assms(1)] mget_loop_ref)

fun v_msetnx_loop :: "view \<Rightarrow> nat \<Rightarrow> sds list \<Rightarrow> nat \<Rightarrow> view \<times> nat" where
  "v_msetnx_loop v i (k # a # rest) n =
     v_msetnx_loop (v_expire v i k) i rest (if v_kv (v_expire v i k) i k \<noteq> None then n + 1 else n)"
| "v_msetnx_loop v i _ n = (v, n)"

fun v_mset_loop :: "view \<Rightarrow> nat \<Rightarrow> sds list \<Rightarrow> view" where
  "v_mset_loop v i (k # a # rest) = v_mset_loop (v_notify (v_setkey v i k (AStr a)) ''set'' k i) i rest"
| "v_mset_loop v i _ = v"

definition v_mset :: "view \<Rightarrow> nat \<Rightarrow> bool \<Rightarrow> sds list \<Rightarrow> view" where
  "v_mset v c nx args =
     (let i = v_db v c in
      if odd (length args) then v_put v c (err ''wrong number of arguments for MSET'')
      else
        let (v, busy) = (if nx then v_msetnx_loop v i args 0 else (v, 0)) in
        if busy \<noteq> 0 then v_put v c shared_czero
        else v_put (v_dirty (v_mset_loop v i args) (int (length args) div 2)) c (if nx then shared_cone else shared_ok))"

lemma msetnx_loop_ref:
  assumes "rep s v" "v_db v c = i" "i < v_n v"
  shows "wp (msetnx_loop s c args n)
    (\<lambda>(s', r). rep s' (fst (v_msetnx_loop v i args n)) \<and> r = snd (v_msetnx_loop v i args n))"
  using assms
proof (induction v i args n arbitrary: s rule: v_msetnx_loop.induct)
  case (1 v i k a rest n)
  show ?case using 1(2-4) 1(1)
    apply (simp add: rep_simps)
    apply (rule wp_intro conjI impI rep_intro | (rule spec, assumption) | (rule spec, (rule rep_intro)+, assumption) |
      thin_tac "env _ = env _" | clarsimp simp: rep_simps cmd | (simp add: cmd)[1])+
    done
qed auto

lemma v_msetnx_frame [cmd]:
  "v_fix (fst (v_msetnx_loop v i args n)) c = v_fix v c" "v_n (fst (v_msetnx_loop v i args n)) = v_n v"
  "vfin v \<Longrightarrow> vfin (fst (v_msetnx_loop v i args n))"
  "vfin v \<Longrightarrow> v_fits v j m \<Longrightarrow> v_fits (fst (v_msetnx_loop v i args n)) j m"
  by (induction v i args n rule: v_msetnx_loop.induct) (simp_all add: cmd)

lemma mset_loop_ref:
  assumes "rep s v" "v_db v c = i" "i < v_n v" "vfin v" "v_fits v i (length args)"
  shows "wp (mset_loop s c j args) (\<lambda>s'. rep s' (v_mset_loop v i args))"
  using assms
proof (induction v i args arbitrary: s j rule: v_mset_loop.induct)
  case (1 v i k a rest)
  have "v_fits v i (Suc (length rest))" using 1(6) by (auto elim: v_fits_mono)
  then show ?case using 1(2-5) 1(1)
    apply (simp add: rep_simps)
    apply (rule wp_intro conjI impI rep_intro | (rule spec, assumption) | (rule spec, (rule rep_intro)+, assumption) |
      thin_tac "env _ = env _" | clarsimp simp: rep_simps cmd | (simp add:  cmd)[1] | (simp add: rep_notify cmd)[1])+
    done
qed auto

lemma msetGenericCommand_ref:
  assumes "rep s v" "vok v" "v_args v c = a0 # args" "v_fits v (v_db v c) (length args)"
  shows "wp (msetGenericCommand s c nx) (\<lambda>s'. rep s' (v_mset v c nx args))"
proof -
  note fin = rep_vfin [OF assms(1)]
  have set: "wp (mset_loop s1 c 1 args \<bind> (\<lambda>s. reply_shared (dirty_add s (int (length args) div 2)) c r))
      (\<lambda>s'. rep s' (v_put (v_dirty (v_mset_loop v1 (v_db v c) args) (int (length args) div 2)) c r))"
    if "rep s1 v1" "v_db v1 c = v_db v c" "v_n v1 = v_n v" "vfin v1" "v_fits v1 (v_db v c) (length args)" for s1 v1 r
    by (rule wp_bind, rule wp_ref1 [OF mset_loop_ref [OF that(1,2)]])
       (use that vok_db [OF assms(2)] in \<open>auto intro!: reply_shared_spec rep_dirty_add\<close>)
  show ?thesis
  proof (cases "nx \<and> even (length args)")
    case True
    let ?r = "v_msetnx_loop v (v_db v c) args 0"
    obtain s1 where s1: "msetnx_loop s c args 0 = Some (s1, snd ?r)" "rep s1 (fst ?r)"
      using msetnx_loop_ref [OF assms(1) refl, where args = args and n = 0] vok_db [OF assms(2)] by (auto simp: wp_def)
    have odd: "Suc (length args) mod 2 \<noteq> 0" using True by (metis even_Suc even_iff_mod_2_eq_zero)
    have "wp (mset_loop s1 c 1 args \<bind> (\<lambda>s. reply_shared (dirty_add s (int (length args) div 2)) c shared_cone))
        (\<lambda>s'. rep s' (v_put (v_dirty (v_mset_loop (fst ?r) (v_db v c) args) (int (length args) div 2)) c shared_cone))"
      using fin assms(4) by (intro set s1(2)) (simp_all add: cmd)
    then show ?thesis
      using True s1 assms(1,3) odd
      by (auto simp: msetGenericCommand_def v_mset_def rep_simps split_def Let_def intro!: reply_shared_spec [OF s1(2)])
  next
    case False
    then show ?thesis
      using set [OF assms(1) refl refl fin assms(4)] assms
      by (auto simp: msetGenericCommand_def v_mset_def rep_simps Let_def intro!: reply_error_ref [OF assms(1)])
  qed
qed

section \<open>Counters\<close>

definition overflow :: "byte list" where "overflow = err ''increment or decrement would overflow''"

definition v_incr :: "view \<Rightarrow> nat \<Rightarrow> sds \<Rightarrow> int \<Rightarrow> view" where
  "v_incr v c k incr =
     (let i = v_db v c; v = v_expire v i k in
      case (case v_kv v i k of None \<Rightarrow> Some (Some 0) | Some (AStr b) \<Rightarrow> Some (string2ll b) | Some (AObj _) \<Rightarrow> None) of
        None \<Rightarrow> v_put v c shared_wrongtypeerr
      | Some None \<Rightarrow> v_put v c not_an_integer
      | Some (Some old) \<Rightarrow>
          if (incr < 0 \<and> old < 0 \<and> incr < LLONG_MIN - old) \<or> (incr > 0 \<and> old > 0 \<and> incr > LLONG_MAX - old)
          then v_put v c overflow
          else
            let n = wrap64 (old + incr); a = AStr (repr n);
                v = (if v_kv v i k = None then v_add v i k a else v_set v i k a);
                v = v_dirty (v_notify (v_touch v i k) ''incrby'' k i) 1
            in v_put v c (int_reply n))"

lemma incr_object:
  assumes "obj_ok obj" "encoding obj = OBJ_ENCODING_INT" "otype obj = OBJ_STRING" "int_fits 8 n"
  shows "obj_ok (obj\<lparr>ptr := PLong n\<rparr>)" "absval (obj\<lparr>ptr := PLong n\<rparr>) = AStr (repr n)"
    "obj_bytes (obj\<lparr>ptr := PLong n\<rparr>) = repr n"
  using assms by (simp_all add: obj_ok_def absval_def obj_bytes_def)

lemma fromLongLong_absval: "absval (createStringObjectFromLongLong s n) = AStr (repr n)"
  by (simp add: absval_def fromLongLong_ok)

lemma incr_fits:
  assumes "int_fits 8 old" "int_fits 8 incr" "incr < 0 \<longrightarrow> old < 0 \<longrightarrow> LLONG_MIN - old \<le> incr"
    "0 < incr \<longrightarrow> 0 < old \<longrightarrow> incr \<le> LLONG_MAX - old"
  shows "int_fits 8 (old + incr)" "wrap64 (old + incr) = old + incr"
proof -
  show "int_fits 8 (old + incr)" using assms by (auto simp: int_fits_def LLONG_MIN_def LLONG_MAX_def)
  then show "wrap64 (old + incr) = old + incr" by (rule wrap64_id)
qed

lemma int_reply_colon: "bs '':'' @ repr n @ crlf = int_reply n"
  by (simp add: int_reply_def bs_def)

lemma llOrReply_None [spec]:
  assumes "rep s v" "\<And>s'. rep s' v \<Longrightarrow> Q (s', Some 0)"
  shows "wp (with_client_r s c (\<lambda>cl. getLongLongFromObjectOrReply cl None None)) Q"
  by (rule llOrReply_spec [OF assms(1), where r = "Some 0"]) (use assms in auto)

lemma llOrReply_Some [spec]:
  assumes "rep s v" "obj_ok obj" "otype obj = OBJ_STRING"
    "string2ll (obj_bytes obj) = None \<Longrightarrow> (\<And>s'. rep s' (v_put v c not_an_integer) \<Longrightarrow> Q (s', None))"
    "\<And>s' n. rep s' v \<Longrightarrow> string2ll (obj_bytes obj) = Some n \<Longrightarrow> int_fits 8 n \<Longrightarrow> Q (s', Some n)"
  shows "wp (with_client_r s c (\<lambda>cl. getLongLongFromObjectOrReply cl (Some obj) None)) Q"
  by (rule llOrReply_spec [OF assms(1), where r = "string2ll (obj_bytes obj)"]) (use assms string2ll_repr_inv in auto)

lemmas incr_simps = incr_object fromLongLong_ok fromLongLong_absval int_reply_colon overflow_def

lemma incrDecrCommand_ref:
  assumes "rep s v" "vok v" "v_args v c = a0 # k # rest" "v_fits v (v_db v c) 1" "int_fits 8 incr"
  shows "wp (incrDecrCommand s c incr) (\<lambda>s'. rep s' (v_incr v c k incr))"
  unfolding incrDecrCommand_def using assms rep_vfin [OF assms(1)]
  apply (simp add: rep_simps)
  apply (rule wp_intro conjI impI rep_intro | (rule spec, assumption) | (rule spec, (rule rep_intro)+, assumption) |
      thin_tac "env _ = env _" | clarsimp simp: rep_simps cmd | (simp add: v_incr_def incr_simps cmd)[1])+
  done

section \<open>APPEND and STRLEN\<close>

definition v_append :: "view \<Rightarrow> nat \<Rightarrow> sds \<Rightarrow> sds \<Rightarrow> view" where
  "v_append v c k a =
     (let i = v_db v c; v = v_expire v i k; r = v_kv v i k in
      case r of
        Some (AObj _) \<Rightarrow> v_put v c shared_wrongtypeerr
      | _ \<Rightarrow>
          let b = (case r of Some (AStr old) \<Rightarrow> old @ a | _ \<Rightarrow> a) in
          if r \<noteq> None \<and> length b > 512 * 1024 * 1024 then v_put v c too_long
          else
            let v = (if r = None then v_add v i k (AStr b) else v_set v i k (AStr b));
                v = v_dirty (v_notify (v_touch v i k) ''append'' k i) 1
            in v_put v c (int_reply (int (length b))))"

definition v_strlen :: "view \<Rightarrow> nat \<Rightarrow> sds \<Rightarrow> view" where
  "v_strlen v c k =
     (let i = v_db v c; v' = v_read v i k in
      case v_visible v i k of
        None \<Rightarrow> v_put v' c shared_czero
      | Some (AStr b) \<Rightarrow> v_put v' c (int_reply (int (length b)))
      | Some (AObj _) \<Rightarrow> v_put v' c shared_wrongtypeerr)"

lemma strlenCommand_ref:
  assumes "rep s v" "vok v" "v_args v c = a0 # k # rest"
  shows "wp (strlenCommand s c) (\<lambda>s'. rep s' (v_strlen v c k))"
  unfolding strlenCommand_def using assms
  apply (simp add: rep_simps)
  apply (rule wp_intro conjI impI rep_intro | (rule spec, assumption) | (rule spec, (rule rep_intro)+, assumption) |
      thin_tac "env _ = env _" | clarsimp simp: rep_simps cmd | (simp add: v_strlen_def cmd)[1])+
  done

lemma append_wrap:
  "length b \<le> 536870912 \<Longrightarrow> length a \<le> 536870912 \<Longrightarrow> wrap64 (int (length b) + int (length a)) = int (length b) + int (length a)"
  by (rule wrap64_id) (simp add: int_fits_def)

lemma append_fits:
  "m \<le> 536870912 \<Longrightarrow> int_fits 8 (int m)" "int m + int n \<le> 536870912 \<Longrightarrow> int_fits 8 (int m + int n)"
  by (simp_all add: int_fits_def)

lemma bytes_ptr: "obj_bytes (obj\<lparr>ptr := PSds b\<rparr>) = b"
  by (simp add: obj_bytes_def)

lemma append_object:
  assumes "otype obj = OBJ_STRING" "encoding obj = OBJ_ENCODING_RAW"
  shows "obj_ok (obj\<lparr>ptr := PSds b\<rparr>)" "absval (obj\<lparr>ptr := PSds b\<rparr>) = AStr b"
  using assms by (simp_all add: obj_ok_def absval_def obj_bytes_def sdsEncodedObject_def)

lemma vok_append: "v_kv v i k = Some (AStr b) \<Longrightarrow> vok v \<Longrightarrow> length b \<le> 536870912"
  by (auto simp: vok_def)

lemma appendCommand_ref:
  assumes "rep s v" "vok v" "v_args v c = a0 # k # a # rest" "v_fits v (v_db v c) 1" "length a \<le> 512 * 1024 * 1024"
  shows "wp (appendCommand s c) (\<lambda>s'. rep s' (v_append v c k a))"
  unfolding appendCommand_def using assms rep_vfin [OF assms(1)]
  apply (simp add: rep_simps)
  apply (rule wp_intro conjI impI rep_intro | (rule spec, assumption) | (rule spec, (rule rep_intro)+, assumption) |
      thin_tac "env _ = env _" | clarsimp simp: rep_simps cmd | (simp add: v_append_def append_wrap append_object bytes_ptr append_fits vok_append cmd)[1])+
  done

lemma incr_commands_ref:
  assumes "rep s v" "vok v" "v_fits v (v_db v c) 1"
  shows "v_args v c = a0 # k # rest \<Longrightarrow> wp (incrCommand s c) (\<lambda>s'. rep s' (v_incr v c k 1))"
    "v_args v c = a0 # k # rest \<Longrightarrow> wp (decrCommand s c) (\<lambda>s'. rep s' (v_incr v c k (-1)))"
    "v_args v c = a0 # k # a # rest \<Longrightarrow> wp (incrbyCommand s c)
      (\<lambda>s'. rep s' (case string2ll a of None \<Rightarrow> v_put v c not_an_integer | Some n \<Rightarrow> v_incr v c k n))"
    "v_args v c = a0 # k # a # rest \<Longrightarrow> wp (decrbyCommand s c)
      (\<lambda>s'. rep s' (case string2ll a of None \<Rightarrow> v_put v c not_an_integer | Some n \<Rightarrow> v_incr v c k (wrap64 (- n))))"
proof -
  note ref = incrDecrCommand_ref [where k = k and c = c, OF _ assms(2) _ assms(3)]
  show "v_args v c = a0 # k # rest \<Longrightarrow> wp (incrCommand s c) (\<lambda>s'. rep s' (v_incr v c k 1))"
    "v_args v c = a0 # k # rest \<Longrightarrow> wp (decrCommand s c) (\<lambda>s'. rep s' (v_incr v c k (-1)))"
    unfolding incrCommand_def decrCommand_def using ref [OF assms(1)] by (simp_all add: int_fits_def)
  assume a: "v_args v c = a0 # k # a # rest"
  show "wp (incrbyCommand s c)
      (\<lambda>s'. rep s' (case string2ll a of None \<Rightarrow> v_put v c not_an_integer | Some n \<Rightarrow> v_incr v c k n))"
    "wp (decrbyCommand s c)
      (\<lambda>s'. rep s' (case string2ll a of None \<Rightarrow> v_put v c not_an_integer | Some n \<Rightarrow> v_incr v c k (wrap64 (- n))))"
    unfolding incrbyCommand_def decrbyCommand_def using a assms(1) string2ll_repr_inv [of a]
    by (auto simp: rep_simps intro!: wp_bind argLongLongOrReply_spec [OF assms(1)] ref)
qed

end
