(* ===== verification/Transactions_Correct.thy ===== *)
theory Transactions_Correct
  imports Db_Commands_Correct String_Commands_Correct
begin

text \<open>
  What the commands of a transaction do to the view: \<open>WATCH\<close>, \<open>UNWATCH\<close>, \<open>MULTI\<close>, \<open>DISCARD\<close>.
  A watched key is recorded twice, in the list of the client and in the dictionary of the
  database; \<open>watch_ok\<close> says that the two agree.
\<close>

section \<open>The dictionary of watched keys\<close>

definition v_setwk :: "view \<Rightarrow> nat \<Rightarrow> sds \<Rightarrow> nat list option \<Rightarrow> view" where
  "v_setwk v i k cs = v\<lparr>v_wk := (v_wk v)(i := (v_wk v i)(k := cs))\<rparr>"

lemma v_setwk_simps [simp]:
  "v_n (v_setwk v i k cs) = v_n v" "v_kv (v_setwk v i k cs) = v_kv v" "v_ttl (v_setwk v i k cs) = v_ttl v"
  "v_srv (v_setwk v i k cs) = v_srv v" "v_fix (v_setwk v i k cs) = v_fix v"
  "v_wk (v_setwk v i k cs) j k' = (if j = i \<and> k' = k then cs else v_wk v j k')"
  by (simp_all add: v_setwk_def v_fix_def fun_eq_iff)

lemma rep_setwk:
  assumes "rep s v" "i < v_n v" "dict_ok (watched_type s) d"
    "dict_lookup (watched_type s) d = (dict_lookup (watched_type s) (watched_keys (dbs s ! i)))(k := cs)"
  shows "rep (set_watched s i d) (v_setwk v i k cs)"
proof (rule rep_set_watched [OF assms(1-3)])
  have "(v_wk v i)(k := cs) = dict_lookup (watched_type s) d"
    using rep_db(7) [OF assms(1,2)] assms(4) by (simp add: fun_eq_iff)
  then show "v_setwk v i k cs = v\<lparr>v_wk := (v_wk v)(i := dict_lookup (watched_type s) d)\<rparr>"
    by (simp add: v_setwk_def)
qed

lemma watched_store_spec [spec]:
  assumes "rep s v" "i < v_n v" "v_wk v i k \<noteq> None" and "\<And>s'. rep s' (v_setwk v i k (Some cs)) \<Longrightarrow> Q s'"
  shows "wp (watched_store s i k cs) Q"
proof -
  let ?t = "watched_type s" and ?d = "watched_keys (dbs s ! i)"
  obtain w where "dict_lookup ?t ?d k = Some w" using assms(3) rep_db(7) [OF assms(1,2), of k] by auto
  then obtain loc where loc: "table_search ?t ?d k (hashFunction ?t k) = Some (Some loc)"
      "dict_ok ?t (dictSetVal ?t ?d loc cs)" "dict_lookup ?t (dictSetVal ?t ?d loc cs) = (dict_lookup ?t ?d)(k \<mapsto> cs)"
    using keylist_dict.map_store [OF rep_db(3) [OF assms(1,2)], of k w cs] by blast
  then show ?thesis using assms(4) [OF rep_setwk [OF assms(1,2) loc(2,3)]] by (simp add: watched_store_def)
qed

definition v_wfits :: "view \<Rightarrow> nat \<Rightarrow> nat \<Rightarrow> bool" where
  "v_wfits v i n \<longleftrightarrow> card (dom (v_wk v i)) + n < 2 ^ 58"

lemma watched_size:
  assumes "rep s v" "i < v_n v"
  shows "dictSize (watched_keys (dbs s ! i)) = card (dom (v_wk v i))" "finite (dom (v_wk v i))"
proof -
  have "v_wk v i = dict_lookup (watched_type s) (watched_keys (dbs s ! i))"
    using rep_db(7) [OF assms] by (simp add: fun_eq_iff)
  then show "dictSize (watched_keys (dbs s ! i)) = card (dom (v_wk v i))" "finite (dom (v_wk v i))"
    using keylist_dict.map_size [OF rep_db(3) [OF assms]] by simp_all
qed

section \<open>WATCH\<close>

definition opt_list :: "'a list option \<Rightarrow> 'a list" where
  "opt_list r = (case r of None \<Rightarrow> [] | Some xs \<Rightarrow> xs)"

lemma opt_list_simps [simp]: "opt_list None = []" "opt_list (Some xs) = xs"
  by (simp_all add: opt_list_def)

definition v_watchKey :: "view \<Rightarrow> nat \<Rightarrow> sds \<Rightarrow> view" where
  "v_watchKey v c k =
     (let i = v_db v c in
      if (k, i) \<in> set (w_keys (v_fix v c)) then v
      else v_client (v_setwk v i k (Some (opt_list (v_wk v i k) @ [c]))) c
             (\<lambda>cl. cl\<lparr>w_keys := w_keys cl @ [(k, i)]\<rparr>))"

lemma already_watched:
  "list_ex (\<lambda>(k', i'). i' = i \<and> equalStringObjects (createStringObject s k) (createStringObject s k') = Some True) wks
     \<longleftrightarrow> (k, i) \<in> set wks"
  by (auto simp: list_ex_iff equalStringObjects_ok create_ok)

lemma watchForKey_spec:
  assumes "rep s v" "v_db v c < v_n v" "v_wfits v (v_db v c) 0"
  shows "wp (watchForKey s c k) (\<lambda>s'. rep s' (v_watchKey v c k))"
proof -
  let ?i = "v_db v c"
  have i: "?i < v_n v" using assms(2) .
  obtain d where d: "dictFetchValue (watched_type s) (watched_keys (dbs s ! ?i)) k = Some (d, v_wk v ?i k)"
      "rep (set_watched s ?i d) v" using fetch_watched [OF assms(1,2), of k] by blast
  let ?s = "set_watched s ?i d"
  have wk: "watched_keys (dbs ?s ! ?i) = d" using assms(1,2) by (simp add: rep_n)
  have fin: "wp (Some (upd_client s' c (\<lambda>cl. cl\<lparr>w_keys := w_keys cl @ [(k, c_db cl)]\<rparr>)))
       (\<lambda>s'. rep s' (v_client w c (\<lambda>cl. cl\<lparr>w_keys := w_keys cl @ [(k, ?i)]\<rparr>)))"
    if "rep s' w" "v_fix w = v_fix v" for s' w
    using that rep_client [OF that(1), of c] rep_fix(1) [OF that(1), of c] rep_client_fields(9) [OF that(1), of c]
    by (auto intro!: wp_Some rep_upd_client)
  show ?thesis
  proof (cases "v_wk v ?i k")
    case None
    have d_eq: "dictSize d = card (dom (v_wk v ?i))" using watched_size(1) [OF d(2) i] wk by simp
    then obtain d' where d': "dictAdd (dict_can_resize (env s)) [] (watched_type s) d k [c] = Some (d', DICT_OK)"
        "dict_ok (watched_type s) d'" "dict_lookup (watched_type s) d' = (dict_lookup (watched_type s) d)(k \<mapsto> [c])"
      using keylist_dict.map_add [OF rep_db(3) [OF d(2) i, unfolded wk], of "dict_can_resize (env s)" "[]" k "[c]"] assms(3)
        rep_db(7) [OF d(2) i, of k] None wk
      by (auto simp: v_wfits_def)
    have "rep (set_watched ?s ?i d') (v_setwk v ?i k (Some [c]))"
      using rep_setwk [OF d(2) i, of d' k "Some [c]"] d' wk by simp
    then show ?thesis using d d' None fin assms(1)
      by (simp add: watchForKey_def v_watchKey_def already_watched rep_simps Let_def)
  next
    case (Some cs)
    then show ?thesis using d fin assms(1) i
      by (simp add: watchForKey_def v_watchKey_def already_watched rep_simps Let_def)
        (auto intro!: wp_bind watched_store_spec [OF d(2) i])
  qed
qed

fun v_watch_loop :: "view \<Rightarrow> nat \<Rightarrow> sds list \<Rightarrow> view" where
  "v_watch_loop v c [] = v"
| "v_watch_loop v c (k # ks) = v_watch_loop (v_watchKey v c k) c ks"

lemma v_watchKey_simps [simp]:
  "v_n (v_watchKey v c k) = v_n v" "v_kv (v_watchKey v c k) = v_kv v" "v_ttl (v_watchKey v c k) = v_ttl v"
  "v_env (v_watchKey v c k) = v_env v" "v_db (v_watchKey v c k) c' = v_db v c'"
  by (auto simp: v_watchKey_def Let_def v_fix_def cfix_def simp del: v_db_clients)

definition wfin :: "view \<Rightarrow> bool" where
  "wfin v \<longleftrightarrow> (\<forall>i < v_n v. finite (dom (v_wk v i)))"

lemma rep_wfin: "rep s v \<Longrightarrow> wfin v"
  by (simp add: wfin_def watched_size)

lemma wfits_watchKey:
  assumes "wfin v" "i < v_n v" "v_wfits v i (Suc n)"
  shows "v_wfits (v_watchKey v c k) i n"
proof -
  have "dom (v_wk (v_watchKey v c k) i) \<subseteq> insert k (dom (v_wk v i))"
    by (auto simp: v_watchKey_def Let_def split: if_splits)
  then have "card (dom (v_wk (v_watchKey v c k) i)) \<le> card (insert k (dom (v_wk v i)))"
    using assms by (intro card_mono) (auto simp: wfin_def)
  also have "\<dots> \<le> Suc (card (dom (v_wk v i)))" by (rule card_insert_le_m1) auto
  finally show ?thesis using assms(3) by (simp add: v_wfits_def)
qed

lemma watch_loop_ref:
  assumes "rep s v" "v_db v c < v_n v" "v_wfits v (v_db v c) (length ks)"
  shows "wp (watch_loop s c ks) (\<lambda>s'. rep s' (v_watch_loop v c ks))"
  using assms
proof (induction ks arbitrary: s v)
  case (Cons k ks)
  have "v_wfits v (v_db v c) 0" using Cons.prems(3) by (simp add: v_wfits_def)
  then have "wp (watchForKey s c k) (\<lambda>s'. rep s' (v_watchKey v c k))" using Cons.prems by (intro watchForKey_spec)
  then show ?case
    using Cons wfits_watchKey [OF rep_wfin [OF Cons.prems(1)] Cons.prems(2)] by (auto intro!: wp_bind elim!: wp_mono)
qed simp

definition v_watch :: "view \<Rightarrow> nat \<Rightarrow> sds list \<Rightarrow> view" where
  "v_watch v c ks =
     (if flag_multi (v_fix v c) then v_put v c (err ''WATCH inside MULTI is not allowed'')
      else v_put (v_watch_loop v c ks) c shared_ok)"

lemma watchCommand_ref:
  assumes "rep s v" "vok v" "v_args v c = a0 # ks" "v_wfits v (v_db v c) (length ks)"
  shows "wp (watchCommand s c) (\<lambda>s'. rep s' (v_watch v c ks))"
proof -
  have "wp (watch_loop s c ks) (\<lambda>s'. rep s' (v_watch_loop v c ks))"
    using assms vok_db by (intro watch_loop_ref)
  then show ?thesis using assms
    by (auto simp: watchCommand_def rep_simps v_watch_def intro!: reply_error_ref wp_bind reply_shared_spec elim!: wp_mono)
qed

section \<open>Agreement of the two records\<close>

definition watchers :: "view \<Rightarrow> nat \<Rightarrow> sds \<Rightarrow> nat list" where
  "watchers v i k = opt_list (v_wk v i k)"

definition watch_ok :: "view \<Rightarrow> bool" where
  "watch_ok v \<longleftrightarrow>
     (\<forall>i k. v_wk v i k \<noteq> Some []) \<and> (\<forall>i k. distinct (watchers v i k)) \<and>
     (\<forall>i k c. c \<in> set (watchers v i k) \<longleftrightarrow> (k, i) \<in> set (w_keys (v_fix v c))) \<and>
     (\<forall>c. distinct (w_keys (v_fix v c)) \<and> (w_keys (v_fix v c) \<noteq> [] \<longrightarrow> c \<in> set (client_list (v_srv v))))"
section \<open>UNWATCH\<close>

definition drop_watcher :: "nat \<Rightarrow> nat list option \<Rightarrow> nat list option" where
  "drop_watcher c r =
     (case r of None \<Rightarrow> None | Some cs \<Rightarrow> if remove1 c cs = [] then None else Some (remove1 c cs))"

definition v_unwatch_keys :: "view \<Rightarrow> nat \<Rightarrow> (sds \<times> nat) list \<Rightarrow> view" where
  "v_unwatch_keys v c wks =
     v_client (v\<lparr>v_wk := \<lambda>i k. if (k, i) \<in> set wks then drop_watcher c (v_wk v i k) else v_wk v i k\<rparr>) c
       (\<lambda>cl. cl\<lparr>w_keys := []\<rparr>)"

abbreviation v_unwatchAll :: "view \<Rightarrow> nat \<Rightarrow> view" where
  "v_unwatchAll v c \<equiv> v_unwatch_keys v c (w_keys (v_fix v c))"

lemma watched_delete:
  assumes "rep s v" "i < v_n v"
  shows "\<exists>d r fr. dictDelete (watched_type s) (watched_keys (dbs s ! i)) k = Some (d, r, fr) \<and>
     rep (set_watched s i d) (v_setwk v i k None)"
proof -
  obtain d r fr where "dictDelete (watched_type s) (watched_keys (dbs s ! i)) k = Some (d, r, fr)" "dict_ok (watched_type s) d"
      "dict_lookup (watched_type s) d = (dict_lookup (watched_type s) (watched_keys (dbs s ! i)))(k := None)"
    using keylist_dict.map_delete [OF rep_db(3) [OF assms], of k] by blast
  then show ?thesis using rep_setwk [OF assms] by blast
qed

lemma unwatch_step:
  assumes "rep s v" "i < v_n v" "c \<in> set (watchers v i k)"
    and "\<And>s'. rep s' (v_client (v_setwk v i k (drop_watcher c (v_wk v i k))) c (\<lambda>cl. cl\<lparr>w_keys := wks\<rparr>)) \<Longrightarrow>
           w_keys (clients s' c) = wks \<Longrightarrow> wp (unwatch_loop s' c wks) Q"
  shows "wp (unwatch_loop s c ((k, i) # wks)) Q"
proof -
  obtain cs where cs: "v_wk v i k = Some cs" "c \<in> set cs"
    using assms(3) by (cases "v_wk v i k") (auto simp: watchers_def)
  obtain d where d: "dictFetchValue (watched_type s) (watched_keys (dbs s ! i)) k = Some (d, v_wk v i k)"
      "rep (set_watched s i d) v" using fetch_watched [OF assms(1,2), of k] by blast
  have cl: "rep (upd_client s' c (\<lambda>cl. cl\<lparr>w_keys := wks\<rparr>)) (v_client w c (\<lambda>cl. cl\<lparr>w_keys := wks\<rparr>))"
    if "rep s' w" for s' w using that rep_client [OF that, of c] by (intro rep_upd_client) auto
  show ?thesis
  proof (cases "remove1 c cs = []")
    case True
    then show ?thesis
      using watched_delete [OF d(2) assms(2), of k] cs d assms(4) cl by (auto simp: drop_watcher_def Let_def)
  next
    case False
    then show ?thesis using cs d assms(4) cl
      by (auto simp: drop_watcher_def Let_def intro!: wp_bind watched_store_spec [OF d(2) assms(2)])
  qed
qed

lemma unwatch_keys_Cons:
  assumes "(k, i) \<notin> set wks"
  shows "v_unwatch_keys (v_client (v_setwk v i k (drop_watcher c (v_wk v i k))) c (\<lambda>cl. cl\<lparr>w_keys := wks\<rparr>)) c wks =
     v_unwatch_keys v c ((k, i) # wks)"
  using assms by (auto simp: v_unwatch_keys_def v_setwk_def v_client_def upd_client_def fun_eq_iff)

lemma w_keys_idem: "w_keys cl = wks \<Longrightarrow> cl\<lparr>w_keys := wks\<rparr> = cl"
  by (cases cl) simp

lemma unwatch_loop_ref:
  assumes "rep s v" "distinct wks" "\<And>k i. (k, i) \<in> set wks \<Longrightarrow> i < v_n v \<and> c \<in> set (watchers v i k)"
    "w_keys (clients s c) = wks"
  shows "wp (unwatch_loop s c wks) (\<lambda>s'. rep s' (v_unwatch_keys v c wks))"
  using assms
proof (induction wks arbitrary: s v)
  case Nil
  have "v_unwatch_keys v c [] = v"
    using Nil(4) rep_client_fields(9) [OF Nil(1), of c]
    by (simp add: v_unwatch_keys_def v_client_def upd_client_def w_keys_idem)
  then show ?case using Nil by simp
next
  case (Cons p wks)
  obtain k i where p: "p = (k, i)" by (cases p)
  show ?case unfolding p
  proof (rule unwatch_step [OF Cons.prems(1)])
    show "i < v_n v" "c \<in> set (watchers v i k)" using Cons.prems(3) p by auto
    fix s' assume s': "rep s' (v_client (v_setwk v i k (drop_watcher c (v_wk v i k))) c (\<lambda>cl. cl\<lparr>w_keys := wks\<rparr>))"
      "w_keys (clients s' c) = wks"
    let ?w = "v_client (v_setwk v i k (drop_watcher c (v_wk v i k))) c (\<lambda>cl. cl\<lparr>w_keys := wks\<rparr>)"
    have "j < v_n ?w \<and> c \<in> set (watchers ?w j k')" if "(k', j) \<in> set wks" for k' j
    proof -
      have "(k', j) \<noteq> (k, i)" using that Cons.prems(2) p by auto
      then have "watchers ?w j k' = watchers v j k'" by (auto simp: watchers_def)
      then show ?thesis using Cons.prems(3) [of k' j] that by simp
    qed
    then show "wp (unwatch_loop s' c wks) (\<lambda>s'. rep s' (v_unwatch_keys v c ((k, i) # wks)))"
      using Cons.IH [OF s'(1)] s'(2) Cons.prems(2) p unwatch_keys_Cons [of k i wks v c] by simp
  qed
qed

lemma unwatchAllKeys_ref:
  assumes "rep s v" "vok v" "watch_ok v"
  shows "wp (unwatchAllKeys s c) (\<lambda>s'. rep s' (v_unwatchAll v c))"
  unfolding unwatchAllKeys_def rep_fix(10) [OF assms(1)]
  using assms rep_fix(10) [OF assms(1), of c]
  by (intro unwatch_loop_ref) (auto simp: watch_ok_def vok_def)

section \<open>Invariants\<close>

lemma watch_ok_cong:
  assumes "v_wk w = v_wk v" "\<And>c. w_keys (v_fix w c) = w_keys (v_fix v c)" "client_list (v_srv w) = client_list (v_srv v)"
  shows "watch_ok w = watch_ok v"
  by (simp add: watch_ok_def watchers_def assms)

lemma vok_cong:
  assumes "v_n w = v_n v" "\<And>c. v_db w c = v_db v c" "\<And>c. w_keys (v_fix w c) = w_keys (v_fix v c)" "v_kv w = v_kv v"
  shows "vok w = vok v"
  by (simp add: vok_def assms)

lemma v_fix_client: "v_fix (v_client v c f) c' = (if c' = c then cfix (f (clients (v_srv v) c)) else v_fix v c')"
  by (simp add: v_fix_def)

lemma w_keys_fix: "w_keys (clients (v_srv v) c) = w_keys (v_fix v c)"
  by (simp add: v_fix_def cfix_fields)

lemma client_keeps:
  assumes "\<And>cl. c_db (f cl) = c_db cl" "\<And>cl. w_keys (f cl) = w_keys cl"
  shows "vok (v_client v c f) = vok v" "watch_ok (v_client v c f) = watch_ok v"
  by (rule vok_cong watch_ok_cong; simp add: v_fix_client cfix_fields assms w_keys_fix)+

lemma watch_ok_put [simp]: "watch_ok (v_put v c b) = watch_ok v"
  by (rule watch_ok_cong) simp_all

lemma vok_put [simp]: "vok (v_put v c b) = vok v"
  by (rule vok_cong) simp_all

lemma w_keys_unwatch:
  "w_keys (v_fix (v_unwatch_keys v c wks) c') = (if c' = c then [] else w_keys (v_fix v c'))"
  "v_db (v_unwatch_keys v c wks) c' = v_db v c'"
  by (auto simp: v_unwatch_keys_def v_fix_def cfix_fields simp del: v_db_clients)

lemma watchers_drop:
  "opt_list (drop_watcher c r) = remove1 c (opt_list r)"
  "drop_watcher c r \<noteq> Some []"
  by (auto simp: drop_watcher_def split: option.splits)

lemma unwatch_keeps:
  assumes "watch_ok v"
  shows "watch_ok (v_unwatchAll v c)"
  unfolding watch_ok_def
proof (intro conjI allI)
  let ?w = "v_unwatchAll v c"
  note ok = assms [unfolded watch_ok_def]
  have wk: "v_wk ?w i k = (if (k, i) \<in> set (w_keys (v_fix v c)) then drop_watcher c (v_wk v i k) else v_wk v i k)" for i k
    by (simp add: v_unwatch_keys_def)
  show "v_wk ?w i k \<noteq> Some []" for i k using ok by (simp add: wk watchers_drop)
  show "distinct (watchers ?w i k)" for i k
    using ok by (simp add: watchers_def wk watchers_drop)
  show "c' \<in> set (watchers ?w i k) \<longleftrightarrow> (k, i) \<in> set (w_keys (v_fix ?w c'))" for i k c'
  proof -
    have "set (watchers ?w i k) = (if (k, i) \<in> set (w_keys (v_fix v c)) then set (watchers v i k) - {c} else set (watchers v i k))"
      using ok by (simp add: watchers_def wk watchers_drop)
    then show ?thesis using ok by (auto simp: w_keys_unwatch)
  qed
  show "distinct (w_keys (v_fix ?w c'))" for c' using ok by (simp add: w_keys_unwatch)
  show "w_keys (v_fix ?w c') \<noteq> [] \<longrightarrow> c' \<in> set (client_list (v_srv ?w))" for c'
    using ok by (simp add: w_keys_unwatch) (simp add: v_unwatch_keys_def)
qed

lemma vok_unwatch: "vok v \<Longrightarrow> vok (v_unwatch_keys v c wks)"
  by (auto simp: vok_def w_keys_unwatch) (simp_all add: v_unwatch_keys_def)

lemma watchKey_keeps:
  assumes "watch_ok v" "c \<in> set (client_list (v_srv v))"
  shows "watch_ok (v_watchKey v c k)"
proof (cases "(k, v_db v c) \<in> set (w_keys (v_fix v c))")
  case False
  let ?i = "v_db v c" and ?w = "v_watchKey v c k"
  note ok = assms [unfolded watch_ok_def]
  have wk: "v_wk ?w j k' = (if j = ?i \<and> k' = k then Some (watchers v j k' @ [c]) else v_wk v j k')" for j k'
    using False by (simp add: v_watchKey_def Let_def watchers_def)
  have wks: "w_keys (v_fix ?w c') = (if c' = c then w_keys (v_fix v c) @ [(k, ?i)] else w_keys (v_fix v c'))" for c'
    using False by (simp add: v_watchKey_def Let_def v_fix_client cfix_fields w_keys_fix)
  have cl: "client_list (v_srv ?w) = client_list (v_srv v)" by (simp add: v_watchKey_def Let_def)
  show ?thesis
    unfolding watch_ok_def
    using ok False by (auto simp: wks cl wk watchers_def)
qed (use assms in \<open>simp add: v_watchKey_def\<close>)

lemma watchKey_vok: "vok v \<Longrightarrow> vok (v_watchKey v c k)"
  by (auto simp: vok_def) (auto simp: v_watchKey_def Let_def v_fix_client cfix_fields w_keys_fix split: if_splits)

lemma watch_loop_keeps:
  assumes "watch_ok v" "c \<in> set (client_list (v_srv v))"
  shows "watch_ok (v_watch_loop v c ks)"
  using assms
proof (induction ks arbitrary: v)
  case (Cons k ks)
  have "client_list (v_srv (v_watchKey v c k)) = client_list (v_srv v)" by (simp add: v_watchKey_def Let_def)
  then show ?case using Cons by (simp add: watchKey_keeps)
qed simp

lemma watch_loop_vok: "vok v \<Longrightarrow> vok (v_watch_loop v c ks)"
  by (induction ks arbitrary: v) (simp_all add: watchKey_vok)

section \<open>MULTI and DISCARD\<close>

definition v_dropq :: "view \<Rightarrow> nat \<Rightarrow> view" where
  "v_dropq v c = v_client v c (\<lambda>cl. cl\<lparr>mstate := [], flag_multi := False, flag_dirty_cas := False, flag_dirty_exec := False\<rparr>)"

definition v_discardT :: "view \<Rightarrow> nat \<Rightarrow> view" where
  "v_discardT v c = v_unwatchAll (v_dropq v c) c"

lemma dropq_keeps: "vok (v_dropq v c) = vok v" "watch_ok (v_dropq v c) = watch_ok v"
  unfolding v_dropq_def by (rule client_keeps; simp)+

lemma rep_dropq:
  assumes "rep s v"
  shows "rep (upd_client s c (\<lambda>cl. cl\<lparr>mstate := [], flag_multi := False, flag_dirty_cas := False, flag_dirty_exec := False\<rparr>))
     (v_dropq v c)"
  unfolding v_dropq_def using rep_client [OF assms, of c] by (intro rep_upd_client [OF assms]) auto

lemma discardTransaction_ref:
  assumes "rep s v" "vok v" "watch_ok v"
  shows "wp (discardTransaction s c) (\<lambda>s'. rep s' (v_discardT v c))"
  unfolding discardTransaction_def v_discardT_def
  using assms by (intro unwatchAllKeys_ref rep_dropq) (simp_all add: dropq_keeps)

definition v_unwatchCommand :: "view \<Rightarrow> nat \<Rightarrow> view" where
  "v_unwatchCommand v c = v_put (v_client (v_unwatchAll v c) c (\<lambda>cl. cl\<lparr>flag_dirty_cas := False\<rparr>)) c shared_ok"

definition v_multi :: "view \<Rightarrow> nat \<Rightarrow> view" where
  "v_multi v c =
     (if flag_multi (v_fix v c) then v_put v c (err ''MULTI calls can not be nested'')
      else v_put (v_client v c (\<lambda>cl. cl\<lparr>flag_multi := True\<rparr>)) c shared_ok)"

definition v_discard :: "view \<Rightarrow> nat \<Rightarrow> view" where
  "v_discard v c =
     (if \<not> flag_multi (v_fix v c) then v_put v c (err ''DISCARD without MULTI'')
      else v_put (v_discardT v c) c shared_ok)"

lemma rep_flag:
  assumes "rep s v"
  shows "rep (upd_client s c (\<lambda>cl. cl\<lparr>flag_dirty_cas := b\<rparr>)) (v_client v c (\<lambda>cl. cl\<lparr>flag_dirty_cas := b\<rparr>))"
    "rep (upd_client s c (\<lambda>cl. cl\<lparr>flag_multi := b\<rparr>)) (v_client v c (\<lambda>cl. cl\<lparr>flag_multi := b\<rparr>))"
  using rep_client [OF assms, of c] by (intro rep_upd_client [OF assms]; auto)+

lemma transaction_commands_ref:
  assumes "rep s v" "vok v" "watch_ok v"
  shows "wp (unwatchCommand s c) (\<lambda>s'. rep s' (v_unwatchCommand v c))"
    "wp (multiCommand s c) (\<lambda>s'. rep s' (v_multi v c))"
    "wp (discardCommand s c) (\<lambda>s'. rep s' (v_discard v c))"
proof -
  show "wp (unwatchCommand s c) (\<lambda>s'. rep s' (v_unwatchCommand v c))"
    unfolding unwatchCommand_def v_unwatchCommand_def
    by (rule wp_bind, rule wp_mono [OF unwatchAllKeys_ref [OF assms]]) (erule reply_shared_spec [OF rep_flag(1)], assumption)
  show "wp (multiCommand s c) (\<lambda>s'. rep s' (v_multi v c))"
    unfolding multiCommand_def v_multi_def using assms
    by (auto simp: rep_simps intro!: reply_error_ref reply_shared_spec rep_flag)
  show "wp (discardCommand s c) (\<lambda>s'. rep s' (v_discard v c))"
    unfolding discardCommand_def v_discard_def using assms discardTransaction_ref [OF assms, of c]
    by (auto simp: rep_simps intro!: reply_error_ref reply_shared_spec wp_bind elim!: wp_mono)
qed

end
