(* ===== verification/Execution_Correct.thy ===== *)
theory Execution_Correct
  imports Transactions_Correct
begin

text \<open>
  The modelled commands together. \<open>v_basic\<close> is the effect of a command on the view, by its procedure
  and its arguments; the command of the code refines it, whatever the procedure.
\<close>

section \<open>The effect of a command\<close>

definition with1 :: "sds list \<Rightarrow> (sds \<Rightarrow> view) \<Rightarrow> view option" where
  "with1 args f = (case args of a # _ \<Rightarrow> Some (f a) | _ \<Rightarrow> None)"

definition with2 :: "sds list \<Rightarrow> (sds \<Rightarrow> sds \<Rightarrow> view) \<Rightarrow> view option" where
  "with2 args f = (case args of a # b # _ \<Rightarrow> Some (f a b) | _ \<Rightarrow> None)"

definition with3 :: "sds list \<Rightarrow> (sds \<Rightarrow> sds \<Rightarrow> sds \<Rightarrow> view) \<Rightarrow> view option" where
  "with3 args f = (case args of a # b # d # _ \<Rightarrow> Some (f a b d) | _ \<Rightarrow> None)"

definition v_incrby :: "view \<Rightarrow> nat \<Rightarrow> sds \<Rightarrow> sds \<Rightarrow> (int \<Rightarrow> int) \<Rightarrow> view" where
  "v_incrby v c k a f = (case string2ll a of None \<Rightarrow> v_put v c not_an_integer | Some n \<Rightarrow> v_incr v c k (f n))"

definition v_basic :: "command_proc \<Rightarrow> view \<Rightarrow> nat \<Rightarrow> sds list \<Rightarrow> view option" where
  "v_basic p v c args =
     (case p of
        P_get \<Rightarrow> with1 args (\<lambda>k. fst (v_get v c k))
      | P_set \<Rightarrow> with2 args (\<lambda>k a. v_setCommand v c k a (drop 2 args))
      | P_setnx \<Rightarrow> with2 args (\<lambda>k a. v_setGeneric v c True False k a None True shared_cone shared_czero)
      | P_setex \<Rightarrow> with3 args (\<lambda>k e a. v_setGeneric v c False False k a (Some e) True shared_ok shared_nullbulk)
      | P_psetex \<Rightarrow> with3 args (\<lambda>k e a. v_setGeneric v c False False k a (Some e) False shared_ok shared_nullbulk)
      | P_getset \<Rightarrow> with2 args (\<lambda>k a. v_getset v c k a)
      | P_append \<Rightarrow> with2 args (\<lambda>k a. v_append v c k a)
      | P_strlen \<Rightarrow> with1 args (\<lambda>k. v_strlen v c k)
      | P_setrange \<Rightarrow> with3 args (\<lambda>k a b. v_setrange v c k a b)
      | P_getrange \<Rightarrow> with3 args (\<lambda>k a b. v_getrange v c k a b)
      | P_mget \<Rightarrow> Some (v_mget v c args)
      | P_mset \<Rightarrow> Some (v_mset v c False args)
      | P_msetnx \<Rightarrow> Some (v_mset v c True args)
      | P_incr \<Rightarrow> with1 args (\<lambda>k. v_incr v c k 1)
      | P_decr \<Rightarrow> with1 args (\<lambda>k. v_incr v c k (-1))
      | P_incrby \<Rightarrow> with2 args (\<lambda>k a. v_incrby v c k a (\<lambda>n. n))
      | P_decrby \<Rightarrow> with2 args (\<lambda>k a. v_incrby v c k a (\<lambda>n. wrap64 (- n)))
      | P_del \<Rightarrow> Some (v_delGeneric v c False args)
      | P_unlink \<Rightarrow> Some (v_delGeneric v c True args)
      | P_exists \<Rightarrow> Some (v_exists v c args)
      | P_touch \<Rightarrow> Some (v_touchCommand v c args)
      | P_type \<Rightarrow> with1 args (\<lambda>k. v_type v c k)
      | P_select \<Rightarrow> with1 args (\<lambda>a. v_selectCommand v c a)
      | P_dbsize \<Rightarrow> Some (v_dbsize v c)
      | P_rename \<Rightarrow> with2 args (\<lambda>a b. v_rename v c False a b)
      | P_renamenx \<Rightarrow> with2 args (\<lambda>a b. v_rename v c True a b)
      | P_move \<Rightarrow> with2 args (\<lambda>k a. v_move v c k a)
      | P_swapdb \<Rightarrow> with2 args (\<lambda>a b. v_swapdb v c a b)
      | P_flushdb \<Rightarrow> Some (v_flushdb v c args)
      | P_flushall \<Rightarrow> Some (v_flushall v c args)
      | P_expire \<Rightarrow> with2 args (\<lambda>k a. v_expireGeneric v c k a (mstime (v_env v)) True)
      | P_expireat \<Rightarrow> with2 args (\<lambda>k a. v_expireGeneric v c k a 0 True)
      | P_pexpire \<Rightarrow> with2 args (\<lambda>k a. v_expireGeneric v c k a (mstime (v_env v)) False)
      | P_pexpireat \<Rightarrow> with2 args (\<lambda>k a. v_expireGeneric v c k a 0 False)
      | P_ttl \<Rightarrow> with1 args (\<lambda>k. v_ttlGeneric v c k False)
      | P_pttl \<Rightarrow> with1 args (\<lambda>k. v_ttlGeneric v c k True)
      | P_persist \<Rightarrow> with1 args (\<lambda>k. v_persist v c k)
      | P_multi \<Rightarrow> Some (v_multi v c)
      | P_discard \<Rightarrow> Some (v_discard v c)
      | P_watch \<Rightarrow> Some (v_watch v c args)
      | P_unwatch \<Rightarrow> Some (v_unwatchCommand v c)
      | _ \<Rightarrow> None)"

lemma with_Some:
  "with1 args f = Some w \<longleftrightarrow> (\<exists>a rest. args = a # rest \<and> w = f a)"
  "with2 args g = Some w \<longleftrightarrow> (\<exists>a b rest. args = a # b # rest \<and> w = g a b)"
  "with3 args h = Some w \<longleftrightarrow> (\<exists>a b d rest. args = a # b # d # rest \<and> w = h a b d)"
  by (auto simp: with1_def with2_def with3_def split: list.splits)

text \<open>
  What the callers of a command guarantee. An argument has at most 512 MB, which is the default of
  \<open>proto-max-bulk-len\<close> (a server that is configured to accept larger ones is not considered), and their
  number fits an \<open>int\<close>; the tables have room; \<open>DEL\<close> and \<open>UNLINK\<close> are in the command table, which
  \<open>populateCommandTable\<close> sees to.
\<close>

definition room :: "view \<Rightarrow> nat \<Rightarrow> bool" where
  "room v n \<longleftrightarrow> (\<forall>i. v_fits v i n) \<and> (\<forall>i < v_n v. v_wfits v i n)"

definition args_ok :: "sds list \<Rightarrow> bool" where
  "args_ok args \<longleftrightarrow> length args < 2 ^ 31 \<and> (\<forall>a \<in> set args. length a \<le> 512 * 1024 * 1024)"

definition table_ok :: "view \<Rightarrow> bool" where
  "table_ok v \<longleftrightarrow> v_lookup v (bs ''DEL'') \<noteq> None \<and> v_lookup v (bs ''UNLINK'') \<noteq> None"

text \<open>The offset of \<open>SETRANGE\<close> plus the length of the value fits a \<open>long long\<close>.\<close>

definition offset_ok :: "command_proc \<Rightarrow> sds list \<Rightarrow> bool" where
  "offset_ok p args \<longleftrightarrow>
     (p = P_setrange \<longrightarrow>
       (case args of _ # a # val # _ \<Rightarrow>
          (case string2ll a of None \<Rightarrow> True | Some off \<Rightarrow> off + int (length val) < 2 ^ 63)
        | _ \<Rightarrow> True))"

lemma v_fits_le: "v_fits v i n \<Longrightarrow> m \<le> n \<Longrightarrow> v_fits v i m"
  by (simp add: v_fits_def)

lemma room_fits:
  assumes "room v (length args)"
  shows "v_fits v i (length args)" "v_fits v i 0" "args \<noteq> [] \<Longrightarrow> v_fits v i 1"
    "i < v_n v \<Longrightarrow> v_wfits v i (length args)"
proof -
  show f: "v_fits v i (length args)" using assms by (simp add: room_def)
  show "v_fits v i 0" by (rule v_fits_le [OF f]) simp
  show "v_fits v i 1" if "args \<noteq> []" by (rule v_fits_le [OF f]) (use that in \<open>simp add: Suc_le_eq\<close>)
  show "i < v_n v \<Longrightarrow> v_wfits v i (length args)" using assms by (simp add: room_def)
qed

theorem basic_proc_ref:
  assumes "rep s v" "vok v" "watch_ok v" "v_args v c = a0 # args" "args_ok args" "room v (length args)" "table_ok v"
    "offset_ok p args" "v_basic p v c args = Some w"
  shows "wp (basic_proc procs p s c) (\<lambda>s'. rep s' w)"
proof -
  have env: "env s = v_env v" using assms(1) by (rule rep_env)
  have n: "length args < 2 ^ 31" using assms(5) by (simp add: args_ok_def)
  have wf: "v_wfits v (v_db v c) (length args)" using room_fits(4) [OF assms(6)] vok_db [OF assms(2)] by blast
  note r = room_fits(1-3) [OF assms(6)]
  note refs = getCommand_ref [OF assms(1,2)] getsetCommand_ref [OF assms(1,2)] set_commands_ref [OF assms(1,2)]
    setrangeCommand_ref [OF assms(1,2)] getrangeCommand_ref [OF assms(1,2)] mgetCommand_ref [OF assms(1,2,4) n]
    msetGenericCommand_ref [OF assms(1,2,4) r(1)] strlenCommand_ref [OF assms(1,2)] appendCommand_ref [OF assms(1,2)]
    incr_commands_ref [OF assms(1,2)] delGenericCommand_ref [OF assms(1,2,4) n] existsCommand_ref [OF assms(1,2,4) n]
    touchCommand_ref [OF assms(1,2,4) n] selectCommand_ref [OF assms(1)] dbsizeCommand_ref [OF assms(1,2) r(2)]
    typeCommand_ref [OF assms(1,2)] swapdbCommand_ref [OF assms(1)] renameGenericCommand_ref [OF assms(1,2)]
    moveCommand_ref [OF assms(1,2)] ttlGenericCommand_ref [OF assms(1,2)]
    expireGenericCommand_ref [OF assms(1,2), where ?base = "mstime (v_env v)"]
    expireGenericCommand_ref [OF assms(1,2), where ?base = 0] persistCommand_ref [OF assms(1,2)]
    flushdbCommand_ref [OF assms(1,2,4)] flushallCommand_ref [OF assms(1,2,4)]
    watchCommand_ref [OF assms(1,2,4) wf] transaction_commands_ref [OF assms(1-3)]
  note defs = v_incrby_def delCommand_def unlinkCommand_def renameCommand_def renamenxCommand_def msetCommand_def
    msetnxCommand_def expireCommand_def expireatCommand_def pexpireCommand_def pexpireatCommand_def ttlCommand_def
    pttlCommand_def env
  note t = assms(7) [unfolded table_ok_def] and o = assms(8) [unfolded offset_ok_def] and a = assms(5) [unfolded args_ok_def]
  show ?thesis
    using assms(9)
    apply (cases p; insert assms(4) r t o a; (auto simp: v_basic_def basic_proc_def with_Some defs intro!: refs; fail)?)
    apply (clarsimp simp: v_basic_def basic_proc_def with_Some defs, rule refs, assumption)+
    done
qed

end
