(* ===== verification/Command_Steps.thy ===== *)
theory Command_Steps
  imports Execution_Correct
begin

text \<open>
  The commands on keys are compositions of a few operations on the keys among their arguments
  (\<open>vsteps\<close>). The invariants, and what a command leaves alone, follow by rule induction.
\<close>

section \<open>Commands as compositions of operations on keys\<close>

definition val_ok :: "aval \<Rightarrow> bool" where
  "val_ok a = (case a of AStr b \<Rightarrow> length b \<le> 512 * 1024 * 1024 | AObj _ \<Rightarrow> True)"

inductive vsteps :: "sds set \<Rightarrow> view \<Rightarrow> view \<Rightarrow> bool" for K v where
  vs_refl: "vsteps K v v"
| vs_call: "vsteps K v w \<Longrightarrow> vsteps K v (v_call w e)"
| vs_put: "vsteps K v w \<Longrightarrow> vsteps K v (v_put w c b)"
| vs_dirty: "vsteps K v w \<Longrightarrow> vsteps K v (v_dirty w n)"
| vs_touch: "vsteps K v w \<Longrightarrow> vsteps K v (v_touch w i k)"
| vs_remember: "vsteps K v w \<Longrightarrow> vsteps K v (v_remember w co i k)"
| vs_rewrite: "vsteps K v w \<Longrightarrow> vsteps K v (v_rewrite w c args)"
| vs_expire: "vsteps K v w \<Longrightarrow> k \<in> K \<Longrightarrow> vsteps K v (v_expire w i k)"
| vs_read: "vsteps K v w \<Longrightarrow> k \<in> K \<Longrightarrow> vsteps K v (v_read w i k)"
| vs_dbdel: "vsteps K v w \<Longrightarrow> k \<in> K \<Longrightarrow> vsteps K v (v_dbdel lz w i k)"
| vs_setttl: "vsteps K v w \<Longrightarrow> k \<in> K \<Longrightarrow> vsteps K v (v_setttl w i k t)"
| vs_set: "vsteps K v w \<Longrightarrow> k \<in> K \<Longrightarrow> val_ok a \<Longrightarrow> vsteps K v (v_set w i k a)"
| vs_add: "vsteps K v w \<Longrightarrow> k \<in> K \<Longrightarrow> val_ok a \<Longrightarrow> vsteps K v (v_add w i k a)"
| vs_setkey: "vsteps K v w \<Longrightarrow> k \<in> K \<Longrightarrow> val_ok a \<Longrightarrow> vsteps K v (v_setkey w i k a)"

lemma client_list_setkey [simp]: "client_list (v_srv (v_setkey v i k a)) = client_list (v_srv v)"
  "client_list (v_srv (v_rewrite v c args)) = client_list (v_srv v)"
  by (simp_all add: v_setkey_def v_rewrite_def Let_def)

text \<open>The part of a client that a command on keys leaves alone.\<close>

definition kept :: "client \<Rightarrow> client" where
  "kept cl = cfix cl\<lparr>argv := [], c_cmd := undefined\<rparr>"

lemma vsteps_frame:
  assumes "vsteps K v w"
  shows "v_n w = v_n v" "v_env w = v_env v" "v_wk w = v_wk v" "client_list (v_srv w) = client_list (v_srv v)"
    "kept (v_fix w c) = kept (v_fix v c)"
  using assms by (induction rule: vsteps.induct) (auto simp: kept_def cfix_def)

lemma kept_fields:
  assumes "kept cl = kept cl'"
  shows "c_db cl = c_db cl'" "w_keys cl = w_keys cl'" "flag_multi cl = flag_multi cl'" "mstate cl = mstate cl'"
    "flag_dirty_exec cl = flag_dirty_exec cl'"
  using assms by (cases cl; cases cl'; auto simp: kept_def cfix_def)+

lemma ttl_other:
  "j \<noteq> i \<or> k' \<noteq> k \<Longrightarrow> v_ttl (v_dbdel b v i k) j k' = v_ttl v j k'"
  "j \<noteq> i \<or> k' \<noteq> k \<Longrightarrow> v_ttl (v_expire v i k) j k' = v_ttl v j k'"
  "j \<noteq> i \<or> k' \<noteq> k \<Longrightarrow> v_ttl (v_setkey v i k a) j k' = v_ttl v j k'"
proof -
  show dbdel: "j \<noteq> i \<or> k' \<noteq> k \<Longrightarrow> v_ttl (v_dbdel b v i k) j k' = v_ttl v j k'" for b v
    by (auto simp: v_dbdel_def v_slotdel_def v_lazyfree_def)
  show ex: "j \<noteq> i \<or> k' \<noteq> k \<Longrightarrow> v_ttl (v_expire v i k) j k' = v_ttl v j k'"
    by (simp add: v_expire_def dbdel)
  show "j \<noteq> i \<or> k' \<noteq> k \<Longrightarrow> v_ttl (v_setkey v i k a) j k' = v_ttl v j k'"
    using ex by (auto simp: v_setkey_def Let_def)
qed

lemma vsteps_other_keys:
  assumes "vsteps K v w" "k \<notin> K"
  shows "v_kv w i k = v_kv v i k" "v_ttl w i k = v_ttl v i k"
  using assms
  by (induction rule: vsteps.induct)
    (auto simp: v_expire_kv, (metis ttl_other)+)

lemma vsteps_vok:
  assumes "vsteps K v w" "vok v"
  shows "vok w"
proof -
  have "\<forall>i k b. v_kv w i k = Some (AStr b) \<longrightarrow> length b \<le> 512 * 1024 * 1024"
    using assms
    by (induction rule: vsteps.induct) (auto simp: v_expire_kv val_ok_def vok_def split: if_splits aval.splits)
  then show ?thesis
    using assms(2) kept_fields [OF vsteps_frame(5) [OF assms(1)]] vsteps_frame(1) [OF assms(1)]
    by (auto simp: vok_def)
qed

lemma vsteps_watch_ok:
  assumes "vsteps K v w"
  shows "watch_ok w = watch_ok v"
  using vsteps_frame [OF assms] kept_fields(2) [OF vsteps_frame(5) [OF assms]] by (intro watch_ok_cong) auto

lemma vsteps_dom: "vsteps K v w \<Longrightarrow> dom (v_kv w i) \<subseteq> dom (v_kv v i) \<union> K"
  using vsteps_other_keys(1) by (fastforce simp: dom_def)

lemma val_ok_simps [simp]: "val_ok (AStr b) \<longleftrightarrow> length b \<le> 512 * 1024 * 1024" "val_ok (AObj x)"
  by (simp_all add: val_ok_def)

lemma vok_val: "vok v \<Longrightarrow> v_kv v i k = Some a \<Longrightarrow> val_ok a"
  by (auto simp: vok_def val_ok_def split: aval.splits)

lemma length_repr_small: "int_fits 8 n \<Longrightarrow> length (repr n) \<le> 512 * 1024 * 1024"
  using length_repr_le [of n] by simp

named_theorems steps \<open>commands as compositions of operations on keys\<close>

lemma loops_vsteps [steps]:
  "vsteps K v0 v \<Longrightarrow> set ks \<subseteq> K \<Longrightarrow> vsteps K v0 (v_mget_loop v c ks)"
  "vsteps K v0 v \<Longrightarrow> set ks \<subseteq> K \<Longrightarrow> vsteps K v0 (fst (v_delkeys lz v i ks n))"
  "vsteps K v0 v \<Longrightarrow> set ks \<subseteq> K \<Longrightarrow> vsteps K v0 (fst (v_exists_loop v i ks n))"
  "vsteps K v0 v \<Longrightarrow> set ks \<subseteq> K \<Longrightarrow> vsteps K v0 (fst (v_touch_loop v i ks n))"
  "vsteps K v0 v \<Longrightarrow> set ks \<subseteq> K \<Longrightarrow> vsteps K v0 (fst (v_msetnx_loop v i ks n))"
  "vsteps K v0 v \<Longrightarrow> set ks \<subseteq> K \<Longrightarrow> (\<forall>a \<in> set ks. length a \<le> 512 * 1024 * 1024) \<Longrightarrow> vsteps K v0 (v_mset_loop v i ks)"
proof -
  show "vsteps K v0 v \<Longrightarrow> set ks \<subseteq> K \<Longrightarrow> vsteps K v0 (v_mget_loop v c ks)"
    by (induction v c ks rule: v_mget_loop.induct) (auto simp: Let_def vsteps.intros)
  show "vsteps K v0 v \<Longrightarrow> set ks \<subseteq> K \<Longrightarrow> vsteps K v0 (fst (v_delkeys lz v i ks n))"
    by (induction lz v i ks n rule: v_delkeys.induct) (auto simp: Let_def vsteps.intros)
  show "vsteps K v0 v \<Longrightarrow> set ks \<subseteq> K \<Longrightarrow> vsteps K v0 (fst (v_exists_loop v i ks n))"
    by (induction v i ks n rule: v_exists_loop.induct) (auto simp: Let_def vsteps.intros)
  show "vsteps K v0 v \<Longrightarrow> set ks \<subseteq> K \<Longrightarrow> vsteps K v0 (fst (v_touch_loop v i ks n))"
    by (induction v i ks n rule: v_touch_loop.induct) (auto simp: Let_def vsteps.intros)
  show "vsteps K v0 v \<Longrightarrow> set ks \<subseteq> K \<Longrightarrow> vsteps K v0 (fst (v_msetnx_loop v i ks n))"
    by (induction v i ks n rule: v_msetnx_loop.induct) (auto simp: Let_def vsteps.intros)
  show "vsteps K v0 v \<Longrightarrow> set ks \<subseteq> K \<Longrightarrow> (\<forall>a \<in> set ks. length a \<le> 512 * 1024 * 1024) \<Longrightarrow> vsteps K v0 (v_mset_loop v i ks)"
    by (induction v i ks rule: v_mset_loop.induct) (auto simp: Let_def vsteps.intros)
qed

lemma string_vsteps [steps]:
  assumes "vok v" "k \<in> K" "length b \<le> 512 * 1024 * 1024"
  shows "vsteps K v (fst (v_get v c k))" "vsteps K v (v_getset v c k b)"
    "vsteps K v (v_setGeneric v c nx xx k b e secs ok abort)" "vsteps K v (v_setCommand v c k b opts)"
    "vsteps K v (v_setrange v c k a b)" "vsteps K v (v_getrange v c k a1 a2)" "vsteps K v (v_append v c k b)"
    "vsteps K v (v_strlen v c k)"
proof -
  show get: "vsteps K v (fst (v_get v c k))"
    using assms by (auto simp: v_get_def Let_def intro!: vsteps.intros split: option.splits aval.splits)
  show "vsteps K v (v_getset v c k b)"
    using assms get by (auto simp: v_getset_def Let_def split: prod.splits intro!: vsteps.intros)
  show set: "vsteps K v (v_setGeneric v c nx xx k b e secs ok abort)" for nx xx e secs ok abort
    using assms by (auto simp: v_setGeneric_def Let_def intro!: vsteps.intros split: option.splits)
  show "vsteps K v (v_setCommand v c k b opts)"
    using assms set by (auto simp: v_setCommand_def intro!: vsteps.intros split: option.splits)
  show "vsteps K v (v_getrange v c k a1 a2)"
    using assms by (auto simp: v_getrange_def Let_def intro!: vsteps.intros split: option.splits aval.splits)
  show "vsteps K v (v_strlen v c k)"
    using assms by (auto simp: v_strlen_def Let_def intro!: vsteps.intros split: option.splits aval.splits)
  show "vsteps K v (v_append v c k b)"
    using assms by (auto simp: v_append_def Let_def intro!: vsteps.intros split: option.splits aval.splits)
  show "vsteps K v (v_setrange v c k a b)"
  proof (cases "string2ll a")
    case (Some off)
    let ?w = "v_expire v (v_db v c) k"
    have w: "vok ?w" using assms(1) by (rule vok_expire)
    have "val_ok (AStr (setrange_bytes old (nat off) b))"
      if "b \<noteq> []" "off + int (length b) \<le> 512 * 1024 * 1024" "0 \<le> off" "length old \<le> 512 * 1024 * 1024" for old
      using that by (auto simp: length_setrange_bytes)
    moreover have "length old \<le> 512 * 1024 * 1024" if "v_kv ?w (v_db v c) k = Some (AStr old)" for old
      using vok_val [OF w that] by simp
    ultimately show ?thesis using Some assms
      by (auto simp: v_setrange_def Let_def vsteps.intros not_less split: option.splits aval.splits)
  qed (use assms in \<open>simp add: v_setrange_def vsteps.intros\<close>)
qed

lemma counter_vsteps [steps]:
  assumes "vok v" "k \<in> K"
  shows "vsteps K v (v_incr v c k n)" "vsteps K v (v_incrby v c k a f)"
proof -
  show incr: "vsteps K v (v_incr v c k n)" for n
    using assms length_repr_small [OF wrap64_fits]
    by (simp add: v_incr_def Let_def split: option.splits aval.splits) (simp add: vsteps.intros)
  show "vsteps K v (v_incrby v c k a f)"
    using incr by (simp add: v_incrby_def vsteps.intros split: option.split)
qed

lemma list_vsteps [steps]:
  assumes "set ks \<subseteq> K"
  shows "vsteps K v (v_mget v c ks)" "vsteps K v (v_delGeneric v c lz ks)" "vsteps K v (v_exists v c ks)"
    "vsteps K v (v_touchCommand v c ks)"
    "\<forall>a \<in> set ks. length a \<le> 512 * 1024 * 1024 \<Longrightarrow> vsteps K v (v_mset v c nx ks)"
proof -
  note loops = loops_vsteps [OF vs_refl assms]
  show "vsteps K v (v_mget v c ks)" unfolding v_mget_def by (rule loops_vsteps(1)) (simp_all add: vsteps.intros assms)
  show "vsteps K v (v_delGeneric v c lz ks)"
    using loops(2) [of v lz "v_db v c" 0] by (auto simp: v_delGeneric_def intro: vs_put split: prod.splits)
  show "vsteps K v (v_exists v c ks)"
    using loops(3) [of v "v_db v c" 0] by (auto simp: v_exists_def intro: vs_put split: prod.splits)
  show "vsteps K v (v_touchCommand v c ks)"
    using loops(4) [of v "v_db v c" 0] by (auto simp: v_touchCommand_def intro: vs_put split: prod.splits)
  show "vsteps K v (v_mset v c nx ks)" if "\<forall>a \<in> set ks. length a \<le> 512 * 1024 * 1024"
    using loops(5) [of v "v_db v c" 0] loops_vsteps(6) [OF _ assms that] that vs_refl [of K v]
    by (auto simp: v_mset_def Let_def intro!: vs_put vs_dirty split: prod.splits if_splits)
qed

lemma key_vsteps [steps]:
  assumes "vok v" "k \<in> K"
  shows "vsteps K v (v_type v c k)" "vsteps K v (v_dbsize v c)" "vsteps K v (v_expireGeneric v c k a base secs)"
    "vsteps K v (v_ttlGeneric v c k ms)" "vsteps K v (v_persist v c k)" "vsteps K v (v_move v c k a)"
    "dst \<in> K \<Longrightarrow> vsteps K v (v_rename v c nx k dst)"
proof -
  show "vsteps K v (v_type v c k)" "vsteps K v (v_dbsize v c)" "vsteps K v (v_expireGeneric v c k a base secs)"
    "vsteps K v (v_ttlGeneric v c k ms)" "vsteps K v (v_persist v c k)"
    using assms by (simp_all add: v_type_def v_dbsize_def v_expireGeneric_def v_ttlGeneric_def v_persist_def Let_def
        vsteps.intros split: option.split)
  have moved: "vsteps K v (v_moved_ttl w c' i k' t)" if "vsteps K v w" "k' \<in> K" for w c' i k' t
    using that by (simp add: v_moved_ttl_def Let_def vsteps.intros)
  have val: "val_ok a" if "v_kv (v_expire v i k') j k'' = Some a" for a i j k' k''
    using vok_val [OF vok_expire [OF assms(1)] that] .
  show "vsteps K v (v_move v c k a)"
    using assms val by (simp add: v_move_def Let_def vsteps.intros moved split: option.split)
  show "vsteps K v (v_rename v c nx k dst)" if "dst \<in> K"
    using assms that val by (simp add: v_rename_def Let_def vsteps.intros moved split: option.split)
qed

definition on_keys :: "command_proc \<Rightarrow> bool" where
  "on_keys p \<longleftrightarrow> p \<notin> {P_select, P_swapdb, P_flushdb, P_flushall, P_multi, P_discard, P_watch, P_unwatch}"

theorem basic_vsteps:
  assumes "vok v" "args_ok args" "on_keys p" "v_basic p v c args = Some w"
  shows "vsteps (set args) v w"
proof (cases "p = P_dbsize")
  case True
  then show ?thesis using assms(4) by (auto simp: v_basic_def v_dbsize_def intro: vsteps.intros)
next
  case False
  then show ?thesis using assms
    by (cases p) (auto simp: v_basic_def with_Some on_keys_def args_ok_def intro!: steps)
qed

end
