(* ===== verification/Command_Invariants.thy ===== *)
theory Command_Invariants
  imports Command_Steps
begin

text \<open>
  The well-formedness of the views and the agreement of the records of watched keys are kept by
  every modelled command, and a command adds no more keys than it has arguments.
\<close>

section \<open>The other commands\<close>

text \<open>Selecting, swapping and flushing databases keep the well-formedness.\<close>

lemma select_keeps:
  assumes "vok v"
  shows "vok (v_selectCommand v c a)" "watch_ok (v_selectCommand v c a) = watch_ok v"
proof -
  have "watch_ok (v_select v c j) = watch_ok v" for j
    by (rule watch_ok_cong) (simp_all add: v_select_def v_fix_client cfix_fields w_keys_fix)
  then show "watch_ok (v_selectCommand v c a) = watch_ok v"
    by (simp add: v_selectCommand_def split: option.split)
  have "vok (v_select v c j)" if "j < v_n v" for j using assms that by (auto simp: vok_def)
  then show "vok (v_selectCommand v c a)"
    using assms by (simp add: v_selectCommand_def nat_less_iff not_less not_le split: option.split)
qed

lemma swap_keeps:
  assumes "vok v"
  shows "vok (v_swapdb v c a b)" "watch_ok (v_swapdb v c a b) = watch_ok v"
proof -
  have "watch_ok (v_dirty (v_call (v_call (v_swap v i j) e) e') n) = watch_ok v" "watch_ok (v_dirty v n) = watch_ok v" for i j e e' n
    by (rule watch_ok_cong; simp)+
  then show "watch_ok (v_swapdb v c a b) = watch_ok v"
    by (simp add: v_swapdb_def Let_def split: option.split)
  have "vok (v_swap v i j)" for i j using assms by (auto simp: vok_def) (auto simp: v_swap_def split: if_splits)
  moreover have "vok (v_dirty (v_call (v_call w e) e') n) = vok w" "vok (v_dirty w n) = vok w" for w e e' n
    by (rule vok_cong; simp)+
  ultimately show "vok (v_swapdb v c a b)"
    using assms by (simp add: v_swapdb_def Let_def split: option.split)
qed

lemma client_list_empty_loop [simp]: "client_list (v_srv (fst (v_empty_loop v d as js m))) = client_list (v_srv v)"
  by (induction v d as js m rule: v_empty_loop.induct) (auto simp: v_empty1_def)

lemma client_list_emptyDb [simp]: "client_list (v_srv (v_emptyDb v d as)) = client_list (v_srv v)"
  by (simp add: v_emptyDb_def Let_def)

lemma empty_loop_sub: "v_kv (fst (v_empty_loop v d as js m)) i k = Some a \<Longrightarrow> v_kv v i k = Some a"
  by (induction v d as js m rule: v_empty_loop.induct) (auto split: if_splits)

lemma emptyDb_sub: "v_kv (v_emptyDb v d as) i k = Some a \<Longrightarrow> v_kv v i k = Some a"
  using empty_loop_sub [of v d as "[0..<v_n v]" 0] by (simp add: v_emptyDb_def Let_def split: if_splits)

lemma after_flushall_simps [simp]:
  "v_n (v_after_flushall v) = v_n v" "v_kv (v_after_flushall v) = v_kv v" "v_ttl (v_after_flushall v) = v_ttl v"
  "v_wk (v_after_flushall v) = v_wk v" "v_env (v_after_flushall v) = v_env v"
  "v_fix (v_after_flushall v) c = v_fix v c" "client_list (v_srv (v_after_flushall v)) = client_list (v_srv v)"
  by (simp_all add: v_after_flushall_def v_setdirty_def Let_def v_fix_def)

lemma flush_frame:
  assumes "w = v_flushdb v c opts \<or> w = v_flushall v c opts"
  shows "v_n w = v_n v" "v_env w = v_env v" "v_wk w = v_wk v" "client_list (v_srv w) = client_list (v_srv v)"
    "v_fix w c' = v_fix v c'" "v_kv w i k = Some a \<Longrightarrow> v_kv v i k = Some a"
proof -
  show "v_n w = v_n v" "v_env w = v_env v" "v_wk w = v_wk v" "client_list (v_srv w) = client_list (v_srv v)"
    "v_fix w c' = v_fix v c'"
    using assms by (auto simp: v_flushdb_def v_flushall_def Let_def split: option.splits)
  show "v_kv w i k = Some a \<Longrightarrow> v_kv v i k = Some a"
    using assms by (auto simp: v_flushdb_def v_flushall_def Let_def dest!: emptyDb_sub split: option.splits)
qed

lemma flush_keeps:
  assumes "w = v_flushdb v c opts \<or> w = v_flushall v c opts" "vok v"
  shows "vok w" "watch_ok w = watch_ok v"
proof -
  note frame = flush_frame [OF assms(1)]
  show "watch_ok w = watch_ok v" by (rule watch_ok_cong) (simp_all add: frame)
  show "vok w" using assms(2) frame(6) unfolding vok_def frame(1,5) by blast
qed

text \<open>The commands of a transaction.\<close>

lemma transaction_keeps:
  assumes "vok v" "watch_ok v" "c \<in> set (client_list (v_srv v))"
  shows "vok (v_multi v c) \<and> watch_ok (v_multi v c)" "vok (v_discard v c) \<and> watch_ok (v_discard v c)"
    "vok (v_watch v c ks) \<and> watch_ok (v_watch v c ks)" "vok (v_unwatchCommand v c) \<and> watch_ok (v_unwatchCommand v c)"
proof -
  have flag: "vok (v_client w c (\<lambda>cl. cl\<lparr>flag_multi := b\<rparr>)) = vok w" "watch_ok (v_client w c (\<lambda>cl. cl\<lparr>flag_multi := b\<rparr>)) = watch_ok w"
    "vok (v_client w c (\<lambda>cl. cl\<lparr>flag_dirty_cas := b\<rparr>)) = vok w"
    "watch_ok (v_client w c (\<lambda>cl. cl\<lparr>flag_dirty_cas := b\<rparr>)) = watch_ok w" for w b
    by (rule client_keeps; simp)+
  show "vok (v_multi v c) \<and> watch_ok (v_multi v c)" using assms flag by (simp add: v_multi_def)
  show "vok (v_discard v c) \<and> watch_ok (v_discard v c)"
    using assms by (simp add: v_discard_def v_discardT_def dropq_keeps vok_unwatch unwatch_keeps)
  show "vok (v_watch v c ks) \<and> watch_ok (v_watch v c ks)"
    using assms by (simp add: v_watch_def watch_loop_vok watch_loop_keeps)
  show "vok (v_unwatchCommand v c) \<and> watch_ok (v_unwatchCommand v c)"
    using assms flag by (simp add: v_unwatchCommand_def vok_unwatch unwatch_keeps)
qed

theorem basic_keeps:
  assumes "vok v" "watch_ok v" "args_ok args" "c \<in> set (client_list (v_srv v))" "v_basic p v c args = Some w"
  shows "vok w \<and> watch_ok w"
proof (cases "on_keys p")
  case True
  then show ?thesis
    using vsteps_vok vsteps_watch_ok basic_vsteps [OF assms(1,3) True assms(5)] assms(1,2) by blast
next
  case False
  then show ?thesis
    using assms(2,5) select_keeps [OF assms(1)] swap_keeps [OF assms(1)] flush_keeps [OF disjI1 [OF refl] assms(1)]
      flush_keeps [OF disjI2 [OF refl] assms(1)] transaction_keeps [OF assms(1,2,4)]
    by (auto simp: on_keys_def v_basic_def with_Some)
qed

text \<open>What no command changes.\<close>

lemma watch_loop_frame [simp]:
  "v_n (v_watch_loop v c ks) = v_n v" "v_env (v_watch_loop v c ks) = v_env v"
  "client_list (v_srv (v_watch_loop v c ks)) = client_list (v_srv v)" "v_kv (v_watch_loop v c ks) = v_kv v"
  by (induction ks arbitrary: v) (simp_all add: v_watchKey_def Let_def)

lemma unwatch_frame [simp]:
  "v_n (v_unwatch_keys v c wks) = v_n v" "v_env (v_unwatch_keys v c wks) = v_env v"
  "client_list (v_srv (v_unwatch_keys v c wks)) = client_list (v_srv v)" "v_kv (v_unwatch_keys v c wks) = v_kv v"
  "v_ttl (v_unwatch_keys v c wks) = v_ttl v"
  by (simp_all add: v_unwatch_keys_def)

lemma other_frame:
  "v_n (v_selectCommand v c a) = v_n v" "v_n (v_swapdb v c a b) = v_n v" "v_n (v_multi v c) = v_n v"
  "v_n (v_discard v c) = v_n v" "v_n (v_watch v c ks) = v_n v" "v_n (v_unwatchCommand v c) = v_n v"
  "v_env (v_selectCommand v c a) = v_env v" "v_env (v_swapdb v c a b) = v_env v" "v_env (v_multi v c) = v_env v"
  "v_env (v_discard v c) = v_env v" "v_env (v_watch v c ks) = v_env v" "v_env (v_unwatchCommand v c) = v_env v"
  "client_list (v_srv (v_selectCommand v c a)) = client_list (v_srv v)"
  "client_list (v_srv (v_swapdb v c a b)) = client_list (v_srv v)"
  "client_list (v_srv (v_multi v c)) = client_list (v_srv v)"
  "client_list (v_srv (v_discard v c)) = client_list (v_srv v)"
  "client_list (v_srv (v_watch v c ks)) = client_list (v_srv v)"
  "client_list (v_srv (v_unwatchCommand v c)) = client_list (v_srv v)"
  by (simp_all add: v_selectCommand_def v_swapdb_def v_multi_def v_discard_def v_discardT_def v_dropq_def v_watch_def
      v_unwatchCommand_def v_select_def Let_def split: option.split)

lemma basic_frame:
  assumes "vok v" "args_ok args" "v_basic p v c args = Some w"
  shows "v_n w = v_n v" "v_env w = v_env v" "client_list (v_srv w) = client_list (v_srv v)"
proof -
  have "v_n w = v_n v \<and> v_env w = v_env v \<and> client_list (v_srv w) = client_list (v_srv v)"
  proof (cases "on_keys p")
    case True
    then show ?thesis using vsteps_frame(1,2,4) [OF basic_vsteps [OF assms(1,2) True assms(3)]] by simp
  next
    case False
    then show ?thesis
      using assms(3) flush_frame(1,2,4) [OF disjI1 [OF refl]] flush_frame(1,2,4) [OF disjI2 [OF refl]]
      by (auto simp: on_keys_def v_basic_def with_Some other_frame)
  qed
  then show "v_n w = v_n v" "v_env w = v_env v" "client_list (v_srv w) = client_list (v_srv v)" by auto
qed

section \<open>The number of keys\<close>

text \<open>A command adds no more keys to a database, and to its watched keys, than it has arguments.\<close>

lemma fits_grow:
  assumes "finite (dom (v_kv v i))" "dom (v_kv w i) \<subseteq> dom (v_kv v i) \<union> set args" "v_fits v i (n + length args)"
  shows "v_fits w i n"
proof -
  have "card (dom (v_kv w i)) \<le> card (dom (v_kv v i) \<union> set args)" using assms by (intro card_mono) auto
  also have "\<dots> \<le> card (dom (v_kv v i)) + length args"
    using card_Un_le [of "dom (v_kv v i)" "set args"] card_length [of args] by linarith
  finally show ?thesis using assms(3) by (simp add: v_fits_def)
qed

lemma wfits_sub:
  assumes "finite (dom (v_wk v i))" "dom (v_wk w i) \<subseteq> dom (v_wk v i) \<union> set args" "v_wfits v i (n + length args)"
  shows "v_wfits w i n"
proof -
  have "card (dom (v_wk w i)) \<le> card (dom (v_wk v i) \<union> set args)" using assms by (intro card_mono) auto
  also have "\<dots> \<le> card (dom (v_wk v i)) + length args"
    using card_Un_le [of "dom (v_wk v i)" "set args"] card_length [of args] by linarith
  finally show ?thesis using assms(3) by (simp add: v_wfits_def)
qed

lemma watch_loop_dom: "dom (v_wk (v_watch_loop v c ks) i) \<subseteq> dom (v_wk v i) \<union> set ks"
proof (induction ks arbitrary: v)
  case (Cons k ks)
  have "dom (v_wk (v_watchKey v c k) i) \<subseteq> dom (v_wk v i) \<union> {k}"
    by (auto simp: v_watchKey_def Let_def split: if_splits)
  then have "dom (v_wk (v_watchKey v c k) i) \<union> set ks \<subseteq> dom (v_wk v i) \<union> set (k # ks)" unfolding list.set by blast
  with Cons [of "v_watchKey v c k"] show ?case unfolding v_watch_loop.simps by (rule subset_trans)
qed simp

lemma unwatch_dom: "dom (v_wk (v_unwatch_keys v c wks) i) \<subseteq> dom (v_wk v i)"
  by (auto simp: v_unwatch_keys_def drop_watcher_def split: if_splits option.splits)

lemma basic_wk_dom:
  assumes "vok v" "args_ok args" "v_basic p v c args = Some w"
  shows "dom (v_wk w i) \<subseteq> dom (v_wk v i) \<union> set args"
proof (cases "on_keys p")
  case True
  then show ?thesis using vsteps_frame(3) [OF basic_vsteps [OF assms(1,2) True assms(3)]] by simp
next
  case False
  have same: "v_wk (v_selectCommand v c a) = v_wk v" "v_wk (v_swapdb v c a b) = v_wk v" "v_wk (v_multi v c) = v_wk v" for a b
    by (simp_all add: v_selectCommand_def v_swapdb_def v_multi_def Let_def split: option.split)
  have dropq: "v_wk (v_dropq v c) = v_wk v" by (simp add: v_dropq_def)
  have un: "dom (v_wk (v_discard v c) i) \<subseteq> dom (v_wk v i)" "dom (v_wk (v_unwatchCommand v c) i) \<subseteq> dom (v_wk v i)"
    using unwatch_dom [of "v_dropq v c" c _ i] unwatch_dom [of v c _ i]
    by (simp_all add: v_discard_def v_discardT_def v_unwatchCommand_def dropq)
  have wa: "dom (v_wk (v_watch v c args) i) \<subseteq> dom (v_wk v i) \<union> set args"
    using watch_loop_dom [of v c args i] by (simp add: v_watch_def)
  show ?thesis
    using False assms(3) flush_frame(3) [OF disjI1 [OF refl], of v c args] flush_frame(3) [OF disjI2 [OF refl], of v c args]
    by (auto simp: on_keys_def v_basic_def with_Some same dest: un [THEN subsetD, OF domI] wa [THEN subsetD, OF domI])
qed

lemma swapdb_kv: "\<exists>\<pi>. \<forall>i. v_kv (v_swapdb v c a b) i = v_kv v (\<pi> i)"
proof -
  have "\<exists>\<pi>. \<forall>x. v_kv (v_swap v i j) x = v_kv v (\<pi> x)" for i j
    by (rule exI [of _ "\<lambda>x. if x = j then i else if x = i then j else x"]) (simp add: v_swap_def)
  moreover have "\<exists>\<pi>. \<forall>x. v_kv v x = v_kv v (\<pi> x)" by (rule exI [of _ "\<lambda>x. x"]) simp
  ultimately show ?thesis by (simp add: v_swapdb_def Let_def split: option.split)
qed

lemma basic_kv_fits:
  assumes "vok v" "args_ok args" "v_basic p v c args = Some w" "vfin v" "\<And>i. v_fits v i (n + length args)"
  shows "v_fits w i n"
proof (cases "on_keys p")
  case True
  then show ?thesis
    using fits_grow [OF _ vsteps_dom [OF basic_vsteps [OF assms(1,2) True assms(3)]] assms(5)] assms(4)
    by (simp add: vfin_def)
next
  case False
  have le: "v_fits v j n" for j using v_fits_le [OF assms(5)] by simp
  have same: "v_kv (v_selectCommand v c a) = v_kv v" "v_kv (v_multi v c) = v_kv v" "v_kv (v_discard v c) = v_kv v"
    "v_kv (v_watch v c args) = v_kv v" "v_kv (v_unwatchCommand v c) = v_kv v" for a
    by (simp_all add: v_selectCommand_def v_multi_def v_discard_def v_discardT_def v_dropq_def v_watch_def
        v_unwatchCommand_def Let_def split: option.split)
  have "dom (v_kv (v_flushdb v c args) i) \<subseteq> dom (v_kv v i)" "dom (v_kv (v_flushall v c args) i) \<subseteq> dom (v_kv v i)"
    by (auto dest: flush_frame(6) [OF disjI1 [OF refl]] flush_frame(6) [OF disjI2 [OF refl]])
  then have fl: "v_fits (v_flushdb v c args) i n" "v_fits (v_flushall v c args) i n"
    using v_fits_sub [OF le] assms(4) by (auto simp: vfin_def)
  have sw: "v_fits (v_swapdb v c a b) i n" for a b
    using swapdb_kv [of v c a b] le by (auto simp: v_fits_def)
  show ?thesis using False assms(3) le fl sw
    by (auto simp: on_keys_def v_basic_def with_Some v_fits_def same)
qed

theorem basic_room:
  assumes "vok v" "args_ok args" "v_basic p v c args = Some w" "vfin v" "wfin v" "room v (n + length args)"
  shows "room w n"
proof -
  have "v_fits w i n" for i using basic_kv_fits [OF assms(1-4)] assms(6) by (simp add: room_def)
  moreover have "v_wfits w i n" if "i < v_n v" for i
    using wfits_sub [OF _ basic_wk_dom [OF assms(1-3)], of i n] assms(5,6) that by (simp add: room_def wfin_def)
  ultimately show ?thesis using basic_frame(1) [OF assms(1-3)] by (simp add: room_def)
qed

end
