(* ===== verification/Call_Correct.thy ===== *)
theory Call_Correct
  imports Command_Invariants
begin

text \<open>
  \<open>call\<close> and \<open>EXEC\<close> over the views. Around the command, \<open>call\<close> reads and writes only the part of the
  server that the view keeps as it is, so its effect on the view is the same function applied there.
\<close>

section \<open>Functions that leave the databases alone\<close>

definition proj :: "redisServer \<Rightarrow> redisServer" where
  "proj s = s\<lparr>dbs := [], rand_pos := 0, clients := client_view \<circ> clients s\<rparr>"

lemma proj_simps [simp]:
  "env (proj s) = env s" "dirty (proj s) = dirty s" "also_propagate (proj s) = also_propagate s"
  "stat_numcommands (proj s) = stat_numcommands s" "client_list (proj s) = client_list s"
  "clients (proj s) c = client_view (clients s c)" "proj (server_call s e) = server_call (proj s) e"
  "proj (s\<lparr>also_propagate := ops\<rparr>) = (proj s)\<lparr>also_propagate := ops\<rparr>"
  "proj (s\<lparr>stat_numcommands := n\<rparr>) = (proj s)\<lparr>stat_numcommands := n\<rparr>"
  "proj (dirty_add s d) = dirty_add (proj s) d"
  by (simp_all add: proj_def server_call_def dirty_add_def)

lemma proj_upd: "(\<And>cl. client_view (f cl) = f (client_view cl)) \<Longrightarrow> proj (upd_client s c f) = upd_client (proj s) c f"
  by (simp add: proj_def upd_client_def fun_eq_iff)

definition v_lift :: "(redisServer \<Rightarrow> redisServer) \<Rightarrow> view \<Rightarrow> view" where
  "v_lift f v = v\<lparr>v_srv := f (v_srv v)\<rparr>"

lemma rep_lift:
  assumes "rep s v" "dbs (f s) = dbs s" "env (f s) = env s" "proj (f s) = f (proj s)"
  shows "rep (f s) (v_lift f v)"
  using assms(1)
proof (rule rep_srv [OF _ assms(2,3)])
  have "v_srv v = proj s" using rep_srv_of [OF assms(1)] by (simp add: proj_def)
  then show "v_lift f v = v\<lparr>v_srv := f s\<lparr>dbs := [], rand_pos := 0, clients := client_view \<circ> clients (f s)\<rparr>\<rparr>"
    using assms(4) by (simp add: v_lift_def proj_def)
qed

lemma v_lift_simps [simp]:
  "v_n (v_lift f v) = v_n v" "v_kv (v_lift f v) = v_kv v" "v_ttl (v_lift f v) = v_ttl v" "v_wk (v_lift f v) = v_wk v"
  "v_srv (v_lift f v) = f (v_srv v)"
  by (simp_all add: v_lift_def)

text \<open>The flags that control the propagation of a command.\<close>

definition noprop :: "client \<Rightarrow> client" where
  "noprop cl = clear_prop_flags cl"

section \<open>Propagation\<close>

definition call_before :: "redisServer \<Rightarrow> nat \<Rightarrow> redisServer" where
  "call_before s c =
     (let old = clients s c;
          s = (if monitors (env s) \<and> \<not> loading (env s) \<and> \<not> (cmd_skip_monitor (c_cmd old) \<or> cmd_admin (c_cmd old))
               then server_call s (FeedMonitors (c_db old) (argv old)) else s)
      in (upd_client s c clear_prop_flags)\<lparr>also_propagate := []\<rparr>)"

lemma call_with_before:
  "call_with run s c fl =
     map_option (\<lambda>s'. call_after s' c fl (clients s c) (dirty s) (also_propagate s))
       (run (cmd_proc (c_cmd (clients s c))) (call_before s c) c)"
  by (auto simp: call_with_def call_before_def Let_def clear_prop_flags_def server_call_def upd_client_def split: bind_splits)

lemma client_view_clear [simp]: "client_view (clear_prop_flags cl) = clear_prop_flags (client_view cl)"
  by (simp add: clear_prop_flags_def)

lemma propagate_frame [simp]:
  "dbs (propagate s cmd i args aof repl) = dbs s" "env (propagate s cmd i args aof repl) = env s"
  "clients (propagate s cmd i args aof repl) = clients s" "dirty (propagate s cmd i args aof repl) = dirty s"
  "client_list (propagate s cmd i args aof repl) = client_list s"
  "also_propagate (propagate s cmd i args aof repl) = also_propagate s"
  "stat_numcommands (propagate s cmd i args aof repl) = stat_numcommands s"
  "proj (propagate s cmd i args aof repl) = propagate (proj s) cmd i args aof repl"
  by (simp_all add: propagate_def Let_def server_call_def) (simp add: proj_def)

lemma call_propagate_frame [simp]:
  "dbs (call_propagate s c fl b) = dbs s" "env (call_propagate s c fl b) = env s"
  "clients (call_propagate s c fl b) = clients s" "client_list (call_propagate s c fl b) = client_list s"
  "proj (call_propagate s c fl b) = call_propagate (proj s) c fl b"
  "also_propagate (call_propagate s c fl b) = also_propagate s"
  by (simp_all add: call_propagate_def Let_def if_distrib [of dbs] if_distrib [of env] if_distrib [of clients]
      if_distrib [of client_list] if_distrib [of proj] if_distrib [of also_propagate]) blast

lemma also_propagate_frame [simp]:
  "dbs (also_propagate_loop s fl ops) = dbs s" "env (also_propagate_loop s fl ops) = env s"
  "clients (also_propagate_loop s fl ops) = clients s" "client_list (also_propagate_loop s fl ops) = client_list s"
  "proj (also_propagate_loop s fl ops) = also_propagate_loop (proj s) fl ops"
  "stat_numcommands (also_propagate_loop s fl ops) = stat_numcommands s"
  by (induction s fl ops rule: also_propagate_loop.induct) (simp_all add: Let_def if_distrib [of proj])

text \<open>The parts of \<open>call_after\<close>.\<close>

definition lua_stage :: "redisServer \<Rightarrow> nat \<Rightarrow> redisServer" where
  "lua_stage s c =
     (case lua_caller (env s) of
        None \<Rightarrow> s
      | Some lc \<Rightarrow>
          if flag_lua (clients s c) then
            let s' = (if flag_force_repl (clients s c) then upd_client s lc (\<lambda>x. x\<lparr>flag_force_repl := True\<rparr>) else s)
            in if flag_force_aof (clients s c) then upd_client s' lc (\<lambda>x. x\<lparr>flag_force_aof := True\<rparr>) else s'
          else s)"

definition log_stage :: "redisServer \<Rightarrow> client \<Rightarrow> call_flags \<Rightarrow> redisServer" where
  "log_stage s cl fl =
     (let s = (if cf_slowlog fl \<and> cmd_proc (c_cmd cl) \<noteq> P_exec
               then server_call s (LatencyAndSlowlog (c_db cl) (argv cl)) else s)
      in if cf_stats fl then server_call s (CommandStats (c_lastcmd cl)) else s)"

definition restore_stage :: "redisServer \<Rightarrow> nat \<Rightarrow> client \<Rightarrow> redisServer" where
  "restore_stage s c old =
     upd_client s c (\<lambda>x. x\<lparr>flag_force_aof := flag_force_aof old, flag_force_repl := flag_force_repl old,
       flag_prevent_aof_prop := flag_prevent_aof_prop old, flag_prevent_repl_prop := flag_prevent_repl_prop old\<rparr>)"

definition also_stage :: "redisServer \<Rightarrow> call_flags \<Rightarrow> redisOp list \<Rightarrow> redisServer" where
  "also_stage s fl prev =
     (let s = (if cf_aof fl \<or> cf_repl fl then also_propagate_loop s fl (also_propagate s) else s)
      in s\<lparr>also_propagate := prev, stat_numcommands := stat_numcommands s + 1\<rparr>)"

definition lua_flags :: "redisServer \<Rightarrow> nat \<Rightarrow> call_flags \<Rightarrow> call_flags" where
  "lua_flags s c fl = (if loading (env s) \<and> flag_lua (clients s c) then fl\<lparr>cf_slowlog := False, cf_stats := False\<rparr> else fl)"

lemma call_after_stages:
  "call_after s c fl old d prev =
     also_stage (restore_stage (call_propagate (log_stage (lua_stage s c) (clients s c) (lua_flags s c fl)) c
       (lua_flags s c fl) (dirty s - d > 0)) c old) (lua_flags s c fl) prev"
  unfolding call_after_def Let_def also_stage_def restore_stage_def log_stage_def lua_stage_def lua_flags_def
  by (rule refl)

lemma stage_frames [simp]:
  "dbs (lua_stage s c) = dbs s" "env (lua_stage s c) = env s" "client_list (lua_stage s c) = client_list s"
  "noprop (clients (lua_stage s c) c') = noprop (clients s c')" "proj (lua_stage s c) = lua_stage (proj s) c"
  "dbs (log_stage s cl fl) = dbs s" "env (log_stage s cl fl) = env s" "client_list (log_stage s cl fl) = client_list s"
  "clients (log_stage s cl fl) = clients s" "proj (log_stage s cl fl) = log_stage (proj s) (client_view cl) fl"
  "dbs (restore_stage s c old) = dbs s" "env (restore_stage s c old) = env s"
  "client_list (restore_stage s c old) = client_list s"
  "noprop (clients (restore_stage s c old) c') = noprop (clients s c')"
  "proj (restore_stage s c old) = restore_stage (proj s) c (client_view old)"
  "dbs (also_stage s fl prev) = dbs s" "env (also_stage s fl prev) = env s"
  "client_list (also_stage s fl prev) = client_list s"
  "clients (also_stage s fl prev) = clients s" "proj (also_stage s fl prev) = also_stage (proj s) fl prev"
  "lua_flags (proj s) c fl = lua_flags s c fl"
  by (simp_all add: lua_stage_def log_stage_def restore_stage_def also_stage_def lua_flags_def Let_def noprop_def
      clear_prop_flags_def proj_upd split: option.split)

lemma call_after_frame:
  "dbs (call_after s c fl old d prev) = dbs s" "env (call_after s c fl old d prev) = env s"
  "client_list (call_after s c fl old d prev) = client_list s"
  "noprop (clients (call_after s c fl old d prev) c') = noprop (clients s c')"
  "proj (call_after s c fl old d prev) = call_after (proj s) c fl (client_view old) d prev"
  by (simp_all add: call_after_stages)

lemma call_before_frame:
  "dbs (call_before s c) = dbs s" "env (call_before s c) = env s" "client_list (call_before s c) = client_list s"
  "noprop (clients (call_before s c) c') = noprop (clients s c')" "proj (call_before s c) = call_before (proj s) c"
  by (simp_all add: call_before_def Let_def noprop_def clear_prop_flags_def proj_upd)

lemma exec_multi_frame:
  "dbs (execCommandPropagateMulti s c) = dbs s" "env (execCommandPropagateMulti s c) = env s"
  "client_list (execCommandPropagateMulti s c) = client_list s" "clients (execCommandPropagateMulti s c) = clients s"
  "proj (execCommandPropagateMulti s c) = execCommandPropagateMulti (proj s) c"
  by (simp_all add: execCommandPropagateMulti_def)

lemma handle_monitor_frame:
  "dbs (handle_monitor s c) = dbs s" "env (handle_monitor s c) = env s" "client_list (handle_monitor s c) = client_list s"
  "clients (handle_monitor s c) = clients s" "proj (handle_monitor s c) = handle_monitor (proj s) c"
  by (simp_all add: handle_monitor_def)

section \<open>Calling a command\<close>

lemma noprop_fields:
  assumes "noprop cl = noprop cl'"
  shows "c_db cl = c_db cl'" "w_keys cl = w_keys cl'" "argv cl = argv cl'" "c_cmd cl = c_cmd cl'"
    "flag_multi cl = flag_multi cl'" "mstate cl = mstate cl'" "flag_dirty_cas cl = flag_dirty_cas cl'"
    "flag_dirty_exec cl = flag_dirty_exec cl'" "buf cl = buf cl'"
  using assms by (cases cl; cases cl'; auto simp: noprop_def clear_prop_flags_def)+

lemma table_ok_env:
  assumes "v_env w = v_env v"
  shows "table_ok w = table_ok v"
  unfolding table_ok_def v_lookup_def assms ..

lemma lift_keeps:
  assumes "\<And>c. noprop (clients (f (v_srv v)) c) = noprop (clients (v_srv v) c)"
    "client_list (f (v_srv v)) = client_list (v_srv v)" "env (f (v_srv v)) = v_env v"
  shows "vok (v_lift f v) = vok v" "watch_ok (v_lift f v) = watch_ok v" "room (v_lift f v) n = room v n"
    "vfin (v_lift f v) = vfin v" "wfin (v_lift f v) = wfin v" "table_ok (v_lift f v) = table_ok v"
    "v_args (v_lift f v) c = v_args v c" "v_db (v_lift f v) c = v_db v c" "c_cmd (v_fix (v_lift f v) c) = c_cmd (v_fix v c)"
    "mstate (v_fix (v_lift f v) c) = mstate (v_fix v c)"
proof -
  note fields = noprop_fields [OF assms(1)]
  have fix_fields: "v_db (v_lift f v) c = v_db v c" "w_keys (v_fix (v_lift f v) c) = w_keys (v_fix v c)"
    "v_args (v_lift f v) c = v_args v c" "c_cmd (v_fix (v_lift f v) c) = c_cmd (v_fix v c)"
    "mstate (v_fix (v_lift f v) c) = mstate (v_fix v c)" for c
    using fields [of c] by (simp_all add: v_fix_def cfix_fields del: v_db_clients)
  show "vok (v_lift f v) = vok v" by (rule vok_cong) (simp_all add: fix_fields)
  show "watch_ok (v_lift f v) = watch_ok v" by (rule watch_ok_cong) (simp_all add: fix_fields assms(2))
  show "room (v_lift f v) n = room v n" by (simp add: room_def v_fits_def v_wfits_def)
  show "vfin (v_lift f v) = vfin v" "wfin (v_lift f v) = wfin v" by (simp_all add: vfin_def wfin_def)
  show "table_ok (v_lift f v) = table_ok v" by (rule table_ok_env) (simp add: assms(3))
  show "v_args (v_lift f v) c = v_args v c" "v_db (v_lift f v) c = v_db v c"
    "c_cmd (v_fix (v_lift f v) c) = c_cmd (v_fix v c)" "mstate (v_fix (v_lift f v) c) = mstate (v_fix v c)" by (fact fix_fields)+
qed

abbreviation v_before :: "view \<Rightarrow> nat \<Rightarrow> view" where
  "v_before v c \<equiv> v_lift (\<lambda>s. call_before s c) v"

definition v_after :: "view \<Rightarrow> nat \<Rightarrow> call_flags \<Rightarrow> view \<Rightarrow> view" where
  "v_after v c fl = v_lift (\<lambda>s. call_after s c fl (clients (v_srv v) c) (dirty (v_srv v)) (also_propagate (v_srv v)))"

lemmas before_keeps = lift_keeps [of "\<lambda>s. call_before s c" v for c v, OF call_before_frame(4) call_before_frame(3) call_before_frame(2)]

lemma after_keeps:
  "vok (v_after v c fl w) = vok w" "watch_ok (v_after v c fl w) = watch_ok w" "room (v_after v c fl w) n = room w n"
  "vfin (v_after v c fl w) = vfin w" "wfin (v_after v c fl w) = wfin w" "table_ok (v_after v c fl w) = table_ok w"
  "v_args (v_after v c fl w) c' = v_args w c'" "v_db (v_after v c fl w) c' = v_db w c'"
  "c_cmd (v_fix (v_after v c fl w) c') = c_cmd (v_fix w c')" "mstate (v_fix (v_after v c fl w) c') = mstate (v_fix w c')"
  unfolding v_after_def by (rule lift_keeps; simp add: call_after_frame)+

lemma v_after_simps [simp]:
  "v_n (v_after v c fl w) = v_n w" "v_kv (v_after v c fl w) = v_kv w" "v_ttl (v_after v c fl w) = v_ttl w"
  "v_wk (v_after v c fl w) = v_wk w" "v_env (v_after v c fl w) = v_env w"
  "client_list (v_srv (v_after v c fl w)) = client_list (v_srv w)"
  by (simp_all add: v_after_def call_after_frame)

lemma rep_before: "rep s v \<Longrightarrow> rep (call_before s c) (v_before v c)"
  by (rule rep_lift) (simp_all add: call_before_frame)

lemma rep_after:
  assumes "rep s v" "rep t w"
  shows "rep (call_after t c fl (clients s c) (dirty s) (also_propagate s)) (v_after v c fl w)"
proof -
  have v: "v_srv v = proj s" using rep_srv_of [OF assms(1)] by (simp add: proj_def)
  have idem: "client_view (client_view cl) = client_view cl" for cl by (rule client_view_idem)
  have old: "call_after t c fl (client_view (clients s c)) d prev = call_after t c fl (clients s c) d prev" for t d prev
    by (simp add: call_after_stages restore_stage_def)
  have "rep (call_after t c fl (client_view (clients s c)) (dirty s) (also_propagate s)) (v_after v c fl w)"
    unfolding v_after_def v proj_simps
    by (rule rep_lift [OF assms(2)]) (simp_all add: call_after_frame idem)
  then show ?thesis by (simp add: old)
qed

definition v_call_with :: "(command_proc \<Rightarrow> view \<Rightarrow> nat \<Rightarrow> view option) \<Rightarrow> view \<Rightarrow> nat \<Rightarrow> call_flags \<Rightarrow> view option" where
  "v_call_with run v c fl = map_option (v_after v c fl) (run (cmd_proc (c_cmd (v_fix v c))) (v_before v c) c)"

lemma call_with_ref:
  assumes "rep s v" "v_call_with run' v c fl = Some w"
    and "\<And>s' w'. rep s' (v_before v c) \<Longrightarrow> run' (cmd_proc (c_cmd (v_fix v c))) (v_before v c) c = Some w' \<Longrightarrow>
           wp (run (cmd_proc (c_cmd (v_fix v c))) s' c) (\<lambda>t. rep t w')"
  shows "wp (call_with run s c fl) (\<lambda>s'. rep s' w)"
proof -
  obtain w' where w': "run' (cmd_proc (c_cmd (v_fix v c))) (v_before v c) c = Some w'" "w = v_after v c fl w'"
    using assms(2) by (auto simp: v_call_with_def)
  then have "wp (run (cmd_proc (c_cmd (v_fix v c))) (call_before s c) c) (\<lambda>t. rep t w')"
    using assms(3) rep_before [OF assms(1)] by blast
  then show ?thesis
    unfolding call_with_before rep_fix(3) [OF assms(1)] w'(2)
    by (intro wp_map) (auto elim!: wp_mono intro: rep_after [OF assms(1)])
qed

definition v_run :: "command_proc \<Rightarrow> view \<Rightarrow> nat \<Rightarrow> view option" where
  "v_run p v c = v_basic p v c (tl (v_args v c))"

text \<open>What a call of a command relies on.\<close>

definition call_ok :: "command_proc \<Rightarrow> sds list \<Rightarrow> bool" where
  "call_ok p args \<longleftrightarrow> args \<noteq> [] \<and> args_ok (tl args) \<and> offset_ok p (tl args)"

definition vinv :: "view \<Rightarrow> nat \<Rightarrow> bool" where
  "vinv v c \<longleftrightarrow> vok v \<and> watch_ok v \<and> table_ok v \<and> c \<in> set (client_list (v_srv v))"

lemma room_le: "room v n \<Longrightarrow> m \<le> n \<Longrightarrow> room v m"
  unfolding room_def v_fits_def v_wfits_def by (meson add_left_mono order.strict_trans1)

lemma basic_call_ref:
  assumes "rep s v" "vinv v c" "call_ok (cmd_proc (c_cmd (v_fix v c))) (v_args v c)" "room v (length (v_args v c))"
    "v_call_with v_run v c fl = Some w"
  shows "wp (call_with (basic_proc procs) s c fl) (\<lambda>s'. rep s' w)"
proof (rule call_with_ref [OF assms(1,5)])
  let ?p = "cmd_proc (c_cmd (v_fix v c))"
  fix s' w' assume s': "rep s' (v_before v c)" "v_run ?p (v_before v c) c = Some w'"
  obtain a0 args where a: "v_args v c = a0 # args" using assms(3) by (cases "v_args v c") (auto simp: call_ok_def)
  have "room v (length args)" using assms(4) a by (auto elim: room_le)
  then show "wp (basic_proc procs ?p s' c) (\<lambda>t. rep t w')"
    using s' assms(2,3) a
    by (intro basic_proc_ref [OF s'(1), where ?a0.0 = a0 and args = args])
      (simp_all add: before_keeps vinv_def call_ok_def v_run_def)
qed

lemma basic_call_keeps:
  assumes "vinv v c" "args_ok (tl (v_args v c))" "v_call_with v_run v c fl = Some w"
  shows "vinv w c" "v_n w = v_n v" "v_env w = v_env v" "client_list (v_srv w) = client_list (v_srv v)"
    "vfin v \<Longrightarrow> wfin v \<Longrightarrow> room v (n + length (tl (v_args v c))) \<Longrightarrow> room w n"
proof -
  let ?p = "cmd_proc (c_cmd (v_fix v c))" and ?v = "v_before v c" and ?args = "tl (v_args v c)"
  obtain w' where w': "v_basic ?p ?v c ?args = Some w'" "w = v_after v c fl w'"
    using assms(3) by (auto simp: v_call_with_def v_run_def before_keeps)
  have v: "vok ?v" "watch_ok ?v" "table_ok ?v" "c \<in> set (client_list (v_srv ?v))"
    using assms(1) by (simp_all add: vinv_def before_keeps call_before_frame)
  note frame = basic_frame [OF v(1) assms(2) w'(1)] and keeps = basic_keeps [OF v(1,2) assms(2) v(4) w'(1)]
  show "v_n w = v_n v" "v_env w = v_env v" "client_list (v_srv w) = client_list (v_srv v)"
    using frame w'(2) by (simp_all add: call_before_frame)
  have "table_ok w'" using v(3) table_ok_env [OF frame(2)] by simp
  then show "vinv w c" using keeps v(4) frame(3) w'(2) by (simp add: vinv_def after_keeps)
  show "room w n" if "vfin v" "wfin v" "room v (n + length ?args)"
    using basic_room [OF v(1) assms(2) w'(1)] that w'(2) by (simp add: before_keeps after_keeps)
qed

section \<open>The commands that are modelled\<close>

text \<open>The number of arguments, after its name, that a command reads; \<open>None\<close> for the commands that are not modelled.\<close>

definition needs :: "command_proc \<Rightarrow> nat option" where
  "needs p =
     (case p of
        P_get \<Rightarrow> Some 1 | P_set \<Rightarrow> Some 2 | P_setnx \<Rightarrow> Some 2 | P_setex \<Rightarrow> Some 3 | P_psetex \<Rightarrow> Some 3 | P_getset \<Rightarrow> Some 2
      | P_append \<Rightarrow> Some 2 | P_strlen \<Rightarrow> Some 1 | P_setrange \<Rightarrow> Some 3 | P_getrange \<Rightarrow> Some 3 | P_mget \<Rightarrow> Some 0
      | P_mset \<Rightarrow> Some 0 | P_msetnx \<Rightarrow> Some 0 | P_incr \<Rightarrow> Some 1 | P_decr \<Rightarrow> Some 1 | P_incrby \<Rightarrow> Some 2
      | P_decrby \<Rightarrow> Some 2 | P_del \<Rightarrow> Some 0 | P_unlink \<Rightarrow> Some 0 | P_exists \<Rightarrow> Some 0 | P_touch \<Rightarrow> Some 0
      | P_type \<Rightarrow> Some 1 | P_select \<Rightarrow> Some 1 | P_dbsize \<Rightarrow> Some 0 | P_rename \<Rightarrow> Some 2 | P_renamenx \<Rightarrow> Some 2
      | P_move \<Rightarrow> Some 2 | P_swapdb \<Rightarrow> Some 2 | P_flushdb \<Rightarrow> Some 0 | P_flushall \<Rightarrow> Some 0 | P_expire \<Rightarrow> Some 2
      | P_expireat \<Rightarrow> Some 2 | P_pexpire \<Rightarrow> Some 2 | P_pexpireat \<Rightarrow> Some 2 | P_ttl \<Rightarrow> Some 1 | P_pttl \<Rightarrow> Some 1
      | P_persist \<Rightarrow> Some 1 | P_multi \<Rightarrow> Some 0 | P_discard \<Rightarrow> Some 0 | P_watch \<Rightarrow> Some 0 | P_unwatch \<Rightarrow> Some 0
      | _ \<Rightarrow> None)"

definition modelled :: "command_proc \<Rightarrow> sds list \<Rightarrow> bool" where
  "modelled p args \<longleftrightarrow> (case needs p of None \<Rightarrow> False | Some n \<Rightarrow> n \<le> length args)"

lemma with_defined:
  "with1 args f \<noteq> None \<longleftrightarrow> 1 \<le> length args" "with2 args g \<noteq> None \<longleftrightarrow> 2 \<le> length args"
  "with3 args h \<noteq> None \<longleftrightarrow> 3 \<le> length args"
  by (auto simp: with1_def with2_def with3_def neq_Nil_conv split: list.split)

lemma v_basic_defined: "(\<exists>w. v_basic p v c args = Some w) \<longleftrightarrow> modelled p args"
  using with_defined by (cases p) (simp_all add: v_basic_def modelled_def needs_def)

section \<open>EXEC\<close>

fun v_exec_loop :: "view \<Rightarrow> nat \<Rightarrow> (redisCommand \<times> sds list) list \<Rightarrow> bool \<Rightarrow> (view \<times> bool) option" where
  "v_exec_loop v c [] must_propagate = Some (v, must_propagate)"
| "v_exec_loop v c ((cmd, args) # q) must_propagate =
     (let start = (\<not> must_propagate \<and> \<not> (cmd_readonly cmd \<or> cmd_admin cmd));
          v = v_client v c (\<lambda>cl. cl\<lparr>argv := args, c_cmd := cmd\<rparr>);
          v = (if start then v_lift (\<lambda>s. execCommandPropagateMulti s c) v else v)
      in case v_call_with v_run v c CMD_CALL_FULL of
           None \<Rightarrow> None
         | Some w \<Rightarrow> v_exec_loop w c q (must_propagate \<or> start))"

definition queue_ok :: "(redisCommand \<times> sds list) list \<Rightarrow> bool" where
  "queue_ok q \<longleftrightarrow> length q < 2 ^ 31 \<and> (\<forall>(cmd, args) \<in> set q. call_ok (cmd_proc cmd) args \<and> modelled (cmd_proc cmd) (tl args))"

definition qsize :: "(redisCommand \<times> sds list) list \<Rightarrow> nat" where
  "qsize q = sum_list (map (\<lambda>(cmd, args). length args) q)"

lemma rep_argv:
  assumes "rep s v"
  shows "rep (upd_client s c (\<lambda>cl. cl\<lparr>argv := a, c_cmd := m\<rparr>)) (v_client v c (\<lambda>cl. cl\<lparr>argv := a, c_cmd := m\<rparr>))"
  using rep_client [OF assms, of c] by (intro rep_upd_client [OF assms]) auto

lemma argv_keeps:
  fixes v c a m
  defines "w \<equiv> v_client v c (\<lambda>cl. cl\<lparr>argv := a, c_cmd := m\<rparr>)"
  shows "vinv w c' = vinv v c'" "room w n = room v n" "v_args w c = a" "c_cmd (v_fix w c) = m"
proof -
  have "vok w = vok v" "watch_ok w = watch_ok v" unfolding w_def by (rule client_keeps; simp)+
  moreover have "table_ok w = table_ok v" by (rule table_ok_env) (simp add: w_def)
  ultimately show "vinv w c' = vinv v c'" by (simp add: vinv_def w_def)
  show "room w n = room v n" by (simp add: w_def room_def v_fits_def v_wfits_def)
  show "v_args w c = a" "c_cmd (v_fix w c) = m" by (simp_all add: w_def v_fix_client cfix_fields)
qed

lemma multi_keeps:
  fixes v c
  defines "w \<equiv> v_lift (\<lambda>s. execCommandPropagateMulti s c) v"
  shows "vinv w c' = vinv v c'" "room w n = room v n" "v_args w c' = v_args v c'" "c_cmd (v_fix w c') = c_cmd (v_fix v c')"
  unfolding w_def
  using lift_keeps [of "\<lambda>s. execCommandPropagateMulti s c" v] by (simp_all add: exec_multi_frame vinv_def)

lemma exec_loop_ref:
  assumes "rep s v" "vinv v c" "queue_ok q" "room v (qsize q)"
  shows "\<exists>w b. v_exec_loop v c q mp = Some (w, b) \<and> vinv w c \<and> v_env w = v_env v \<and>
     wp (exec_loop procs s c q mp) (\<lambda>(s', b'). rep s' w \<and> b' = b)"
  using assms
proof (induction q arbitrary: s v mp)
  case (Cons x q)
  obtain cmd args where x: "x = (cmd, args)" by (cases x)
  define start where "start \<longleftrightarrow> \<not> mp \<and> \<not> (cmd_readonly cmd \<or> cmd_admin cmd)"
  define v1 where "v1 = v_client v c (\<lambda>cl. cl\<lparr>argv := args, c_cmd := cmd\<rparr>)"
  define v2 where "v2 = (if start then v_lift (\<lambda>s. execCommandPropagateMulti s c) v1 else v1)"
  define s1 where "s1 = upd_client s c (\<lambda>cl. cl\<lparr>argv := args, c_cmd := cmd\<rparr>)"
  define s2 where "s2 = (if start then execCommandPropagateMulti s1 c else s1)"
  have r1: "rep s1 v1" unfolding s1_def v1_def by (rule rep_argv [OF Cons.prems(1)])
  have r2: "rep s2 v2" unfolding s2_def v2_def using r1 rep_lift [OF r1, of "\<lambda>s. execCommandPropagateMulti s c"]
    by (simp add: exec_multi_frame)
  have inv: "vinv v2 c" "room v2 n = room v n" "v_args v2 c = args" "c_cmd (v_fix v2 c) = cmd" for n
    using Cons.prems(2) by (simp_all add: v2_def v1_def multi_keeps argv_keeps)
  have q: "call_ok (cmd_proc cmd) args" "modelled (cmd_proc cmd) (tl args)" "queue_ok q"
    using Cons.prems(3) x by (auto simp: queue_ok_def)
  obtain w where w: "v_call_with v_run v2 c CMD_CALL_FULL = Some w"
    using q(2) v_basic_defined [of "cmd_proc cmd" "v_before v2 c" c "tl args"] inv
    by (auto simp: v_call_with_def v_run_def before_keeps)
  have sz: "room v2 (length args + qsize q)" using Cons.prems(4) x by (simp add: inv qsize_def)
  have call: "wp (call_with (basic_proc procs) s2 c CMD_CALL_FULL) (\<lambda>s'. rep s' w)"
    using basic_call_ref [OF r2 inv(1) _ _ w] q(1) inv room_le [OF sz] by simp
  then obtain s' where s': "call_with (basic_proc procs) s2 c CMD_CALL_FULL = Some s'" "rep s' w" by (auto simp: wp_def)
  have "args_ok (tl (v_args v2 c))" using q(1) inv by (simp add: call_ok_def)
  note keeps = basic_call_keeps [OF inv(1) this w]
  have "room w (qsize q)"
    using keeps(5) [OF rep_vfin [OF r2] rep_wfin [OF r2], of "qsize q"] room_le [OF sz, of "qsize q + length (tl args)"] inv by simp
  note IH = Cons.IH [OF s'(2) keeps(1) q(3) this, of "mp \<or> start"]
  have "v_exec_loop v c (x # q) mp = v_exec_loop w c q (mp \<or> start)"
    unfolding x v_exec_loop.simps Let_def start_def [symmetric] v1_def [symmetric] v2_def [symmetric] w by simp
  moreover have "exec_loop procs s c (x # q) mp = exec_loop procs s' c q (mp \<or> start)"
    unfolding x exec_loop.simps Let_def start_def [symmetric] s1_def [symmetric] s2_def [symmetric] s'(1) by simp
  moreover have "v_env w = v_env v" using keeps(3) by (simp add: v2_def v1_def exec_multi_frame)
  ultimately show ?case using IH by simp
qed simp

definition v_exec :: "view \<Rightarrow> nat \<Rightarrow> view option" where
  "v_exec v c =
     (if \<not> flag_multi (v_fix v c) then Some (v_put v c (err ''EXEC without MULTI''))
      else if flag_dirty_cas (clients (v_srv v) c) \<or> flag_dirty_exec (v_fix v c) then
        Some (v_lift (\<lambda>s. handle_monitor s c)
          (v_discardT (v_put v c (if flag_dirty_exec (v_fix v c) then shared_execaborterr else shared_nullmultibulk)) c))
      else
        let q = mstate (v_fix v c) in
        case v_exec_loop (v_put (v_unwatchAll v c) c (multibulk_len (length q))) c q False of
          None \<Rightarrow> None
        | Some (w, must_propagate) \<Rightarrow>
            let w = v_discardT (v_client w c (\<lambda>cl. cl\<lparr>argv := v_args v c, c_cmd := c_cmd (v_fix v c)\<rparr>)) c;
                w = (if must_propagate then v_dirty w 1 else w)
            in Some (v_lift (\<lambda>s. handle_monitor s c) w))"

lemma discardT_keeps:
  assumes "vinv v c'"
  shows "vinv (v_discardT v c) c'"
proof -
  have "table_ok (v_discardT v c) = table_ok v" by (rule table_ok_env) (simp add: v_discardT_def v_dropq_def)
  then show ?thesis
    using assms by (simp add: vinv_def v_discardT_def dropq_keeps vok_unwatch unwatch_keeps) (simp add: v_dropq_def)
qed

lemma vinv_simps [simp]:
  "vinv (v_put v c b) c' = vinv v c'" "vinv (v_dirty v n) c' = vinv v c'"
  "vinv (v_lift (\<lambda>s. handle_monitor s c) v) c' = vinv v c'"
proof -
  have t: "table_ok (v_put v c b) = table_ok v" "table_ok (v_dirty v n) = table_ok v" by (rule table_ok_env; simp)+
  then show "vinv (v_put v c b) c' = vinv v c'" by (simp add: vinv_def)
  have "vok (v_dirty v n) = vok v" "watch_ok (v_dirty v n) = watch_ok v" by (rule vok_cong watch_ok_cong; simp)+
  then show "vinv (v_dirty v n) c' = vinv v c'" using t by (simp add: vinv_def)
  show "vinv (v_lift (\<lambda>s. handle_monitor s c) v) c' = vinv v c'"
    using lift_keeps [of "\<lambda>s. handle_monitor s c" v] by (simp add: vinv_def handle_monitor_frame)
qed

lemma vinv_unwatch: "vinv v c' \<Longrightarrow> vinv (v_unwatchAll v c) c'"
  using table_ok_env [of "v_unwatchAll v c" v] by (simp add: vinv_def vok_unwatch unwatch_keeps)

lemma rep_monitor: "rep s v \<Longrightarrow> rep (handle_monitor s c) (v_lift (\<lambda>s. handle_monitor s c) v)"
  by (rule rep_lift) (simp_all add: handle_monitor_frame)

lemma fix_unwatch: "v_args (v_unwatch_keys v c wks) c' = v_args v c'" "c_cmd (v_fix (v_unwatch_keys v c wks) c') = c_cmd (v_fix v c')"
  "mstate (v_fix (v_unwatch_keys v c wks) c') = mstate (v_fix v c')"
  by (simp_all add: v_unwatch_keys_def v_fix_def cfix_fields del: v_db_clients)

lemma room_unwatch:
  assumes "wfin v" "room v n"
  shows "room (v_unwatch_keys v c wks) n"
proof -
  have "v_wfits (v_unwatch_keys v c wks) i n" if "i < v_n v" for i
  proof -
    have "card (dom (v_wk (v_unwatch_keys v c wks) i)) \<le> card (dom (v_wk v i))"
      using assms(1) that unwatch_dom by (intro card_mono) (auto simp: wfin_def)
    then show ?thesis using assms(2) that unfolding room_def v_wfits_def by (meson add_right_mono order.strict_trans1)
  qed
  then show ?thesis using assms(2) by (simp add: room_def v_fits_def)
qed

theorem execCommand_ref:
  assumes "rep s v" "vinv v c" "queue_ok (mstate (v_fix v c))" "room v (qsize (mstate (v_fix v c)))"
  shows "\<exists>w. v_exec v c = Some w \<and> vinv w c \<and> wp (execCommand procs s c) (\<lambda>s'. rep s' w)"
proof -
  have ok: "vok v" "watch_ok v" using assms(2) by (simp_all add: vinv_def)
  consider "\<not> flag_multi (v_fix v c)"
    | "flag_multi (v_fix v c)" "flag_dirty_cas (clients (v_srv v) c) \<or> flag_dirty_exec (v_fix v c)"
    | "flag_multi (v_fix v c)" "\<not> (flag_dirty_cas (clients (v_srv v) c) \<or> flag_dirty_exec (v_fix v c))" by blast
  then show ?thesis
  proof cases
    case 1
    then show ?thesis using assms by (simp add: v_exec_def execCommand_def rep_simps reply_error_ref)
  next
    case 2
    let ?b = "if flag_dirty_exec (v_fix v c) then shared_execaborterr else shared_nullmultibulk"
    have "wp (execCommand procs s c) (\<lambda>s'. rep s' (v_lift (\<lambda>s. handle_monitor s c) (v_discardT (v_put v c ?b) c)))"
      unfolding execCommand_def using 2 assms(1) ok
      by (auto simp: rep_simps Let_def intro!: wp_bind reply_shared_spec [OF assms(1)] rep_monitor
          elim!: wp_mono [OF discardTransaction_ref])
    then show ?thesis using 2 assms(2) by (simp add: v_exec_def discardT_keeps)
  next
    case 3
    let ?q = "mstate (v_fix v c)" and ?v = "v_put (v_unwatchAll v c) c (multibulk_len (length (mstate (v_fix v c))))"
    obtain s1 where s1: "unwatchAllKeys s c = Some s1" "rep s1 (v_unwatchAll v c)"
      using unwatchAllKeys_ref [OF assms(1) ok] by (auto simp: wp_def)
    have "int (length ?q) < 2 ^ 63" using assms(3) by (simp add: queue_ok_def)
    then obtain s2 where s2: "reply_multibulk_len s1 c (int (length ?q)) = Some s2" "rep s2 ?v"
      using reply_multibulk_len_spec [OF s1(2), where Q = "\<lambda>s'. rep s' ?v"] by (auto simp: wp_def)
    have inv: "vinv ?v c" "room ?v (qsize ?q)"
      using assms(2) vinv_unwatch room_unwatch [OF rep_wfin [OF assms(1)] assms(4)]
      by (simp_all add: room_def v_fits_def v_wfits_def)
    obtain w b where w: "v_exec_loop ?v c ?q False = Some (w, b)" "vinv w c" "v_env w = v_env v"
        "wp (exec_loop procs s2 c ?q False) (\<lambda>(s', b'). rep s' w \<and> b' = b)"
      using exec_loop_ref [OF s2(2) inv(1) assms(3) inv(2), of False procs] by auto
    then obtain s3 where s3: "exec_loop procs s2 c ?q False = Some (s3, b)" "rep s3 w" by (auto simp: wp_def)
    let ?w1 = "v_client w c (\<lambda>cl. cl\<lparr>argv := v_args v c, c_cmd := c_cmd (v_fix v c)\<rparr>)"
    let ?s3 = "upd_client s3 c (\<lambda>cl. cl\<lparr>argv := v_args v c, c_cmd := c_cmd (v_fix v c)\<rparr>)"
    have w1: "vinv ?w1 c" using w(2) by (simp add: argv_keeps)
    obtain s4 where s4: "discardTransaction ?s3 c = Some s4" "rep s4 (v_discardT ?w1 c)"
      using discardTransaction_ref [OF rep_argv [OF s3(2)], of c _ _ c] w1 by (auto simp: wp_def vinv_def)
    have m: "masterhost (env s4) = masterhost (v_env v)"
      using rep_env [OF s4(2)] w(3) by (simp add: v_discardT_def v_dropq_def)
    have cl: "argv (clients s1 c) = v_args v c" "c_cmd (clients s1 c) = c_cmd (v_fix v c)" "mstate (clients s1 c) = ?q"
      using rep_fix [OF s1(2), of c] by (simp_all add: fix_unwatch)
    have x: "execCommand procs s c = Some (handle_monitor (if b then dirty_add s4 1 else s4) c)"
      using 3 assms(1) s1(1) s2(1) s3(1) s4(1) m
      by (simp add: execCommand_def rep_simps cl Let_def)
    have "rep (if b then dirty_add s4 1 else s4) (if b then v_dirty (v_discardT ?w1 c) 1 else v_discardT ?w1 c)"
      using s4(2) by auto
    then show ?thesis using 3 w(1) discardT_keeps [OF w1] rep_monitor by (auto simp: v_exec_def Let_def x)
  qed
qed

end
