(* ===== verification/Process_Correct.thy ===== *)
theory Process_Correct
  imports Call_Correct
begin

text \<open>
  \<open>processCommand\<close> over the views: from the arguments of a client to the reply, with the errors, the
  queue of a transaction and the execution.
\<close>

section \<open>The effect of \<open>processCommand\<close>\<close>

definition v_proc :: "command_proc \<Rightarrow> view \<Rightarrow> nat \<Rightarrow> view option" where
  "v_proc p v c = (if p = P_exec then v_exec v c else v_run p v c)"

definition v_flagT :: "view \<Rightarrow> nat \<Rightarrow> view" where
  "v_flagT v c = (if flag_multi (v_fix v c) then v_client v c (\<lambda>cl. cl\<lparr>flag_dirty_exec := True\<rparr>) else v)"

definition v_queue :: "view \<Rightarrow> nat \<Rightarrow> view" where
  "v_queue v c = v_client v c (\<lambda>cl. cl\<lparr>mstate := mstate cl @ [(c_cmd cl, argv cl)]\<rparr>)"

definition refusal_bytes :: "refusal \<Rightarrow> byte list" where
  "refusal_bytes r = (case r of Refuse_addReply b \<Rightarrow> b | Refuse_addReplySds b \<Rightarrow> b | Refuse_addReplyError e \<Rightarrow> err e)"

definition error_format :: "byte list \<Rightarrow> byte list" where
  "error_format msg = bs ''-ERR '' @ no_newlines msg @ crlf"

definition bad_arity :: "redisCommand \<Rightarrow> sds list \<Rightarrow> bool" where
  "bad_arity cmd args \<longleftrightarrow>
     (cmd_arity cmd > 0 \<and> cmd_arity cmd \<noteq> int (length args)) \<or> int (length args) < - cmd_arity cmd"

definition queues :: "command_proc \<Rightarrow> bool" where
  "queues p \<longleftrightarrow> p \<noteq> P_exec \<and> p \<noteq> P_discard \<and> p \<noteq> P_multi \<and> p \<noteq> P_watch"

text \<open>The part from the lookup of the command on; \<open>v\<close> has the command already.\<close>

definition v_known :: "view \<Rightarrow> nat \<Rightarrow> redisCommand \<Rightarrow> (view \<times> bool) option" where
  "v_known v c cmd =
     (if bad_arity cmd (v_args v c) then Some (v_put (v_flagT v c) c (error_format (wrong_arity cmd)), True)
      else if requirepass (v_env v) \<and> \<not> authenticated (v_fix v c) \<and> cmd_proc cmd \<noteq> P_auth
      then Some (v_put (v_flagT v c) c shared_noautherr, True)
      else if redirects (v_srv v) c cmd \<or> maxmemory (v_env v) \<noteq> 0 then None
      else
        case refuse (v_srv v) c cmd of
          Some (r, flag) \<Rightarrow> Some (v_put (if flag then v_flagT v c else v) c (refusal_bytes r), True)
        | None \<Rightarrow>
            if flag_multi (v_fix v c) \<and> queues (cmd_proc cmd) then Some (v_put (v_queue v c) c shared_queued, True)
            else map_option (\<lambda>w. (v_call w HandleReadyLists, True)) (v_call_with v_proc v c CMD_CALL_FULL))"

definition v_process :: "view \<Rightarrow> nat \<Rightarrow> (view \<times> bool) option" where
  "v_process v c =
     (case v_args v c of
        [] \<Rightarrow> None
      | a0 # _ \<Rightarrow>
          if strcasecmp a0 (bs ''quit'') = 0
          then Some (v_client (v_put v c shared_ok) c (\<lambda>cl. cl\<lparr>flag_close_after_reply := True\<rparr>), False)
          else
            case commands (v_env v) a0 of
              None \<Rightarrow> Some (v_put (v_flagT v c) c (error_format (unknown_command a0)), True)
            | Some cmd \<Rightarrow> v_known (v_client v c (\<lambda>cl. cl\<lparr>c_cmd := cmd, c_lastcmd := cmd\<rparr>)) c cmd)"

definition known ::
  "(command_proc \<Rightarrow> redisServer \<Rightarrow> nat \<Rightarrow> redisServer option) \<Rightarrow> redisServer \<Rightarrow> nat \<Rightarrow> redisCommand \<Rightarrow> (redisServer \<times> bool) option" where
  "known procs s c cmd =
     (if bad_arity cmd (argv (clients s c))
      then map_option (\<lambda>s. (s, True)) (reply_error_format (flagTransaction s c) c (wrong_arity cmd))
      else if requirepass (env s) \<and> \<not> authenticated (clients s c) \<and> cmd_proc cmd \<noteq> P_auth
      then map_option (\<lambda>s. (s, True)) (reply_shared (flagTransaction s c) c shared_noautherr)
      else if redirects s c cmd \<or> maxmemory (env s) \<noteq> 0 then None
      else
        case refuse s c cmd of
          Some (r, flag) \<Rightarrow> map_option (\<lambda>s. (s, True)) (send_refusal (if flag then flagTransaction s c else s) c r)
        | None \<Rightarrow>
            if flag_multi (clients s c) \<and> queues (cmd_proc cmd)
            then map_option (\<lambda>s. (s, True)) (reply_shared (queueMultiCommand s c) c shared_queued)
            else do { s \<leftarrow> call procs s c CMD_CALL_FULL; Some (server_call s HandleReadyLists, True) })"

lemma processCommand_known:
  assumes "arg s c 0 = Some a0" "strcasecmp a0 (bs ''quit'') \<noteq> 0" "lookupCommand s a0 = Some cmd"
  shows "processCommand procs s c = known procs (upd_client s c (\<lambda>cl. cl\<lparr>c_cmd := cmd, c_lastcmd := cmd\<rparr>)) c cmd"
  using assms by (simp add: processCommand_def known_def bad_arity_def queues_def Let_def) blast

lemma rep_flagT: "rep s v \<Longrightarrow> rep (flagTransaction s c) (v_flagT v c)"
  using rep_client [of s v c] by (auto simp: flagTransaction_def v_flagT_def rep_simps intro!: rep_upd_client)

lemma rep_queue: "rep s v \<Longrightarrow> rep (queueMultiCommand s c) (v_queue v c)"
  unfolding queueMultiCommand_def v_queue_def
  using rep_client [of s v c] rep_client_fields(2,3,8) [of s v c] by (auto intro!: rep_upd_client)

lemma rep_setcmd:
  "rep s v \<Longrightarrow> rep (upd_client s c (\<lambda>cl. cl\<lparr>c_cmd := cmd, c_lastcmd := cmd\<rparr>))
     (v_client v c (\<lambda>cl. cl\<lparr>c_cmd := cmd, c_lastcmd := cmd\<rparr>))"
  using rep_client [of s v c] by (auto intro!: rep_upd_client)

lemma client_view_close [simp]:
  "client_view (cl\<lparr>flag_close_after_reply := b\<rparr>) = (client_view cl)\<lparr>flag_close_after_reply := b\<rparr>"
  by (simp add: client_view_def)

lemma rep_close:
  "rep s v \<Longrightarrow> rep (upd_client s c (\<lambda>cl. cl\<lparr>flag_close_after_reply := True\<rparr>))
     (v_client v c (\<lambda>cl. cl\<lparr>flag_close_after_reply := True\<rparr>))"
  using rep_client [of s v c] by (auto intro!: rep_upd_client)

lemma refuse_rep: "rep s v \<Longrightarrow> refuse s c cmd = refuse (v_srv v) c cmd"
  unfolding refuse_def aof_error_def Let_def
  by (simp only: rep_env rep_client_fields)

lemma redirects_rep: "rep s v \<Longrightarrow> redirects s c cmd = redirects (v_srv v) c cmd"
  unfolding redirects_def by (cases "lua_caller (v_env v)") (simp_all add: rep_env rep_client_fields)

lemma send_refusal_ref:
  assumes "rep s v"
  shows "wp (send_refusal s c r) (\<lambda>s'. rep s' (v_put v c (refusal_bytes r)))"
proof (cases r)
  case (Refuse_addReplySds b)
  have "wp (with_client s c (\<lambda>cl. Some (addReplySds cl b))) (\<lambda>s'. rep s' (v_put v c b))"
    by (rule with_client_spec [OF assms, where g = "\<lambda>cl. put cl b"])
       (use assms in \<open>simp_all add: addReplySds_view rep_client v_put_def\<close>)
  then show ?thesis using Refuse_addReplySds by (simp add: send_refusal_def refusal_bytes_def)
qed (use assms in \<open>auto simp: send_refusal_def refusal_bytes_def intro!: reply_shared_spec reply_error_ref\<close>)

section \<open>Refinement\<close>

text \<open>What a client may send: the arguments respect the default limits of the protocol, and the command is modelled.\<close>

definition request_ok :: "redisCommand \<Rightarrow> sds list \<Rightarrow> bool" where
  "request_ok cmd args \<longleftrightarrow>
     call_ok (cmd_proc cmd) args \<and> (cmd_proc cmd = P_exec \<or> modelled (cmd_proc cmd) (tl args))"

lemma proc_ref:
  assumes "rep s v" "vinv v c" "request_ok cmd (v_args v c)" "c_cmd (v_fix v c) = cmd" "room v (length (v_args v c))"
    "queue_ok (mstate (v_fix v c))" "room v (qsize (mstate (v_fix v c)))"
  shows "\<exists>w. v_call_with v_proc v c fl = Some w \<and> vinv w c \<and> wp (call procs s c fl) (\<lambda>s'. rep s' w)"
proof (cases "cmd_proc cmd = P_exec")
  case True
  have b: "rep (call_before s c) (v_before v c)" by (rule rep_before [OF assms(1)])
  have inv: "vinv (v_before v c) c" using assms(2) by (simp add: vinv_def before_keeps call_before_frame)
  obtain w where w: "v_exec (v_before v c) c = Some w" "vinv w c" "wp (execCommand procs (call_before s c) c) (\<lambda>s'. rep s' w)"
    using execCommand_ref [OF b inv] assms(6,7) by (auto simp: before_keeps)
  have 1: "v_call_with v_proc v c fl = Some (v_after v c fl w)"
    using w(1) True assms(4) by (simp add: v_call_with_def v_proc_def)
  have 2: "vinv (v_after v c fl w) c" using w(2) by (simp add: vinv_def after_keeps)
  have "wp (proc procs (cmd_proc (c_cmd (clients s c))) (call_before s c) c) (\<lambda>s'. rep s' w)"
    using w(3) True assms(4) rep_fix(3) [OF assms(1), of c] by (simp add: proc_def)
  then have "wp (call procs s c fl) (\<lambda>s'. rep s' (v_after v c fl w))"
    unfolding call_def call_with_before by (intro wp_map) (auto elim!: wp_mono intro: rep_after [OF assms(1)])
  then show ?thesis using 1 2 by blast
next
  case False
  have e: "call procs s c fl = call_with (basic_proc procs) s c fl"
    using False assms(4) rep_fix(3) [OF assms(1), of c] by (simp add: call_def call_with_before proc_def)
  have e': "v_call_with v_proc v c fl = v_call_with v_run v c fl" using False assms(4) by (simp add: v_call_with_def v_proc_def)
  have ok: "call_ok (cmd_proc (c_cmd (v_fix v c))) (v_args v c)" "modelled (cmd_proc cmd) (tl (v_args v c))"
    using assms(3,4) False by (simp_all add: request_ok_def)
  obtain w where w: "v_call_with v_run v c fl = Some w"
    using ok(2) v_basic_defined [of "cmd_proc cmd" "v_before v c" c "tl (v_args v c)"] assms(4)
    by (auto simp: v_call_with_def v_run_def before_keeps)
  have "args_ok (tl (v_args v c))" using ok(1) by (simp add: call_ok_def)
  then show ?thesis
    using w e e' basic_call_ref [OF assms(1,2) ok(1) assms(5) w] basic_call_keeps(1) [OF assms(2) _ w] by auto
qed

lemma flagT_keeps: "vinv (v_flagT v c) c' = vinv v c'"
proof -
  have "vok (v_client v c (\<lambda>cl. cl\<lparr>flag_dirty_exec := True\<rparr>)) = vok v"
    "watch_ok (v_client v c (\<lambda>cl. cl\<lparr>flag_dirty_exec := True\<rparr>)) = watch_ok v" by (rule client_keeps; simp)+
  moreover have "table_ok (v_client v c (\<lambda>cl. cl\<lparr>flag_dirty_exec := True\<rparr>)) = table_ok v" by (rule table_ok_env) simp
  ultimately show ?thesis by (simp add: v_flagT_def vinv_def)
qed

lemma client_vinv:
  assumes "\<And>cl. c_db (f cl) = c_db cl" "\<And>cl. w_keys (f cl) = w_keys cl"
  shows "vinv (v_client v c f) c' = vinv v c'"
  using client_keeps [OF assms, of v c] table_ok_env [of "v_client v c f" v] by (simp add: vinv_def)

lemma fix_setcmd:
  fixes v c cmd
  defines "w \<equiv> v_client v c (\<lambda>cl. cl\<lparr>c_cmd := cmd, c_lastcmd := cmd\<rparr>)"
  shows "v_args w c = v_args v c" "c_cmd (v_fix w c) = cmd" "mstate (v_fix w c) = mstate (v_fix v c)"
    "flag_multi (v_fix w c) = flag_multi (v_fix v c)" "authenticated (v_fix w c) = authenticated (v_fix v c)"
  by (simp_all add: w_def v_fix_def cfix_fields del: v_db_clients)

text \<open>The condition on the result of a step: it returns, and the result has the invariant and the view.\<close>

definition refines :: "(redisServer \<times> bool) option \<Rightarrow> (view \<times> bool) option \<Rightarrow> nat \<Rightarrow> bool" where
  "refines x y c \<longleftrightarrow> (\<exists>w b. y = Some (w, b) \<and> vinv w c \<and> wp x (\<lambda>(s', b'). rep s' w \<and> b' = b))"

lemma refinesI: "y = Some (w, b) \<Longrightarrow> vinv w c \<Longrightarrow> wp x (\<lambda>(s', b'). rep s' w \<and> b' = b) \<Longrightarrow> refines x y c"
  by (auto simp: refines_def)

lemma reply_refines:
  assumes "rep s v" "vinv v c"
  shows "refines (map_option (\<lambda>s. (s, True)) (reply_error_format s c msg)) (Some (v_put v c (error_format msg), True)) c"
    "refines (map_option (\<lambda>s. (s, True)) (reply_shared s c b)) (Some (v_put v c b, True)) c"
    "refines (map_option (\<lambda>s. (s, True)) (send_refusal s c r)) (Some (v_put v c (refusal_bytes r), True)) c"
proof -
  show "refines (map_option (\<lambda>s. (s, True)) (reply_error_format s c msg)) (Some (v_put v c (error_format msg), True)) c"
    by (rule refinesI [OF refl])
      (use assms in \<open>auto simp: error_format_def intro!: wp_map reply_error_format_spec\<close>)
  show "refines (map_option (\<lambda>s. (s, True)) (reply_shared s c b)) (Some (v_put v c b, True)) c"
    by (rule refinesI [OF refl]) (use assms in \<open>auto intro!: wp_map reply_shared_spec\<close>)
  show "refines (map_option (\<lambda>s. (s, True)) (send_refusal s c r)) (Some (v_put v c (refusal_bytes r), True)) c"
    by (rule refinesI [OF refl]) (use assms send_refusal_ref [OF assms(1)] in \<open>auto intro!: wp_map elim!: wp_mono\<close>)
qed

lemma call_refines:
  assumes "rep s v" "vinv v c" "request_ok cmd (v_args v c)" "c_cmd (v_fix v c) = cmd" "room v (length (v_args v c))"
    "queue_ok (mstate (v_fix v c))" "room v (qsize (mstate (v_fix v c)))"
  shows "refines (do { s \<leftarrow> call procs s c fl; Some (server_call s HandleReadyLists, True) })
     (map_option (\<lambda>w. (v_call w HandleReadyLists, True)) (v_call_with v_proc v c fl)) c"
proof -
  obtain w where w: "v_call_with v_proc v c fl = Some w" "vinv w c" "wp (call procs s c fl) (\<lambda>s'. rep s' w)"
    using proc_ref [OF assms, of fl procs] by blast
  have "vinv (v_call w HandleReadyLists) c"
    using w(2) vok_cong [of "v_call w HandleReadyLists" w] watch_ok_cong [of "v_call w HandleReadyLists" w]
      table_ok_env [of "v_call w HandleReadyLists" w] by (simp add: vinv_def)
  then show ?thesis
    by (intro refinesI [of _ "v_call w HandleReadyLists" True]) (use w in \<open>auto intro!: wp_bind rep_call elim!: wp_mono\<close>)
qed

lemma known_refines:
  assumes "rep s v" "vinv v c" "c_cmd (v_fix v c) = cmd" "room v (length (v_args v c))" "queue_ok (mstate (v_fix v c))"
    "room v (qsize (mstate (v_fix v c)))" "\<not> bad_arity cmd (v_args v c) \<Longrightarrow> request_ok cmd (v_args v c)"
    "\<not> cluster_enabled (v_env v)" "maxmemory (v_env v) = 0"
  shows "refines (known procs s c cmd) (v_known v c cmd) c"
proof -
  have f: "argv (clients s c) = v_args v c" "env s = v_env v" "authenticated (clients s c) = authenticated (v_fix v c)"
    "flag_multi (clients s c) = flag_multi (v_fix v c)" using assms(1) by (simp_all add: rep_fix rep_env)
  have r: "\<not> redirects s c cmd" "\<not> redirects (v_srv v) c cmd" using assms(8) f(2) by (simp_all add: redirects_def)
  note flag = rep_flagT [OF assms(1), of c] assms(2) [folded flagT_keeps [of v c]]
  note q = rep_queue [OF assms(1), of c]
  have vq: "vinv (v_queue v c) c" using assms(2) by (simp add: v_queue_def client_vinv)
  show ?thesis
  proof (cases "refuse (v_srv v) c cmd")
    case None
    then show ?thesis
      using assms reply_refines(1,2) [OF flag] reply_refines(2) [OF q vq]
        call_refines [OF assms(1,2) _ assms(3,4,5,6), of procs CMD_CALL_FULL]
      by (simp add: known_def v_known_def f r refuse_rep [OF assms(1)])
  next
    case (Some x)
    then show ?thesis
      using assms(9) reply_refines [OF flag] reply_refines(3) [OF assms(1,2)]
      by (cases x) (simp add: known_def v_known_def f r refuse_rep [OF assms(1)])
  qed
qed

lemma processCommand_refines:
  assumes "rep s v" "vinv v c" "v_args v c \<noteq> []" "queue_ok (mstate (v_fix v c))" "room v (qsize (mstate (v_fix v c)))"
    "room v (length (v_args v c))"
    "\<And>cmd. commands (v_env v) (hd (v_args v c)) = Some cmd \<Longrightarrow> \<not> bad_arity cmd (v_args v c) \<Longrightarrow> request_ok cmd (v_args v c)"
    "\<not> cluster_enabled (v_env v)" "maxmemory (v_env v) = 0"
  shows "refines (processCommand procs s c) (v_process v c) c"
proof -
  obtain a0 args where a: "v_args v c = a0 # args" using assms(3) by (cases "v_args v c") auto
  have a0: "arg s c 0 = Some a0" "lookupCommand s a0 = commands (v_env v) a0"
    using assms(1) a by (simp_all add: arg_rep lookupCommand_def rep_env)
  consider "strcasecmp a0 (bs ''quit'') = 0" | "strcasecmp a0 (bs ''quit'') \<noteq> 0" "commands (v_env v) a0 = None"
    | cmd where "strcasecmp a0 (bs ''quit'') \<noteq> 0" "commands (v_env v) a0 = Some cmd" by fastforce
  then show ?thesis
  proof cases
    case 1
    have "wp (processCommand procs s c)
        (\<lambda>(s', b'). rep s' (v_client (v_put v c shared_ok) c (\<lambda>cl. cl\<lparr>flag_close_after_reply := True\<rparr>)) \<and> b' = False)"
      using assms(1) 1 a0 by (auto simp: processCommand_def intro!: wp_bind reply_shared_spec rep_close)
    then show ?thesis by (rule refinesI [rotated 2]) (use 1 a assms(2) in \<open>simp_all add: v_process_def client_vinv\<close>)
  next
    case 2
    then show ?thesis
      using a a0 reply_refines(1) [OF rep_flagT [OF assms(1)] assms(2) [folded flagT_keeps [of v c]]]
      by (simp add: processCommand_def v_process_def)
  next
    case 3
    let ?f = "\<lambda>cl. cl\<lparr>c_cmd := cmd, c_lastcmd := cmd\<rparr>"
    have "refines (known procs (upd_client s c ?f) c cmd) (v_known (v_client v c ?f) c cmd) c"
    proof (rule known_refines [OF rep_setcmd [OF assms(1)]])
      show "vinv (v_client v c ?f) c" using assms(2) by (simp add: client_vinv)
    qed (use assms 3(2) a in \<open>simp_all add: fix_setcmd room_def v_fits_def v_wfits_def\<close>)
    then show ?thesis using 3 a a0 processCommand_known [of s c a0 cmd procs] by (simp add: v_process_def)
  qed
qed

end
