(* ===== verification/Table_Correct.thy ===== *)
theory Table_Correct
  imports Command_Table Process_Correct
begin

text \<open>
  The table of commands: \<open>populateCommandTable\<close> returns, and the arities of the table are such that no
  modelled command reads an argument that is not there.
\<close>

section \<open>Names\<close>

text \<open>Names without NUL and upper case are compared by \<open>strcasecmp\<close> as they are.\<close>

definition plain :: "string \<Rightarrow> bool" where
  "plain s \<longleftrightarrow> list_all (\<lambda>c. (0 :: nat) < of_char c \<and> \<not> (65 \<le> (of_char c :: nat) \<and> (of_char c :: nat) \<le> 90)) s"

lemma uint_char: "uint (of_nat (of_char c) :: byte) = int (of_char c)"
proof -
  have "(of_char c :: nat) < 256" by (rule nat_of_char_less_256)
  then show ?thesis by (simp add: unsigned_of_nat take_bit_nat_eq_self)
qed

lemma plain_bs: "plain s \<Longrightarrow> map lower (bs s) = bs s \<and> 0 \<notin> set (bs s)"
proof (induction s)
  case (Cons c s)
  have "lower (of_nat (of_char c)) = of_nat (of_char c)"
    using Cons.prems by (auto simp: lower_def uint_char siptlw_def plain_def)
  moreover have "(of_nat (of_char c) :: byte) \<noteq> 0"
    using Cons.prems uint_char [of c] by (auto simp: plain_def simp flip: uint_0_iff)
  ultimately show ?case using Cons by (auto simp: bs_def plain_def)
qed (simp add: bs_def)

lemma bs_inj: "bs a = bs b \<longleftrightarrow> a = b"
proof -
  have "inj (\<lambda>c. of_nat (of_char c) :: byte)"
  proof (rule injI)
    fix c d :: char
    assume "(of_nat (of_char c) :: byte) = of_nat (of_char d)"
    then have "int (of_char c) = int (of_char d)" by (metis uint_char)
    then show "c = d" by simp
  qed
  then show ?thesis by (simp add: bs_def inj_map_eq_map)
qed

lemma strcasecmp_plain: "plain a \<Longrightarrow> plain b \<Longrightarrow> strcasecmp (bs a) (bs b) = 0 \<longleftrightarrow> a = b"
  using plain_bs [of a] plain_bs [of b] by (simp add: strcasecmp_zero bs_inj)

section \<open>Populating the table\<close>

lemma parse_flag_keeps:
  "parse_flag cmd f = Some cmd' \<Longrightarrow>
     cmd_name cmd' = cmd_name cmd \<and> cmd_proc cmd' = cmd_proc cmd \<and> cmd_arity cmd' = cmd_arity cmd"
  by (auto simp: parse_flag_def split: if_splits)

lemma parse_flags_keeps:
  "parse_flags cmd fs = Some cmd' \<Longrightarrow>
     cmd_name cmd' = cmd_name cmd \<and> cmd_proc cmd' = cmd_proc cmd \<and> cmd_arity cmd' = cmd_arity cmd"
  by (induction cmd fs rule: parse_flags.induct) (auto dest!: parse_flag_keeps split: bind_splits)

definition entry_cmd :: "string \<times> command_proc \<times> int \<times> string \<times> bool \<Rightarrow> redisCommand option" where
  "entry_cmd e = parse_flags (table_entry e) (fst (snd (snd (snd e))))"

lemma entry_cmd_fields:
  assumes "entry_cmd e = Some cmd"
  shows "cmd_name cmd = fst e" "cmd_proc cmd = fst (snd e)" "cmd_arity cmd = fst (snd (snd e))"
  using parse_flags_keeps [OF assms [unfolded entry_cmd_def]] by (auto simp: table_entry_def split: prod.splits)

lemma populate_loop_Some:
  assumes "\<forall>e \<in> set es. entry_cmd e \<noteq> None \<and> plain (fst e)" "\<forall>cmd \<in> set acc. plain (cmd_name cmd)"
    "distinct (map cmd_name acc @ map fst es)"
  shows "populate_loop acc es = Some (acc @ map (the \<circ> entry_cmd) es)"
  using assms
proof (induction es arbitrary: acc)
  case (Cons e es)
  obtain cmd where cmd: "entry_cmd e = Some cmd" using Cons.prems(1) by auto
  note f = entry_cmd_fields [OF cmd]
  have "\<not> list_ex (\<lambda>cmd'. strcasecmp (bs (cmd_name cmd)) (bs (cmd_name cmd')) = 0) acc"
    using Cons.prems f(1) strcasecmp_plain by (auto simp: list_ex_iff)
  then have "populate_loop acc (e # es) = populate_loop (acc @ [cmd]) es"
    using cmd by (simp add: entry_cmd_def)
  also have "\<dots> = Some ((acc @ [cmd]) @ map (the \<circ> entry_cmd) es)"
    using Cons.prems f(1) by (intro Cons.IH) auto
  finally show ?case using cmd by simp
qed simp

section \<open>The entries\<close>

lemma parse_flags_Some: "list_all (\<lambda>f. f \<in> set ''wrmapsRSltMkF'') fs \<Longrightarrow> parse_flags cmd fs \<noteq> None"
  by (induction cmd fs rule: parse_flags.induct) (auto simp: parse_flag_def)

lemma table_flags: "list_all (\<lambda>e. list_all (\<lambda>f. f \<in> set ''wrmapsRSltMkF'') (fst (snd (snd (snd e))))) redisCommandTable"
  unfolding redisCommandTable_def by simp

lemma table_plain: "list_all (\<lambda>e. plain (fst e)) redisCommandTable"
  unfolding redisCommandTable_def plain_def by simp

definition name_code :: "string \<Rightarrow> int" where
  "name_code s = foldl (\<lambda>n c. n * 256 + of_char c) 0 s"

lemma table_distinct: "distinct (map fst redisCommandTable)"
proof -
  have "distinct (map name_code (map fst redisCommandTable))"
    unfolding redisCommandTable_def name_code_def by simp
  then show ?thesis unfolding distinct_map [of name_code] by (rule conjunct1)
qed

text \<open>An arity \<open>n\<close> stands for \<open>n\<close> arguments, the name among them, and \<open>- n\<close> for at least \<open>n\<close>.\<close>

definition arity_ok :: "command_proc \<Rightarrow> int \<Rightarrow> bool" where
  "arity_ok p arity \<longleftrightarrow> (case needs p of None \<Rightarrow> True | Some n \<Rightarrow> int n + 1 \<le> \<bar>arity\<bar>)"

lemma table_arity: "list_all (\<lambda>e. arity_ok (fst (snd e)) (fst (snd (snd e)))) redisCommandTable"
  unfolding redisCommandTable_def arity_ok_def by (simp add: needs_def)

lemma populateCommandTable_entries:
  "populateCommandTable = Some (map (the \<circ> entry_cmd) redisCommandTable)" "\<forall>e \<in> set redisCommandTable. entry_cmd e \<noteq> None"
proof -
  have e: "\<forall>e \<in> set redisCommandTable. entry_cmd e \<noteq> None \<and> plain (fst e)"
    using table_flags table_plain parse_flags_Some by (simp add: list_all_iff entry_cmd_def)
  show "populateCommandTable = Some (map (the \<circ> entry_cmd) redisCommandTable)"
    unfolding populateCommandTable_def using populate_loop_Some [OF e, of "[]"] table_distinct by simp
  show "\<forall>e \<in> set redisCommandTable. entry_cmd e \<noteq> None" using e by blast
qed

theorem populateCommandTable_Some:
  "\<exists>tab. populateCommandTable = Some tab \<and> map cmd_name tab = map fst redisCommandTable \<and>
     (\<forall>cmd \<in> set tab. arity_ok (cmd_proc cmd) (cmd_arity cmd))"
proof -
  let ?tab = "map (the \<circ> entry_cmd) redisCommandTable"
  note e = populateCommandTable_entries
  have "map cmd_name ?tab = map fst redisCommandTable" using e(2) entry_cmd_fields(1) by (auto simp: map_eq_conv)
  moreover have "arity_ok (cmd_proc cmd) (cmd_arity cmd)" if c: "cmd \<in> set ?tab" for cmd
  proof -
    obtain e' where e': "e' \<in> set redisCommandTable" "cmd = the (entry_cmd e')" using c by auto
    then have "entry_cmd e' = Some cmd" using e(2) by auto
    then show ?thesis using table_arity entry_cmd_fields e'(1) by (auto simp: list_all_iff)
  qed
  ultimately show ?thesis using e(1) by blast
qed

lemma arity_modelled:
  assumes "arity_ok (cmd_proc cmd) (cmd_arity cmd)" "\<not> bad_arity cmd args" "needs (cmd_proc cmd) \<noteq> None"
  shows "modelled (cmd_proc cmd) (tl args)"
  using assms by (auto simp: arity_ok_def bad_arity_def modelled_def split: option.splits)

end
