(* ===== verification/Server_Runs.thy ===== *)
theory Server_Runs
  imports Table_Correct
begin

text \<open>
  The states a server can reach: from \<open>initServer\<close>, by connections, changes of the environment (the
  clock, the configuration) and requests of the clients. Every reachable state is well formed, and no
  request of a modelled command gets stuck.
\<close>

section \<open>Queues\<close>

abbreviation queue_of :: "view \<Rightarrow> nat \<Rightarrow> (redisCommand \<times> sds list) list" where
  "queue_of v c \<equiv> mstate (v_fix v c)"

definition queue_step :: "view \<Rightarrow> view \<Rightarrow> nat \<Rightarrow> bool" where
  "queue_step v w c \<longleftrightarrow> v_env w = v_env v \<and> (\<forall>c'. queue_of w c' = queue_of v c' \<or> (c' = c \<and> queue_of w c' = []))"

lemma queue_step_refl [simp]: "queue_step v v c"
  by (simp add: queue_step_def)

lemma queue_step_trans: "queue_step u v c \<Longrightarrow> queue_step v w c \<Longrightarrow> queue_step u w c"
  unfolding queue_step_def by metis

lemma queue_step_same: "(\<And>c'. queue_of w c' = queue_of v c') \<Longrightarrow> v_env w = v_env v \<Longrightarrow> queue_step v w c"
  by (simp add: queue_step_def)

lemma mstate_fix: "mstate (clients (v_srv v) c) = queue_of v c"
  by (simp add: v_fix_def cfix_fields)

lemma queue_client:
  assumes "\<And>cl. mstate (f cl) = mstate cl"
  shows "queue_of (v_client v c f) c' = queue_of v c'"
  by (simp add: v_fix_client cfix_fields assms mstate_fix)

lemma queue_unwatch [simp]: "queue_of (v_unwatch_keys v c wks) c' = queue_of v c'"
  unfolding v_unwatch_keys_def by (subst queue_client) (simp_all add: v_fix_def)

lemma queue_dropq: "queue_of (v_dropq v c) c' = (if c' = c then [] else queue_of v c')"
  by (simp add: v_dropq_def v_fix_client cfix_fields)

lemma queue_watch_loop [simp]: "queue_of (v_watch_loop v c ks) c' = queue_of v c'"
  by (induction ks arbitrary: v) (simp_all add: v_watchKey_def Let_def queue_client)

lemma queue_discardT: "queue_of (v_discardT v c) c' = (if c' = c then [] else queue_of v c')"
  by (simp add: v_discardT_def queue_dropq)

lemma env_frame [simp]:
  "v_env (v_discardT v c) = v_env v" "v_env (v_flagT v c) = v_env v" "v_env (v_queue v c) = v_env v"
  "env (handle_monitor s c) = env s" "env (execCommandPropagateMulti s c) = env s"
  by (simp_all add: v_discardT_def v_dropq_def v_flagT_def v_queue_def handle_monitor_frame exec_multi_frame)

lemma basic_queue:
  assumes "vok v" "args_ok args" "v_basic p v c args = Some w"
  shows "queue_step v w c"
proof (cases "on_keys p")
  case True
  then show ?thesis
    using kept_fields(4) [OF vsteps_frame(5) [OF basic_vsteps [OF assms(1,2) True assms(3)]]] basic_frame(2) [OF assms]
    by (intro queue_step_same)
next
  case False
  have "queue_of (v_selectCommand v c a) c' = queue_of v c'" "queue_of (v_swapdb v c a b) c' = queue_of v c'"
    "queue_of (v_multi v c) c' = queue_of v c'" "queue_of (v_watch v c args) c' = queue_of v c'"
    "queue_of (v_unwatchCommand v c) c' = queue_of v c'" for a b c'
    by (simp_all add: v_selectCommand_def v_swapdb_def v_multi_def v_watch_def v_unwatchCommand_def queue_client Let_def
        split: option.split)
  moreover have "\<forall>c'. queue_of (v_discard v c) c' = queue_of v c' \<or> c' = c \<and> queue_of (v_discard v c) c' = []"
    by (simp add: v_discard_def queue_discardT)
  ultimately show ?thesis
    using False assms(3) flush_frame(5) [OF disjI1 [OF refl], of v c args] flush_frame(5) [OF disjI2 [OF refl], of v c args]
      basic_frame(2) [OF assms]
    by (auto simp: on_keys_def v_basic_def with_Some queue_step_def)
qed

lemma call_queue:
  assumes "run (cmd_proc (c_cmd (v_fix v c))) (v_before v c) c = Some w' \<Longrightarrow> queue_step (v_before v c) w' c"
    "v_call_with run v c fl = Some w" "run (cmd_proc (c_cmd (v_fix v c))) (v_before v c) c = Some w'"
  shows "queue_step v w c"
  using assms by (auto simp: v_call_with_def queue_step_def before_keeps after_keeps call_before_frame)

lemma run_queue:
  assumes "vinv v c" "args_ok (tl (v_args v c))" "v_call_with v_run v c fl = Some w"
  shows "queue_step v w c"
proof -
  obtain w' where w': "v_run (cmd_proc (c_cmd (v_fix v c))) (v_before v c) c = Some w'"
    using assms(3) by (auto simp: v_call_with_def)
  show ?thesis
  proof (rule call_queue [OF _ assms(3) w'])
    show "queue_step (v_before v c) w' c"
      using basic_queue [of "v_before v c" "tl (v_args v c)"] assms(1,2) w' by (simp add: v_run_def before_keeps vinv_def)
  qed
qed

lemma exec_loop_queue:
  assumes "vinv v c" "queue_ok q" "v_exec_loop v c q mp = Some (w, b)"
  shows "queue_step v w c"
  using assms
proof (induction v c q mp arbitrary: w b rule: v_exec_loop.induct)
  case (2 v c cmd args q mp)
  let ?start = "\<not> mp \<and> \<not> (cmd_readonly cmd \<or> cmd_admin cmd)"
  let ?v1 = "v_client v c (\<lambda>cl. cl\<lparr>argv := args, c_cmd := cmd\<rparr>)"
  let ?v2 = "if ?start then v_lift (\<lambda>s. execCommandPropagateMulti s c) ?v1 else ?v1"
  obtain w1 where w1: "v_call_with v_run ?v2 c CMD_CALL_FULL = Some w1" "v_exec_loop w1 c q (mp \<or> ?start) = Some (w, b)"
    using 2(4) unfolding v_exec_loop.simps Let_def by (auto split: option.splits)
  have inv: "vinv ?v2 c" "v_args ?v2 c = args" using 2(2) by (simp_all add: multi_keeps argv_keeps)
  have q: "args_ok (tl args)" "queue_ok q" using 2(3) by (auto simp: queue_ok_def call_ok_def)
  have s1: "queue_step v ?v2 c"
    using lift_keeps(10) [of "\<lambda>s. execCommandPropagateMulti s c" ?v1]
    by (intro queue_step_same; simp add: exec_multi_frame queue_client)
  have a: "args_ok (tl (v_args ?v2 c))" using q(1) inv(2) by simp
  have s2: "queue_step ?v2 w1 c" by (rule run_queue [OF inv(1) a w1(1)])
  have "queue_step w1 w c"
    by (rule 2(1) [OF refl refl refl w1(1) basic_call_keeps(1) [OF inv(1) a w1(1)] q(2) w1(2)])
  then show ?case using s1 s2 queue_step_trans by blast
qed simp

lemma exec_queue:
  assumes "vinv v c" "queue_ok (queue_of v c)" "v_exec v c = Some w"
  shows "queue_step v w c"
proof -
  have m: "queue_of (v_lift (\<lambda>s. handle_monitor s c) u) c' = queue_of u c'" for u c'
    using lift_keeps(10) [of "\<lambda>s. handle_monitor s c" u] by (simp add: handle_monitor_frame)
  show ?thesis
  proof (cases "flag_multi (v_fix v c) \<and> \<not> (flag_dirty_cas (clients (v_srv v) c) \<or> flag_dirty_exec (v_fix v c))")
    case False
    then show ?thesis
      using assms(3) by (auto simp: v_exec_def queue_step_def queue_discardT m split: if_splits)
  next
    case True
    let ?v = "v_put (v_unwatchAll v c) c (multibulk_len (length (queue_of v c)))"
    obtain w1 b where w1: "v_exec_loop ?v c (queue_of v c) False = Some (w1, b)"
      using True assms(3) by (auto simp: v_exec_def Let_def split: option.splits)
    have inv: "vinv ?v c" using assms(1) vinv_unwatch by simp
    have "queue_step ?v w1 c" by (rule exec_loop_queue [OF inv assms(2) w1])
    then have "queue_step v w1 c" by (simp add: queue_step_def)
    moreover have "queue_step w1 w c"
      using True assms(3) w1 by (auto simp: v_exec_def Let_def queue_step_def queue_discardT m queue_client split: if_splits)
    ultimately show ?thesis by (rule queue_step_trans)
  qed
qed

lemma proc_queue:
  assumes "vinv v c" "args_ok (tl (v_args v c))" "queue_ok (queue_of v c)" "v_call_with v_proc v c fl = Some w"
  shows "queue_step v w c"
proof (cases "cmd_proc (c_cmd (v_fix v c)) = P_exec")
  case True
  obtain w' where w': "v_exec (v_before v c) c = Some w'"
    using assms(4) True by (auto simp: v_call_with_def v_proc_def)
  have "vinv (v_before v c) c" using assms(1) by (simp add: vinv_def before_keeps call_before_frame)
  then have "queue_step (v_before v c) w' c" using exec_queue [OF _ _ w'] assms(3) by (simp add: before_keeps)
  then show ?thesis using assms(4) True w' by (intro call_queue [OF _ assms(4), of w']) (simp_all add: v_proc_def)
next
  case False
  then have "v_call_with v_run v c fl = Some w" using assms(4) by (simp add: v_call_with_def v_proc_def)
  then show ?thesis by (rule run_queue [OF assms(1,2)])
qed

definition queues_ok :: "view \<Rightarrow> bool" where
  "queues_ok v \<longleftrightarrow> (\<forall>c. queue_ok (queue_of v c))"

lemma queue_ok_Nil [simp]: "queue_ok []"
  by (simp add: queue_ok_def)

lemma queues_ok_step: "queue_step v w c \<Longrightarrow> queues_ok v \<Longrightarrow> queues_ok w"
  unfolding queue_step_def queues_ok_def by (metis queue_ok_Nil)

lemma queues_ok_same: "(\<And>c. queue_of w c = queue_of v c) \<Longrightarrow> queues_ok w = queues_ok v"
  by (simp add: queues_ok_def)

lemma queue_flagT: "queue_of (v_flagT v c) c' = queue_of v c'"
  by (simp add: v_flagT_def queue_client)

lemma known_queue:
  assumes "vinv v c" "queues_ok v" "c_cmd (v_fix v c) = cmd" "v_known v c cmd = Some (w, b)"
    "\<not> bad_arity cmd (v_args v c) \<Longrightarrow> request_ok cmd (v_args v c)" "length (queue_of v c) + 1 < 2 ^ 31"
  shows "queues_ok w" "v_env w = v_env v"
proof -
  have put: "queues_ok (v_put u c x) = queues_ok u" "queues_ok (v_flagT u c) = queues_ok u" "queues_ok (v_call u e) = queues_ok u"
    for u x e by (rule queues_ok_same; simp add: queue_flagT)+
  have q: "queues_ok (v_queue v c)" if "\<not> bad_arity cmd (v_args v c)" "queues (cmd_proc cmd)"
  proof -
    have "queue_of (v_queue v c) c' = (if c' = c then queue_of v c @ [(cmd, v_args v c)] else queue_of v c')" for c'
      using assms(3) by (simp add: v_queue_def v_fix_client cfix_fields mstate_fix) (simp add: v_fix_def cfix_fields)
    moreover have "request_ok cmd (v_args v c)" "cmd_proc cmd \<noteq> P_exec" using that assms(5) by (simp_all add: queues_def)
    ultimately show ?thesis using assms(2,6) by (auto simp: queues_ok_def queue_ok_def request_ok_def)
  qed
  have call: "queues_ok u \<and> v_env u = v_env v" if "\<not> bad_arity cmd (v_args v c)" "v_call_with v_proc v c CMD_CALL_FULL = Some u" for u
  proof -
    have "args_ok (tl (v_args v c))" using assms(5) that(1) by (simp add: request_ok_def call_ok_def)
    then have "queue_step v u c" using proc_queue [OF assms(1) _ _ that(2)] assms(2) by (simp add: queues_ok_def)
    then show ?thesis using queues_ok_step assms(2) by (auto simp: queue_step_def)
  qed
  show "queues_ok w" "v_env w = v_env v"
    using assms(2,4) q call by (auto simp: v_known_def put split: if_splits option.splits)
qed

lemma process_queue:
  assumes "vinv v c" "queues_ok v" "v_process v c = Some (w, b)" "length (queue_of v c) + 1 < 2 ^ 31"
    "\<And>cmd. commands (v_env v) (hd (v_args v c)) = Some cmd \<Longrightarrow> \<not> bad_arity cmd (v_args v c) \<Longrightarrow> request_ok cmd (v_args v c)"
  shows "queues_ok w \<and> v_env w = v_env v"
proof -
  obtain a0 args where a: "v_args v c = a0 # args" using assms(3) by (cases "v_args v c") (auto simp: v_process_def)
  have put: "queues_ok (v_put u c x) = queues_ok u" "queues_ok (v_flagT u c) = queues_ok u"
    "queues_ok (v_client u c (\<lambda>cl. cl\<lparr>flag_close_after_reply := True\<rparr>)) = queues_ok u"
    "queues_ok (v_client u c (\<lambda>cl. cl\<lparr>c_cmd := m, c_lastcmd := m\<rparr>)) = queues_ok u"
    for u x m by (rule queues_ok_same; simp add: queue_flagT queue_client)+
  show ?thesis
  proof (cases "strcasecmp a0 (bs ''quit'') \<noteq> 0 \<and> commands (v_env v) a0 \<noteq> None")
    case False
    then show ?thesis using assms(2,3) a by (auto simp: v_process_def put split: if_splits)
  next
    case True
    then obtain cmd where cmd: "commands (v_env v) a0 = Some cmd" by auto
    let ?v = "v_client v c (\<lambda>cl. cl\<lparr>c_cmd := cmd, c_lastcmd := cmd\<rparr>)"
    have "v_known ?v c cmd = Some (w, b)" using True assms(3) a cmd by (simp add: v_process_def)
    then have "queues_ok w" "v_env w = v_env ?v"
      using assms a cmd by (intro known_queue [of ?v c cmd w b]; simp add: client_vinv put fix_setcmd)+
    then show ?thesis by simp
  qed
qed

section \<open>Reachable states\<close>

text \<open>
  The environments in which the server runs: the command table is the one of \<open>populateCommandTable\<close>,
  where \<open>rename-command\<close> may have removed names, the server is not a node of a cluster and has no
  \<open>maxmemory\<close>.
\<close>

definition env_ok :: "server_env \<Rightarrow> bool" where
  "env_ok e \<longleftrightarrow>
     (\<exists>tab. populateCommandTable = Some tab \<and> (\<forall>name cmd. commands e name = Some cmd \<longrightarrow> cmd \<in> set tab)) \<and>
     (commands e (bs ''DEL'') \<noteq> None \<or> orig_commands e (bs ''DEL'') \<noteq> None) \<and>
     (commands e (bs ''UNLINK'') \<noteq> None \<or> orig_commands e (bs ''UNLINK'') \<noteq> None) \<and>
     \<not> cluster_enabled e \<and> maxmemory e = 0"

definition set_argv :: "redisServer \<Rightarrow> nat \<Rightarrow> sds list \<Rightarrow> redisServer" where
  "set_argv s c args = upd_client s c (\<lambda>cl. cl\<lparr>argv := args\<rparr>)"

text \<open>
  The requests: the default limits of the protocol, a command that is modelled when it is in the table, and
  tables that are not full. \<open>SETRANGE\<close> has an offset that does not overflow.
\<close>

definition fits_server :: "redisServer \<Rightarrow> nat \<Rightarrow> sds list \<Rightarrow> bool" where
  "fits_server s c args \<longleftrightarrow>
     c \<in> set (client_list s) \<and> args \<noteq> [] \<and> args_ok (tl args) \<and>
     (\<forall>cmd. commands (env s) (hd args) = Some cmd \<longrightarrow>
        (cmd_proc cmd = P_exec \<or> needs (cmd_proc cmd) \<noteq> None) \<and> offset_ok (cmd_proc cmd) (tl args)) \<and>
     room (view_of s) (length args) \<and> room (view_of s) (qsize (mstate (clients s c))) \<and>
     length (mstate (clients s c)) + 1 < 2 ^ 31"

definition srv_ok :: "redisServer \<Rightarrow> bool" where
  "srv_ok s \<longleftrightarrow> rep s (view_of s) \<and> vok (view_of s) \<and> watch_ok (view_of s) \<and> queues_ok (view_of s) \<and> env_ok (env s)"

inductive reachable :: "(command_proc \<Rightarrow> redisServer \<Rightarrow> nat \<Rightarrow> redisServer option) \<Rightarrow> redisServer \<Rightarrow> bool"
  for procs where
  start: "env_ok e \<Longrightarrow> 0 < dbnum \<Longrightarrow> \<forall>c. c_db (cls c) = 0 \<and> w_keys (cls c) = [] \<and> mstate (cls c) = [] \<Longrightarrow>
     reachable procs (initServer e dbnum cls)"
| connect: "reachable procs s \<Longrightarrow> c \<notin> set (client_list s) \<Longrightarrow> reachable procs (createClient s c fd' limit)"
| environment: "reachable procs s \<Longrightarrow> env_ok e \<Longrightarrow> hash_seed e = hash_seed (env s) \<Longrightarrow> reachable procs (s\<lparr>env := e\<rparr>)"
| request: "reachable procs s \<Longrightarrow> fits_server s c args \<Longrightarrow> processCommand procs (set_argv s c args) c = Some (s', b) \<Longrightarrow>
     reachable procs s'"

inductive_cases reachableE: "reachable procs s"

lemma env_table_ok: "env_ok (v_env v) \<Longrightarrow> table_ok v"
  by (auto simp: env_ok_def table_ok_def v_lookup_def split: option.splits)

lemma env_arity:
  assumes "env_ok e" "commands e name = Some cmd"
  shows "arity_ok (cmd_proc cmd) (cmd_arity cmd)"
proof -
  obtain tab where "populateCommandTable = Some tab" "cmd \<in> set tab"
    using assms unfolding env_ok_def by blast
  then show ?thesis using populateCommandTable_Some by (metis option.inject)
qed

lemma rep_view_of: "rep s v \<Longrightarrow> view_of s = v"
  by (simp add: rep_def)

lemma rep_argv_set: "rep s v \<Longrightarrow> rep (set_argv s c args) (v_client v c (\<lambda>cl. cl\<lparr>argv := args\<rparr>))"
  unfolding set_argv_def using rep_client [of s v c] by (auto intro!: rep_upd_client)

text \<open>A request is answered, and the answer leaves a well-formed server.\<close>

theorem request_returns:
  assumes "srv_ok s" "fits_server s c args"
  shows "\<exists>s' b. processCommand procs (set_argv s c args) c = Some (s', b) \<and> srv_ok s' \<and>
     v_process (view_of (set_argv s c args)) c = Some (view_of s', b)"
proof -
  let ?v = "v_client (view_of s) c (\<lambda>cl. cl\<lparr>argv := args\<rparr>)" and ?s = "set_argv s c args"
  have ok: "rep s (view_of s)" "vok (view_of s)" "watch_ok (view_of s)" "queues_ok (view_of s)" "env_ok (env s)"
    using assms(1) by (simp_all add: srv_ok_def)
  have env: "v_env ?v = env s" using rep_env [OF ok(1)] by simp
  have r: "rep ?s ?v" by (rule rep_argv_set [OF ok(1)])
  have "table_ok (view_of s)" using env_table_ok [of "view_of s"] ok(5) rep_env [OF ok(1)] by simp
  then have "vinv (view_of s) c"
    using ok(2,3) assms(2) rep_client_list [OF ok(1)] by (simp add: vinv_def fits_server_def)
  then have inv: "vinv ?v c" by (simp add: client_vinv)
  have a: "v_args ?v c = args" "queue_of ?v c = mstate (clients s c)"
    using rep_client_fields(8) [OF ok(1), of c] by (simp_all add: v_fix_client cfix_fields)
  have qs: "queues_ok ?v" using ok(4) by (subst queues_ok_same) (simp_all add: queue_client)
  have rm: "room ?v n = room (view_of s) n" for n by (simp add: room_def v_fits_def v_wfits_def)
  have req: "request_ok cmd (v_args ?v c)"
    if cmd: "commands (v_env ?v) (hd (v_args ?v c)) = Some cmd" and ar: "\<not> bad_arity cmd (v_args ?v c)" for cmd
  proof -
    have c: "commands (env s) (hd args) = Some cmd" using cmd env a by simp
    have "arity_ok (cmd_proc cmd) (cmd_arity cmd)" by (rule env_arity [OF ok(5) c])
    then show ?thesis
      using ar c assms(2) arity_modelled [of cmd args] a by (auto simp: fits_server_def request_ok_def call_ok_def)
  qed
  have len: "length (queue_of ?v c) + 1 < 2 ^ 31" using assms(2) a by (simp add: fits_server_def)
  have "refines (processCommand procs ?s c) (v_process ?v c) c"
  proof (rule processCommand_refines [OF r inv])
    show "queue_ok (queue_of ?v c)" using qs by (simp add: queues_ok_def)
    show "\<not> cluster_enabled (v_env ?v)" "maxmemory (v_env ?v) = 0" using ok(5) env by (simp_all add: env_ok_def)
  qed (use assms(2) a rm req in \<open>simp_all add: fits_server_def\<close>)
  then obtain w b s' where w: "v_process ?v c = Some (w, b)" "vinv w c" "processCommand procs ?s c = Some (s', b)" "rep s' w"
    by (auto simp: refines_def wp_def)
  have qw: "queues_ok w \<and> v_env w = v_env ?v" by (rule process_queue [OF inv qs w(1) len req])
  then have "srv_ok s'"
    using w(2,4) ok(5) env rep_view_of [OF w(4)] rep_env [OF w(4)] by (simp add: srv_ok_def vinv_def)
  then show ?thesis using w rep_view_of [OF w(4)] rep_view_of [OF r] by auto
qed

lemma init_ok:
  assumes "env_ok e" "0 < dbnum" "\<forall>c. c_db (cls c) = 0 \<and> w_keys (cls c) = [] \<and> mstate (cls c) = []"
  shows "srv_ok (initServer e dbnum cls)"
proof -
  let ?s = "initServer e dbnum cls"
  let ?v = "view_of ?s"
  have fields: "c_db (v_fix ?v c) = 0" "w_keys (v_fix ?v c) = []" "mstate (v_fix ?v c) = []" for c
    using assms(3) by (simp_all add: view_of_def initServer_def v_fix_def cfix_fields del: v_db_clients)
  have maps: "v_n ?v = dbnum" "v_kv ?v i k = None" "v_ttl ?v i k = None" "v_wk ?v i k = None" for i k
    by (simp_all add: view_of_def initServer_def kv_of_def ttl_of_def wk_of_def new_db_def dict_empty_ok)
  have "db_ok ?s db" if "db \<in> set (dbs ?s)" for db
    using that by (auto simp: initServer_def new_db_def db_ok_def dict_empty_ok)
  then have "rep ?s ?v" by (simp add: rep_def ttl_ok_def maps)
  moreover have "vok ?v" using assms(2) by (simp add: vok_def fields maps)
  moreover have "watch_ok ?v" by (simp add: watch_ok_def watchers_def fields maps)
  moreover have "queues_ok ?v" by (simp add: queues_ok_def fields)
  ultimately show ?thesis using assms(1) by (simp add: srv_ok_def initServer_def)
qed

lemma rep_clients:
  assumes "rep s v" "dbs s' = dbs s" "env s' = env s"
  shows "rep s' (view_of s')" "v_n (view_of s') = v_n v" "v_kv (view_of s') = v_kv v" "v_wk (view_of s') = v_wk v"
proof -
  let ?v = "v\<lparr>v_srv := s'\<lparr>dbs := [], rand_pos := 0, clients := client_view \<circ> clients s'\<rparr>\<rparr>"
  have "rep s' ?v" by (rule rep_srv [OF assms refl])
  then show "rep s' (view_of s')" "v_n (view_of s') = v_n v" "v_kv (view_of s') = v_kv v" "v_wk (view_of s') = v_wk v"
    using rep_view_of by auto
qed

lemma fix_view_of: "v_fix (view_of s) c = cfix (client_view (clients s c))" "v_srv (view_of s) = proj s"
  by (simp_all add: v_fix_def view_of_def proj_def)

lemma connect_ok:
  assumes "srv_ok s" "c \<notin> set (client_list s)"
  shows "srv_ok (createClient s c fd' limit)"
proof -
  let ?s = "createClient s c fd' limit"
  have ok: "rep s (view_of s)" "vok (view_of s)" "watch_ok (view_of s)" "queues_ok (view_of s)" "env_ok (env s)"
    using assms(1) by (simp_all add: srv_ok_def)
  have frame: "dbs ?s = dbs s" "env ?s = env s" "set (client_list s) \<subseteq> set (client_list ?s)"
    by (auto simp: createClient_def Let_def)
  note r = rep_clients [OF ok(1) frame(1,2)]
  have none: "w_keys (clients s c) = []"
    using ok(3) assms(2) by (auto simp: watch_ok_def fix_view_of cfix_fields)
  have cl: "c_db (clients ?s c') = (if c' = c then 0 else c_db (clients s c'))"
    "w_keys (clients ?s c') = w_keys (clients s c')"
    "mstate (clients ?s c') = (if c' = c then [] else mstate (clients s c'))" for c'
    using none by (simp_all add: createClient_def Let_def)
  have "0 < v_n (view_of s)" using ok(2) by (metis gr0I not_less0 vok_db)
  then have "vok (view_of ?s)" using ok(2) by (simp add: vok_def r fix_view_of cfix_fields cl)
  moreover have "watch_ok (view_of ?s)"
    using ok(3) frame(3) by (auto simp: watch_ok_def watchers_def r fix_view_of cfix_fields cl)
  moreover have "queues_ok (view_of ?s)" using ok(4) by (simp add: queues_ok_def fix_view_of cfix_fields cl)
  ultimately show ?thesis using r(1) ok(5) frame(2) by (simp add: srv_ok_def)
qed

lemma environment_ok:
  assumes "srv_ok s" "env_ok e" "hash_seed e = hash_seed (env s)"
  shows "srv_ok (s\<lparr>env := e\<rparr>)"
proof -
  let ?s = "s\<lparr>env := e\<rparr>"
  have ok: "rep s (view_of s)" "vok (view_of s)" "watch_ok (view_of s)" "queues_ok (view_of s)"
    using assms(1) by (simp_all add: srv_ok_def)
  have maps: "v_n (view_of ?s) = v_n (view_of s)" "v_kv (view_of ?s) = v_kv (view_of s)"
    "v_ttl (view_of ?s) = v_ttl (view_of s)" "v_wk (view_of ?s) = v_wk (view_of s)"
    using assms(3) by (simp_all add: view_of_def kv_of_def ttl_of_def wk_of_def fun_eq_iff)
  have cl: "v_fix (view_of ?s) c = v_fix (view_of s) c" "client_list (v_srv (view_of ?s)) = client_list (v_srv (view_of s))" for c
    by (simp_all add: fix_view_of)
  have "rep ?s (view_of ?s)" using ok(1) assms(3) by (auto simp: rep_def db_ok_def ttl_ok_def maps)
  moreover have "vok (view_of ?s)" using ok(2) by (subst vok_cong) (simp_all add: maps cl)
  moreover have "watch_ok (view_of ?s)" using ok(3) by (subst watch_ok_cong) (simp_all add: maps cl)
  moreover have "queues_ok (view_of ?s)" using ok(4) by (simp add: queues_ok_def cl)
  ultimately show ?thesis using assms(2) by (simp add: srv_ok_def)
qed

theorem reachable_ok: "reachable procs s \<Longrightarrow> srv_ok s"
proof (induction rule: reachable.induct)
  case (request s c args s' b)
  then show ?case using request_returns [OF request.IH request.hyps(2), of procs] by auto
qed (auto intro: init_ok connect_ok environment_ok)

end
