(* ===== verification/Watch_Correct.thy ===== *)
theory Watch_Correct
  imports Command_Invariants
begin

text \<open>
  The optimistic locks of \<open>WATCH\<close>: a command that changes a key marks the clients that watch it. A key
  that is removed because its time has passed counts as unchanged. \<open>MOVE\<close>, \<open>PERSIST\<close> and \<open>SWAPDB\<close> do not
  mark anyone.
\<close>

section \<open>Tracked changes\<close>

definition marked :: "view \<Rightarrow> nat \<Rightarrow> bool" where
  "marked v c \<longleftrightarrow> flag_dirty_cas (clients (v_srv v) c)"

abbreviation watches :: "view \<Rightarrow> nat \<Rightarrow> nat \<Rightarrow> sds \<Rightarrow> bool" where
  "watches v c i k \<equiv> c \<in> set (watchers v i k)"

definition same_at :: "view \<Rightarrow> view \<Rightarrow> nat \<Rightarrow> sds \<Rightarrow> bool" where
  "same_at v w i k \<longleftrightarrow> v_kv w i k = v_kv v i k \<and> (v_kv v i k \<noteq> None \<longrightarrow> v_ttl w i k = v_ttl v i k)"

text \<open>The key of \<open>v\<close> had a time to live, which has passed, and it is gone.\<close>

definition outdated :: "view \<Rightarrow> view \<Rightarrow> nat \<Rightarrow> sds \<Rightarrow> bool" where
  "outdated v w i k \<longleftrightarrow> v_kv w i k = None \<and> (\<exists>t. v_ttl v i k = Some t \<and> t < v_now w)"

definition keeps_watch :: "nat \<Rightarrow> view \<Rightarrow> view \<Rightarrow> bool" where
  "keeps_watch d v w \<longleftrightarrow>
     v_now v \<le> v_now w \<and> (\<forall>i k. watches w d i k \<longleftrightarrow> watches v d i k) \<and> (marked v d \<longrightarrow> marked w d)"

text \<open>The changes from \<open>v\<close> to \<open>w\<close> are known to the client \<open>d\<close> that watches keys.\<close>

definition tracks :: "nat \<Rightarrow> view \<Rightarrow> view \<Rightarrow> bool" where
  "tracks d v w \<longleftrightarrow> keeps_watch d v w \<and>
     (\<forall>i k. watches v d i k \<longrightarrow> same_at v w i k \<or> outdated v w i k \<or> marked w d)"

lemma keeps_watch_trans: "keeps_watch d u v \<Longrightarrow> keeps_watch d v w \<Longrightarrow> keeps_watch d u w"
  by (auto simp: keeps_watch_def)

lemma tracks_refl: "tracks d v v"
  by (simp add: tracks_def keeps_watch_def same_at_def)

lemma outdated_trans:
  "outdated u v i k \<Longrightarrow> v_kv w i k = None \<Longrightarrow> v_now v \<le> v_now w \<Longrightarrow> outdated u w i k"
  "same_at u v i k \<Longrightarrow> outdated v w i k \<Longrightarrow> same_at u w i k \<or> outdated u w i k"
  "same_at u v i k \<Longrightarrow> same_at v w i k \<Longrightarrow> same_at u w i k"
  by (auto simp: outdated_def same_at_def)

lemma tracks_trans:
  assumes "tracks d u v" "tracks d v w"
  shows "tracks d u w"
  unfolding tracks_def
proof (intro conjI allI impI)
  have m: "keeps_watch d u v" "keeps_watch d v w" using assms by (simp_all add: tracks_def)
  then show "keeps_watch d u w" by (rule keeps_watch_trans)
  fix i k assume u: "watches u d i k"
  then have v: "watches v d i k" using m(1) by (simp add: keeps_watch_def)
  consider "marked v d" | "outdated u v i k" | "same_at u v i k" using assms(1) u unfolding tracks_def by blast
  then show "same_at u w i k \<or> outdated u w i k \<or> marked w d"
  proof cases
    case 1
    then show ?thesis using m(2) by (simp add: keeps_watch_def)
  next
    case 2
    have "v_kv w i k = None \<or> marked w d"
      using assms(2) v 2 unfolding tracks_def same_at_def outdated_def by metis
    then show ?thesis using 2 m(2) outdated_trans(1) by (auto simp: keeps_watch_def)
  next
    case 3
    then show ?thesis using assms(2) v outdated_trans(2,3) unfolding tracks_def by blast
  qed
qed

text \<open>A change of some keys, for which the client is marked in the end when it watches one of them.\<close>

lemma tracks_change:
  assumes "keeps_watch d v w" "\<And>i k. (i, k) \<notin> S \<Longrightarrow> same_at v w i k"
    "\<And>i k. (i, k) \<in> S \<Longrightarrow> watches v d i k \<Longrightarrow> marked w d"
  shows "tracks d v w"
  using assms unfolding tracks_def by blast

lemma keeps_watchI: "v_env w = v_env v \<Longrightarrow> v_wk w = v_wk v \<Longrightarrow> (marked v d \<Longrightarrow> marked w d) \<Longrightarrow> keeps_watch d v w"
  by (simp add: keeps_watch_def v_now_def watchers_def)

section \<open>The operations\<close>

lemma marked_touch_clients:
  "flag_dirty_cas (clients (touch_clients s cs) c) \<longleftrightarrow> c \<in> set cs \<or> flag_dirty_cas (clients s c)"
  by (induction s cs rule: touch_clients.induct) auto

lemma marked_touch: "marked (v_touch v i k) c \<longleftrightarrow> c \<in> set (watchers v i k) \<or> marked v c"
  by (cases "v_wk v i k") (simp_all add: marked_def v_touch_def watchers_def marked_touch_clients)

lemma marked_put [simp]: "marked (v_put v c b) c' = marked v c'"
  by (simp add: marked_def put_def)

lemma marked_same [simp]:
  "marked (v_call v e) c = marked v c" "marked (v_dirty v n) c = marked v c" "marked (v_remember v co i k) c = marked v c"
  "marked (v_dbdel lz v i k) c = marked v c" "marked (v_setttl v i k t) c = marked v c" "marked (v_set v i k a) c = marked v c"
  "marked (v_add v i k a) c = marked v c" "marked (v_expire v i k) c = marked v c" "marked (v_read v i k) c = marked v c"
  "marked (v_rewrite v c'' args) c = marked v c" "marked (v_moved_ttl v c'' i k t) c = marked v c"
  by (simp_all add: marked_def v_rewrite_def v_moved_ttl_def Let_def)

lemma marks_keep [simp]:
  "keeps_watch d v v" "keeps_watch d v (v_call v e)" "keeps_watch d v (v_dirty v n)" "keeps_watch d v (v_put v c b)"
  "keeps_watch d v (v_remember v co i k)" "keeps_watch d v (v_dbdel lz v i k)" "keeps_watch d v (v_setttl v i k t)"
  "keeps_watch d v (v_set v i k a)" "keeps_watch d v (v_add v i k a)" "keeps_watch d v (v_expire v i k)"
  "keeps_watch d v (v_read v i k)" "keeps_watch d v (v_touch v i k)" "keeps_watch d v (v_rewrite v c args)"
  by (rule keeps_watchI; simp add: marked_touch)+

lemma tracks_same:
  assumes "keeps_watch d v w" "v_kv w = v_kv v" "v_ttl w = v_ttl v"
  shows "tracks d v w"
  using assms by (simp add: tracks_def same_at_def)

named_theorems track \<open>operations that track the changes of watched keys\<close>

lemma tracks_basic [track]:
  "tracks d u v \<Longrightarrow> tracks d u (v_call v e)" "tracks d u v \<Longrightarrow> tracks d u (v_dirty v n)" "tracks d u v \<Longrightarrow> tracks d u (v_put v c b)"
  "tracks d u v \<Longrightarrow> tracks d u (v_remember v co i k)" "tracks d u v \<Longrightarrow> tracks d u (v_touch v i k)"
  "tracks d u v \<Longrightarrow> tracks d u (v_rewrite v c args)"
  by (erule tracks_trans, rule tracks_same; simp)+

lemma tracks_expire [track]: "tracks d u v \<Longrightarrow> tracks d u (v_expire v i k)" "tracks d u v \<Longrightarrow> tracks d u (v_read v i k)"
proof -
  have "same_at v (v_expire v i k) j k' \<or> v_expired v j k' \<and> v_kv (v_expire v i k) j k' = None" for j k'
    using ttl_other(2) [of j i k' k v] by (cases "j = i \<and> k' = k") (auto simp: same_at_def v_expire_kv v_expire_def)
  then have "same_at v (v_expire v i k) j k' \<or> outdated v (v_expire v i k) j k'" for j k'
    unfolding outdated_def v_expired_def v_now_def by (fastforce split: option.splits)
  then have e: "tracks d v (v_expire v i k)" by (auto simp: tracks_def)
  then show "tracks d u v \<Longrightarrow> tracks d u (v_expire v i k)" by (rule tracks_trans [rotated])
  have "tracks d (v_expire v i k) (v_read v i k)" by (rule tracks_same [OF keeps_watchI]) simp_all
  with e show "tracks d u v \<Longrightarrow> tracks d u (v_read v i k)" by (meson tracks_trans)
qed

text \<open>A change of one key after which the key is touched, or whose watchers are marked before.\<close>

lemma tracks_one:
  assumes "keeps_watch d v w" "\<And>j k'. (j, k') \<noteq> (i, k) \<Longrightarrow> same_at v w j k'" "watches v d i k \<Longrightarrow> marked w d"
  shows "tracks d v w"
  using assms(1)
proof (rule tracks_change [where S = "{(i, k)}"])
  show "\<And>j k'. (j, k') \<notin> {(i, k)} \<Longrightarrow> same_at v w j k'" using assms(2) by blast
  show "\<And>j k'. (j, k') \<in> {(i, k)} \<Longrightarrow> watches v d j k' \<Longrightarrow> marked w d" using assms(3) by blast
qed

lemma tracks_setkey [track]: "tracks d u v \<Longrightarrow> tracks d u (v_setkey v i k a)"
proof -
  let ?w = "if v_kv (v_expire v i k) i k = None then v_add (v_expire v i k) i k a else v_set (v_expire v i k) i k a"
  have "tracks d (v_expire v i k) (v_touch (v_setttl ?w i k None) i k)"
    by (rule tracks_one [where i = i and k = k]) (auto simp: marked_touch same_at_def watchers_def intro!: keeps_watchI)
  then have "tracks d (v_expire v i k) (v_setkey v i k a)" unfolding v_setkey_def Let_def .
  then show "tracks d u v \<Longrightarrow> tracks d u (v_setkey v i k a)" using tracks_expire(1) tracks_trans by blast
qed

lemma tracks_touched [track]:
  "tracks d u v \<Longrightarrow> tracks d u (v_touch (v_dbdel lz v i k) i k)"
  "tracks d u v \<Longrightarrow> tracks d u (v_touch (v_set v i k a) i k)"
  "tracks d u v \<Longrightarrow> tracks d u (v_touch (v_add v i k a) i k)"
proof -
  have "tracks d v (v_touch (v_dbdel lz v i k) i k)"
    by (rule tracks_one [where i = i and k = k]) (use ttl_other(1) in \<open>auto simp: marked_touch same_at_def watchers_def intro!: keeps_watchI\<close>)
  then show "tracks d u v \<Longrightarrow> tracks d u (v_touch (v_dbdel lz v i k) i k)" by (rule tracks_trans [rotated])
  have "tracks d v (v_touch (v_set v i k a) i k)" "tracks d v (v_touch (v_add v i k a) i k)"
    by (rule tracks_one [where i = i and k = k]; auto simp: marked_touch same_at_def watchers_def intro!: keeps_watchI)+
  then show "tracks d u v \<Longrightarrow> tracks d u (v_touch (v_set v i k a) i k)" "tracks d u v \<Longrightarrow> tracks d u (v_touch (v_add v i k a) i k)"
    by (auto elim: tracks_trans [rotated])
qed

lemma tracks_setttl [track]:
  assumes "tracks d u v" "watches v d i k \<Longrightarrow> marked v d"
  shows "tracks d u (v_setttl v i k t)"
  using assms(1)
proof (rule tracks_trans)
  show "tracks d v (v_setttl v i k t)"
    by (rule tracks_one [where i = i and k = k]) (use assms(2) in \<open>auto simp: same_at_def\<close>)
qed

lemma setkey_marked: "c \<in> set (watchers (v_setkey v i k a) i k) \<Longrightarrow> marked (v_setkey v i k a) c"
  by (simp add: v_setkey_def Let_def marked_touch watchers_def)

lemma watchers_same [simp]:
  "watchers (v_dirty v n) i k = watchers v i k" "watchers (v_call v e) i k = watchers v i k"
  "watchers (v_put v c b) i k = watchers v i k"
  by (simp_all add: watchers_def)

lemma tracks_set_expire [track]:
  assumes "tracks d u v"
  shows "tracks d u (v_setttl (v_dirty (v_setkey v i k a) n) i k t)"
proof (rule tracks_setttl)
  show "tracks d u (v_dirty (v_setkey v i k a) n)" using assms by (simp add: track)
qed (use setkey_marked in simp)

lemma tracks_notify [track]: "tracks d u v \<Longrightarrow> tracks d u (v_notify v e k i)"
  by (simp add: track)

section \<open>The commands\<close>

lemma tracks_loops [track]:
  "tracks d u v \<Longrightarrow> tracks d u (v_mget_loop v c ks)"
  "tracks d u v \<Longrightarrow> tracks d u (fst (v_delkeys lz v i ks n))"
  "tracks d u v \<Longrightarrow> tracks d u (fst (v_exists_loop v i ks n))"
  "tracks d u v \<Longrightarrow> tracks d u (fst (v_touch_loop v i ks n))"
  "tracks d u v \<Longrightarrow> tracks d u (fst (v_msetnx_loop v i ks n))"
  "tracks d u v \<Longrightarrow> tracks d u (v_mset_loop v i ks)"
proof -
  show "tracks d u v \<Longrightarrow> tracks d u (v_mget_loop v c ks)"
    by (induction v c ks rule: v_mget_loop.induct) (auto simp: Let_def track)
  show "tracks d u v \<Longrightarrow> tracks d u (fst (v_delkeys lz v i ks n))"
    by (induction lz v i ks n rule: v_delkeys.induct) (auto simp: Let_def track)
  show "tracks d u v \<Longrightarrow> tracks d u (fst (v_exists_loop v i ks n))"
    by (induction v i ks n rule: v_exists_loop.induct) (auto simp: Let_def track)
  show "tracks d u v \<Longrightarrow> tracks d u (fst (v_touch_loop v i ks n))"
    by (induction v i ks n rule: v_touch_loop.induct) (auto simp: Let_def track)
  show "tracks d u v \<Longrightarrow> tracks d u (fst (v_msetnx_loop v i ks n))"
    by (induction v i ks n rule: v_msetnx_loop.induct) (auto simp: Let_def track)
  show "tracks d u v \<Longrightarrow> tracks d u (v_mset_loop v i ks)"
    by (induction v i ks rule: v_mset_loop.induct) (auto simp: Let_def track)
qed

lemma tracks_string [track]:
  "tracks d v (fst (v_get v c k))" "tracks d v (v_getset v c k b)"
  "tracks d v (v_setGeneric v c nx xx k b e secs ok abort)" "tracks d v (v_setCommand v c k b opts)"
  "tracks d v (v_setrange v c k a b)" "tracks d v (v_getrange v c k a1 a2)" "tracks d v (v_append v c k b)"
  "tracks d v (v_strlen v c k)"  "tracks d v (v_incr v c k n)" "tracks d v (v_incrby v c k a f)"
proof -
  note r = tracks_refl [of d v]
  show get: "tracks d v (fst (v_get v c k))"
    using r by (auto simp: v_get_def Let_def track split: option.splits aval.splits)
  show "tracks d v (v_getset v c k b)"
    using get by (auto simp: v_getset_def Let_def track split: prod.splits)
  show set: "tracks d v (v_setGeneric v c nx xx k b e secs ok abort)" for nx xx e secs ok abort
    using r by (simp add: v_setGeneric_def Let_def track setkey_marked split: option.split)
  show "tracks d v (v_setCommand v c k b opts)"
    using r set by (simp add: v_setCommand_def track split: option.splits)
  show "tracks d v (v_getrange v c k a1 a2)" "tracks d v (v_strlen v c k)"
    using r by (auto simp: v_getrange_def v_strlen_def Let_def track split: option.splits aval.splits)
  show "tracks d v (v_setrange v c k a b)" "tracks d v (v_append v c k b)"
    using r by (auto simp: v_append_def v_setrange_def Let_def track split: option.splits aval.splits)
  show incr: "tracks d v (v_incr v c k n)" for n
    using r by (simp add: v_incr_def Let_def split: option.splits aval.splits) (simp add: track)
  show "tracks d v (v_incrby v c k a f)"
    using r incr by (simp add: v_incrby_def track split: option.split)
qed

lemma tracks_lists [track]:
  "tracks d v (v_mget v c ks)" "tracks d v (v_delGeneric v c lz ks)" "tracks d v (v_exists v c ks)"
  "tracks d v (v_touchCommand v c ks)" "tracks d v (v_mset v c nx ks)"
proof -
  note r = tracks_refl [of d v]
  show "tracks d v (v_mget v c ks)" using r by (simp add: v_mget_def track)
  show "tracks d v (v_delGeneric v c lz ks)" "tracks d v (v_exists v c ks)" "tracks d v (v_touchCommand v c ks)"
    using tracks_loops(2-4) [OF r]
    by (simp_all add: v_delGeneric_def v_exists_def v_touchCommand_def case_prod_beta track)
  show "tracks d v (v_mset v c nx ks)"
    using r tracks_loops(5) [OF r] by (simp add: v_mset_def Let_def case_prod_beta track)
qed
lemma tracks_keys [track]:
  "tracks d v (v_type v c k)" "tracks d v (v_dbsize v c)" "tracks d v (v_ttlGeneric v c k ms)"
  "tracks d v (v_expireGeneric v c k a base secs)"
proof -
  note r = tracks_refl [of d v]
  show "tracks d v (v_type v c k)" "tracks d v (v_dbsize v c)" "tracks d v (v_ttlGeneric v c k ms)"
    using r by (simp_all add: v_type_def v_dbsize_def v_ttlGeneric_def Let_def track split: option.split)
  have del: "tracks d w (v_touch (v_rewrite (v_dirty (v_dbdel lz w i k) 1) c args) i k)" for w lz i args
    by (rule tracks_one [where i = i and k = k])
       (use ttl_other(1) in \<open>auto simp: marked_touch same_at_def watchers_def intro!: keeps_watchI\<close>)
  have set: "tracks d w (v_touch (v_put (v_remember (v_setttl w i k t) (Some c) i k) c b) i k)" for w i t b
    by (rule tracks_one [where i = i and k = k]) (auto simp: marked_touch same_at_def watchers_def intro!: keeps_watchI)
  show "tracks d v (v_expireGeneric v c k a base secs)"
    using r tracks_trans [OF _ del] tracks_trans [OF _ set]
    by (simp add: v_expireGeneric_def Let_def track split: option.split)
qed

lemma v_moved_ttl_at:
  "v_kv (v_moved_ttl v c i k t) = v_kv v" "v_wk (v_moved_ttl v c i k t) = v_wk v" "v_env (v_moved_ttl v c i k t) = v_env v"
  "(j, k') \<noteq> (i, k) \<Longrightarrow> v_ttl (v_moved_ttl v c i k t) j k' = v_ttl v j k'"
  by (auto simp: v_moved_ttl_def Let_def)

lemma tracks_rename [track]: "tracks d v (v_rename v c nx src dst)"
proof -
  let ?i = "v_db v c" and ?lz = "lazyfree_lazy_server_del (v_env v)"
  have r: "tracks d v (v_expire v ?i src)" "tracks d v (v_expire (v_expire v ?i src) ?i dst)"
    using tracks_refl [of d v] by (simp_all add: track)
  have mv: "tracks d w (v_touch (v_touch (v_dbdel ?lz (v_moved_ttl (v_add (if b then v_dbdel ?lz w ?i dst else w) ?i dst a) c ?i dst t)
      ?i src) ?i src) ?i dst)" for w b a t
    by (rule tracks_change [where S = "{(?i, src), (?i, dst)}"])
       (use ttl_other(1) in \<open>auto simp: marked_touch same_at_def watchers_def v_moved_ttl_at intro!: keeps_watchI\<close>)
  show ?thesis
    using r tracks_trans [OF r(2) mv [of _ True]] tracks_trans [OF r(2) mv [of _ False]]
    by (cases "src = dst") (simp_all add: v_rename_def Let_def track split: option.split)
qed
text \<open>\<open>FLUSHDB\<close> and \<open>FLUSHALL\<close> mark the clients that watch a key that exists.\<close>

lemma flush_kv:
  "v_kv (v_emptyDb v e as) i k = (if i < v_n v \<and> (e = -1 \<or> e = int i) then None else v_kv v i k)"
  "v_ttl (v_emptyDb v e as) i k = (if i < v_n v \<and> (e = -1 \<or> e = int i) then None else v_ttl v i k)"
  by (simp_all add: v_emptyDb_def Let_def v_empty_loop_kv v_empty_loop_ttl)

lemma marked_flush:
  "marked (v_emptyDb v e as) d = marked v d" "marked (v_after_flushall v) d = marked v d"
  "marked (v_touch_flush v e cs) d \<longleftrightarrow> marked v d \<or> d \<in> set cs \<and> v_watches v e d (w_keys (clients (v_srv v) d))"
  by (auto simp: marked_def v_emptyDb_def v_after_flushall_def v_setdirty_def v_touch_flush_def Let_def)

lemma tracks_flush1:
  assumes "watch_ok v"
  shows "tracks d v (v_emptyDb (v_touch_flush v e (client_list (v_srv v))) e as)"
proof (rule tracks_change [where S = "{(i, k). (e = -1 \<or> e = int i) \<and> v_kv v i k \<noteq> None}"])
  let ?w = "v_emptyDb (v_touch_flush v e (client_list (v_srv v))) e as"
  show "keeps_watch d v ?w" by (rule keeps_watchI; simp add: marked_flush)
  fix i k
  show "(i, k) \<notin> {(i, k). (e = -1 \<or> e = int i) \<and> v_kv v i k \<noteq> None} \<Longrightarrow> same_at v ?w i k"
    by (auto simp: same_at_def flush_kv)
  assume k: "(i, k) \<in> {(i, k). (e = -1 \<or> e = int i) \<and> v_kv v i k \<noteq> None}" "watches v d i k"
  have m: "(k, i) \<in> set (w_keys (v_fix v d))" using assms(1) k(2) by (simp add: watch_ok_def)
  then have "w_keys (v_fix v d) \<noteq> []" by auto
  then have "d \<in> set (client_list (v_srv v))" using assms(1) by (simp add: watch_ok_def)
  then show "marked ?w d" using k(1) m by (auto simp: marked_flush v_watches_def w_keys_fix)
qed

lemma tracks_flush:
  assumes "watch_ok v"
  shows "tracks d v (v_flushdb v c opts)" "tracks d v (v_flushall v c opts)"
proof -
  show "tracks d v (v_flushdb v c opts)"
    using tracks_flush1 [OF assms] tracks_refl [of d v] by (simp add: v_flushdb_def Let_def track split: option.split)
  have after: "tracks d u (v_after_flushall w)" if "tracks d u w" for u w
    by (rule tracks_trans [OF that], rule tracks_same [OF keeps_watchI]) (simp_all add: marked_flush)
  show "tracks d v (v_flushall v c opts)"
    using tracks_flush1 [OF assms] tracks_refl [of d v]
    by (simp add: v_flushall_def Let_def track after split: option.split)
qed

text \<open>What another client does with its own watched keys and its own transaction.\<close>

lemma tracks_client [track]: "c \<noteq> d \<Longrightarrow> tracks d u v \<Longrightarrow> tracks d u (v_client v c f)"
  by (erule tracks_trans, rule tracks_same [OF keeps_watchI]) (simp_all add: marked_def)

lemma tracks_setwk:
  assumes "d \<in> set (opt_list cs) \<longleftrightarrow> watches v d i k"
  shows "tracks d v (v_setwk v i k cs)"
  using assms by (intro tracks_same) (auto simp: keeps_watch_def v_now_def watchers_def marked_def)

lemma tracks_watch: "c \<noteq> d \<Longrightarrow> tracks d v (v_watch_loop v c ks)"
proof (induction ks arbitrary: v)
  case (Cons k ks)
  have "tracks d v (v_watchKey v c k)"
    using Cons.prems tracks_refl [of d v] tracks_setwk by (auto simp: v_watchKey_def Let_def track watchers_def)
  then show ?case using Cons tracks_trans by auto
qed (simp add: tracks_refl)

lemma tracks_unwatch: "c \<noteq> d \<Longrightarrow> tracks d v (v_unwatch_keys v c wks)"
  unfolding v_unwatch_keys_def
  by (rule tracks_client)
     (auto simp: tracks_def same_at_def keeps_watch_def v_now_def marked_def watchers_def watchers_drop in_set_remove1)

lemma tracks_discardT: "c \<noteq> d \<Longrightarrow> tracks d v (v_discardT v c)"
  unfolding v_discardT_def v_dropq_def
  by (rule tracks_trans [OF _ tracks_unwatch]) (simp_all add: track tracks_refl)

lemma tracks_transaction:
  assumes "c \<noteq> d"
  shows "tracks d v (v_multi v c)" "tracks d v (v_discard v c)" "tracks d v (v_watch v c ks)" "tracks d v (v_unwatchCommand v c)"
    "tracks d v (v_selectCommand v c a)"
  using assms tracks_refl [of d v] tracks_watch [OF assms, of v ks] tracks_unwatch [OF assms, of v] tracks_discardT [OF assms, of v]
  by (simp_all add: v_multi_def v_discard_def v_watch_def v_unwatchCommand_def v_selectCommand_def v_select_def track
      split: option.split)

section \<open>Every command that signals its changes\<close>

definition signals :: "command_proc \<Rightarrow> bool" where
  "signals p \<longleftrightarrow> p \<notin> {P_move, P_persist, P_swapdb}"

theorem basic_tracks:
  assumes "watch_ok v" "signals p" "c \<noteq> d" "v_basic p v c args = Some w"
  shows "tracks d v w"
  using assms(2,4) tracks_flush [OF assms(1), of d c args] tracks_transaction [OF assms(3), of v]
  by (cases p) (auto simp: v_basic_def with_Some signals_def intro: track)

end
