(* ===== verification/Optimistic_Locks.thy ===== *)
theory Optimistic_Locks
  imports Server_Runs Watch_Correct
begin

text \<open>
  Optimistic locking over whole runs of the server: between \<open>WATCH\<close> and \<open>EXEC\<close> of one client, the
  requests of the other clients either leave the watched keys as they are or make the \<open>EXEC\<close> abort.
\<close>

section \<open>Calls\<close>

lemma tracks_lift [track]:
  assumes "tracks d u v" "\<And>c. noprop (clients (f (v_srv v)) c) = noprop (clients (v_srv v) c)" "env (f (v_srv v)) = v_env v"
  shows "tracks d u (v_lift f v)"
  using assms(1)
proof (rule tracks_trans)
  have "flag_dirty_cas (clients (f (v_srv v)) d) = flag_dirty_cas (clients (v_srv v) d)"
    using noprop_fields(7) [OF assms(2)] .
  then show "tracks d v (v_lift f v)" using assms(3) by (intro tracks_same [OF keeps_watchI]) (simp_all add: marked_def)
qed

lemma tracks_call:
  assumes "v_call_with run v c fl = Some w"
    and "\<And>w'. run (cmd_proc (c_cmd (v_fix v c))) (v_before v c) c = Some w' \<Longrightarrow> tracks d (v_before v c) w'"
  shows "tracks d v w"
proof -
  obtain w' where w': "run (cmd_proc (c_cmd (v_fix v c))) (v_before v c) c = Some w'" "w = v_after v c fl w'"
    using assms(1) by (auto simp: v_call_with_def)
  have "tracks d v (v_before v c)" using tracks_refl by (rule tracks_lift) (simp_all add: call_before_frame)
  then have "tracks d v w'" using assms(2) [OF w'(1)] by (rule tracks_trans)
  then show ?thesis unfolding w'(2) v_after_def by (rule tracks_lift) (simp_all add: call_after_frame)
qed

lemma tracks_run:
  assumes "watch_ok v" "signals (cmd_proc (c_cmd (v_fix v c)))" "c \<noteq> d" "v_call_with v_run v c fl = Some w"
  shows "tracks d v w"
  using assms(4)
proof (rule tracks_call)
  fix w' assume "v_run (cmd_proc (c_cmd (v_fix v c))) (v_before v c) c = Some w'"
  then show "tracks d (v_before v c) w'"
    using basic_tracks [of "v_before v c", OF _ assms(2,3)] assms(1) by (simp add: v_run_def before_keeps)
qed

definition queue_signals :: "(redisCommand \<times> sds list) list \<Rightarrow> bool" where
  "queue_signals q \<longleftrightarrow> (\<forall>(cmd, args) \<in> set q. signals (cmd_proc cmd))"

lemma tracks_exec_loop:
  assumes "vinv v c" "queue_ok q" "queue_signals q" "c \<noteq> d" "v_exec_loop v c q mp = Some (w, b)"
  shows "tracks d v w"
  using assms
proof (induction v c q mp arbitrary: w b rule: v_exec_loop.induct)
  case (2 v c cmd args q mp)
  let ?start = "\<not> mp \<and> \<not> (cmd_readonly cmd \<or> cmd_admin cmd)"
  let ?v1 = "v_client v c (\<lambda>cl. cl\<lparr>argv := args, c_cmd := cmd\<rparr>)"
  let ?v2 = "if ?start then v_lift (\<lambda>s. execCommandPropagateMulti s c) ?v1 else ?v1"
  obtain w1 where w1: "v_call_with v_run ?v2 c CMD_CALL_FULL = Some w1" "v_exec_loop w1 c q (mp \<or> ?start) = Some (w, b)"
    using 2(6) unfolding v_exec_loop.simps Let_def by (auto split: option.splits)
  have inv: "vinv ?v2 c" "v_args ?v2 c = args" using 2(2) by (simp_all add: multi_keeps argv_keeps)
  have q: "args_ok (tl args)" "queue_ok q" "queue_signals q" "signals (cmd_proc cmd)"
    using 2(3,4) by (auto simp: queue_ok_def call_ok_def queue_signals_def)
  have cmd: "c_cmd (v_fix ?v2 c) = cmd"
    using lift_keeps(9) [of "\<lambda>s. execCommandPropagateMulti s c" ?v1 c] by (simp add: exec_multi_frame v_fix_client cfix_fields)
  have s1: "tracks d v ?v2" using 2(5) tracks_refl [of d v] by (simp add: track exec_multi_frame)
  have s2: "tracks d ?v2 w1"
    using tracks_run [OF _ _ 2(5) w1(1)] inv(1) cmd q(4) by (simp add: vinv_def)
  have a: "args_ok (tl (v_args ?v2 c))" using q(1) inv(2) by simp
  have "tracks d w1 w"
    by (rule 2(1) [OF refl refl refl w1(1) basic_call_keeps(1) [OF inv(1) a w1(1)] q(2,3) 2(5) w1(2)])
  then show ?case using s1 s2 tracks_trans by blast
qed (simp add: tracks_refl)

lemma tracks_exec:
  assumes "vinv v c" "queue_ok (queue_of v c)" "queue_signals (queue_of v c)" "c \<noteq> d" "v_exec v c = Some w"
  shows "tracks d v w"
proof (cases "flag_multi (v_fix v c) \<and> \<not> (flag_dirty_cas (clients (v_srv v) c) \<or> flag_dirty_exec (v_fix v c))")
  case False
  have "tracks d v (v_discardT (v_put v c b) c)" for b
    using tracks_trans [OF _ tracks_discardT [OF assms(4)]] tracks_refl [of d v] by (simp add: track)
  then show ?thesis
    using False assms(5) tracks_refl [of d v]
    by (auto simp: v_exec_def track handle_monitor_frame split: if_splits)
next
  case True
  let ?v = "v_put (v_unwatchAll v c) c (multibulk_len (length (queue_of v c)))"
  obtain w1 b where w1: "v_exec_loop ?v c (queue_of v c) False = Some (w1, b)"
    using True assms(5) by (auto simp: v_exec_def Let_def split: option.splits)
  have inv: "vinv ?v c" using assms(1) vinv_unwatch by simp
  have "tracks d v ?v" using tracks_unwatch [OF assms(4), of v] by (simp add: track)
  then have s1: "tracks d v w1" using tracks_exec_loop [OF inv assms(2-4) w1] by (rule tracks_trans)
  have "tracks d v (v_discardT (v_client w1 c f) c)" for f
    using tracks_trans [OF _ tracks_discardT [OF assms(4)]] s1 assms(4) by (simp add: track)
  then show ?thesis
    using True assms(5) w1 by (auto simp: v_exec_def Let_def track handle_monitor_frame split: if_splits)
qed

section \<open>Requests\<close>

lemma tracks_proc:
  assumes "vinv v c" "queue_ok (queue_of v c)" "queue_signals (queue_of v c)" "c \<noteq> d"
    "signals (cmd_proc (c_cmd (v_fix v c)))" "v_call_with v_proc v c fl = Some w"
  shows "tracks d v w"
proof (cases "cmd_proc (c_cmd (v_fix v c)) = P_exec")
  case True
  show ?thesis using assms(6)
  proof (rule tracks_call)
    fix w' assume "v_proc (cmd_proc (c_cmd (v_fix v c))) (v_before v c) c = Some w'"
    moreover have "vinv (v_before v c) c" using assms(1) by (simp add: vinv_def before_keeps call_before_frame)
    ultimately show "tracks d (v_before v c) w'"
      using tracks_exec [of "v_before v c" c] assms(2-4) True by (simp add: v_proc_def before_keeps)
  qed
next
  case False
  then have "v_call_with v_run v c fl = Some w" using assms(6) by (simp add: v_call_with_def v_proc_def)
  then show ?thesis using tracks_run assms(1,4,5) by (simp add: vinv_def)
qed

lemma tracks_flagT [track]: "c \<noteq> d \<Longrightarrow> tracks d u v \<Longrightarrow> tracks d u (v_flagT v c)"
  by (simp add: v_flagT_def track)

lemma tracks_known:
  assumes "vinv v c" "queue_ok (queue_of v c)" "queue_signals (queue_of v c)" "c \<noteq> d" "signals (cmd_proc cmd)"
    "c_cmd (v_fix v c) = cmd" "v_known v c cmd = Some (w, b)"
  shows "tracks d v w"
proof -
  have "tracks d v u" if "v_call_with v_proc v c CMD_CALL_FULL = Some u" for u
    using tracks_proc [OF assms(1-4) _ that] assms(5,6) by simp
  then show ?thesis
    using assms(4,7) tracks_refl [of d v] by (auto simp: v_known_def v_queue_def track split: if_splits option.splits)
qed

lemma tracks_process:
  assumes "vinv v c" "queue_ok (queue_of v c)" "queue_signals (queue_of v c)" "c \<noteq> d"
    "\<And>cmd. commands (v_env v) (hd (v_args v c)) = Some cmd \<Longrightarrow> signals (cmd_proc cmd)" "v_process v c = Some (w, b)"
  shows "tracks d v w"
proof -
  obtain a0 rest where a: "v_args v c = a0 # rest" using assms(6) by (cases "v_args v c") (auto simp: v_process_def)
  show ?thesis
  proof (cases "strcasecmp a0 (bs ''quit'') \<noteq> 0 \<and> commands (v_env v) a0 \<noteq> None")
    case False
    then show ?thesis using assms(4,6) tracks_refl [of d v] a by (auto simp: v_process_def track split: if_splits)
  next
    case True
    then obtain cmd where cmd: "commands (v_env v) a0 = Some cmd" by auto
    let ?w = "v_client v c (\<lambda>cl. cl\<lparr>c_cmd := cmd, c_lastcmd := cmd\<rparr>)"
    have k: "v_known ?w c cmd = Some (w, b)" using True assms(6) a cmd by (simp add: v_process_def)
    have "tracks d ?w w"
      by (rule tracks_known [OF _ _ _ assms(4) _ _ k])
         (use assms cmd a in \<open>simp_all add: client_vinv queue_client mstate_fix v_fix_client cfix_fields\<close>)
    moreover have "tracks d v ?w" using tracks_refl [of d v] assms(4) by (simp add: track)
    ultimately show ?thesis using tracks_trans by blast
  qed
qed

definition request_signals :: "redisServer \<Rightarrow> nat \<Rightarrow> sds list \<Rightarrow> bool" where
  "request_signals s c args \<longleftrightarrow>
     (\<forall>cmd. commands (env s) (hd args) = Some cmd \<longrightarrow> signals (cmd_proc cmd)) \<and> queue_signals (mstate (clients s c))"

theorem request_tracks:
  assumes "srv_ok s" "fits_server s c args" "request_signals s c args" "c \<noteq> d"
    "processCommand procs (set_argv s c args) c = Some (s', b)"
  shows "tracks d (view_of s) (view_of s')"
proof -
  let ?v = "v_client (view_of s) c (\<lambda>cl. cl\<lparr>argv := args\<rparr>)"
  have ok: "rep s (view_of s)" "vok (view_of s)" "watch_ok (view_of s)" "queues_ok (view_of s)" "env_ok (env s)"
    using assms(1) by (simp_all add: srv_ok_def)
  have v: "view_of (set_argv s c args) = ?v" using rep_view_of [OF rep_argv_set [OF ok(1)]] .
  have p: "v_process ?v c = Some (view_of s', b)"
    using request_returns [OF assms(1,2), of procs] assms(5) unfolding v by auto
  have env: "v_env ?v = env s" using rep_env [OF ok(1)] by simp
  have "table_ok (view_of s)" using env_table_ok [of "view_of s"] ok(5) rep_env [OF ok(1)] by simp
  then have "vinv (view_of s) c"
    using ok(2,3) assms(2) rep_client_list [OF ok(1)] by (simp add: vinv_def fits_server_def)
  then have inv: "vinv ?v c" by (simp add: client_vinv)
  have q: "queue_of ?v c = mstate (clients s c)" "v_args ?v c = args"
    using rep_client_fields(8) [OF ok(1), of c] by (simp_all add: v_fix_client cfix_fields)
  have "queue_ok (queue_of ?v c)" using ok(4) by (simp add: queues_ok_def queue_client)
  then have "tracks d ?v (view_of s')"
    using tracks_process [OF inv _ _ assms(4) _ p] assms(3) env q by (simp add: request_signals_def)
  moreover have "tracks d (view_of s) ?v" using assms(4) tracks_refl [of d "view_of s"] by (simp add: track)
  ultimately show ?thesis using tracks_trans by blast
qed

section \<open>Runs of the other clients\<close>

text \<open>
  What can happen while the client \<open>d\<close> waits: requests of other clients that signal their changes,
  connections, and changes of the environment in which the clock does not go back.
\<close>

inductive others :: "(command_proc \<Rightarrow> redisServer \<Rightarrow> nat \<Rightarrow> redisServer option) \<Rightarrow> nat \<Rightarrow> redisServer \<Rightarrow> redisServer \<Rightarrow> bool"
  for procs d s where
  none: "others procs d s s"
| connect: "others procs d s t \<Longrightarrow> c \<notin> set (client_list t) \<Longrightarrow> c \<noteq> d \<Longrightarrow> others procs d s (createClient t c fd' limit)"
| environment: "others procs d s t \<Longrightarrow> env_ok e \<Longrightarrow> hash_seed e = hash_seed (env t) \<Longrightarrow>
     v_now (view_of t) \<le> v_now (view_of (t\<lparr>env := e\<rparr>)) \<Longrightarrow> others procs d s (t\<lparr>env := e\<rparr>)"
| request: "others procs d s t \<Longrightarrow> fits_server t c args \<Longrightarrow> request_signals t c args \<Longrightarrow> c \<noteq> d \<Longrightarrow>
     processCommand procs (set_argv t c args) c = Some (t', b) \<Longrightarrow> others procs d s t'"

lemma environment_maps:
  assumes "hash_seed e = hash_seed (env s)"
  shows "v_kv (view_of (s\<lparr>env := e\<rparr>)) = v_kv (view_of s)" "v_ttl (view_of (s\<lparr>env := e\<rparr>)) = v_ttl (view_of s)"
    "v_wk (view_of (s\<lparr>env := e\<rparr>)) = v_wk (view_of s)"
  using assms by (simp_all add: view_of_def kv_of_def ttl_of_def wk_of_def fun_eq_iff)

lemma connect_maps:
  "v_kv (view_of (createClient s c fd' limit)) = v_kv (view_of s)"
  "v_ttl (view_of (createClient s c fd' limit)) = v_ttl (view_of s)"
  "v_wk (view_of (createClient s c fd' limit)) = v_wk (view_of s)"
  "v_env (view_of (createClient s c fd' limit)) = v_env (view_of s)"
  by (simp_all add: view_of_def kv_of_def ttl_of_def wk_of_def createClient_def Let_def fun_eq_iff)

lemma marked_view_of: "marked (view_of s) d = flag_dirty_cas (clients s d)"
  by (simp add: marked_def fix_view_of)

theorem others_track:
  assumes "others procs d s t" "srv_ok s"
  shows "srv_ok t \<and> tracks d (view_of s) (view_of t)"
  using assms
proof (induction rule: others.induct)
  case none
  then show ?case by (simp add: tracks_refl)
next
  case (connect t c fd' limit)
  have "tracks d (view_of t) (view_of (createClient t c fd' limit))"
    by (rule tracks_same [OF keeps_watchI])
       (use connect.hyps(3) in \<open>simp_all add: connect_maps marked_view_of\<close>, simp add: createClient_def Let_def)
  then show ?case using connect tracks_trans connect_ok by blast
next
  case (environment t e)
  have "tracks d (view_of t) (view_of (t\<lparr>env := e\<rparr>))"
    using environment.hyps(3,4) environment_maps [OF environment.hyps(3)]
    by (intro tracks_same) (simp_all add: keeps_watch_def watchers_def marked_view_of)
  then show ?case using environment tracks_trans environment_ok by blast
next
  case (request t c args t' b)
  then show ?case using request_tracks [OF _ request.hyps(2-5)] request_returns [OF _ request.hyps(2), of procs] tracks_trans
    by fastforce
qed

end
