(* ===== verification/Command_Runs.thy ===== *)
theory Command_Runs
  imports Optimistic_Locks
begin

text \<open>
  What a client observes of a command: the output it is sent, and the values and times of the keys. A
  command that runs on a well-formed server returns and has its effect on the view.
\<close>

section \<open>Observations\<close>

abbreviation value_at :: "redisServer \<Rightarrow> nat \<Rightarrow> sds \<Rightarrow> aval option" where
  "value_at s \<equiv> v_kv (view_of s)"

abbreviation ttl_at :: "redisServer \<Rightarrow> nat \<Rightarrow> sds \<Rightarrow> int option" where
  "ttl_at s \<equiv> v_ttl (view_of s)"

abbreviation db_of :: "redisServer \<Rightarrow> nat \<Rightarrow> nat" where
  "db_of s c \<equiv> c_db (clients s c)"

definition sent :: "redisServer \<Rightarrow> nat \<Rightarrow> byte list" where
  "sent s c = buf (clients s c) @ concat (reply (clients s c))"

text \<open>A client whose replies are neither suppressed nor cut off by a pending close.\<close>

definition listens :: "redisServer \<Rightarrow> nat \<Rightarrow> bool" where
  "listens s c \<longleftrightarrow> can_write (clients s c) \<and> \<not> flag_close_after_reply (clients s c)"

definition v_out :: "view \<Rightarrow> nat \<Rightarrow> byte list" where
  "v_out v c = buf (clients (v_srv v) c)"

definition v_listens :: "view \<Rightarrow> nat \<Rightarrow> bool" where
  "v_listens v c \<longleftrightarrow> can_write (v_fix v c) \<and> \<not> flag_close_after_reply (v_fix v c)"

lemma can_write_cong:
  "can_write (cfix cl) = can_write cl" "can_write (client_view cl) = can_write cl"
  "can_write (cl\<lparr>argv := a\<rparr>) = can_write cl"
  by (simp_all add: can_write_def prepareClientToWrite_def cfix_def client_view_def)

lemma v_out_put:
  "v_out (v_put v c b) c' = (if c' = c \<and> v_listens v c then v_out v c @ b else v_out v c')"
  by (auto simp: v_out_def v_put_def v_listens_def put_def v_fix_def can_write_cong) (simp_all add: cfix_def)

lemma v_out_clients: "clients (v_srv w) = clients (v_srv v) \<Longrightarrow> v_out w c = v_out v c"
  by (simp add: v_out_def)

lemma touch_buf: "buf (clients (touch_clients s cs) c) = buf (clients s c)"
  by (induction s cs rule: touch_clients.induct) auto

lemma v_out_simps [simp]:
  "v_out (v_call v e) c = v_out v c" "v_out (v_dirty v n) c = v_out v c" "v_out (v_remember v co i k) c = v_out v c"
  "v_out (v_dbdel lz v i k) c = v_out v c" "v_out (v_setttl v i k t) c = v_out v c" "v_out (v_set v i k a) c = v_out v c"
  "v_out (v_add v i k a) c = v_out v c" "v_out (v_expire v i k) c = v_out v c" "v_out (v_read v i k) c = v_out v c"
  by (rule v_out_clients, simp)+

lemma v_out_more [simp]:
  "v_out (v_touch v i k) c = v_out v c" "v_out (v_rewrite v c'' args) c = v_out v c"
  "v_out (v_moved_ttl v c'' i k t) c = v_out v c" "v_out (v_setkey v i k a) c = v_out v c"
proof -
  show touch: "v_out (v_touch v i k) c = v_out v c" for v
    by (cases "v_wk v i k") (simp_all add: v_out_def v_touch_def touch_buf)
  show "v_out (v_rewrite v c'' args) c = v_out v c" by (simp add: v_out_def v_rewrite_def)
  show "v_out (v_moved_ttl v c'' i k t) c = v_out v c" by (simp add: v_moved_ttl_def Let_def)
  show "v_out (v_setkey v i k a) c = v_out v c" by (simp add: v_setkey_def Let_def touch)
qed

lemma v_listens_fix: "v_fix w c = v_fix v c \<Longrightarrow> v_listens w c = v_listens v c"
  by (simp add: v_listens_def)

lemma v_listens_simps [simp]:
  "v_listens (v_call v e) c = v_listens v c" "v_listens (v_dirty v n) c = v_listens v c"
  "v_listens (v_remember v co i k) c = v_listens v c" "v_listens (v_dbdel lz v i k) c = v_listens v c"
  "v_listens (v_setttl v i k t) c = v_listens v c" "v_listens (v_set v i k a) c = v_listens v c"
  "v_listens (v_add v i k a) c = v_listens v c" "v_listens (v_expire v i k) c = v_listens v c"
  "v_listens (v_read v i k) c = v_listens v c" "v_listens (v_touch v i k) c = v_listens v c"
  "v_listens (v_setkey v i k a) c = v_listens v c" "v_listens (v_put v c' b) c = v_listens v c"
  "v_listens (v_moved_ttl v c' i k t) c = v_listens v c"
  by (rule v_listens_fix, simp add: v_moved_ttl_def Let_def)+

lemma v_listens_rewrite [simp]: "v_listens (v_rewrite v c' args) c = v_listens v c"
  by (auto simp: v_listens_def v_fix_def v_rewrite_def can_write_cong)
     (auto simp: can_write_def prepareClientToWrite_def cfix_def)

lemma view_output: "v_out (view_of s) c = sent s c" "v_listens (view_of s) c = listens s c"
  by (simp_all add: v_out_def v_listens_def sent_def listens_def view_of_def v_fix_def can_write_cong)
     (simp_all add: client_view_def cfix_def)

section \<open>Running a command\<close>

text \<open>The view with the arguments of a request in place.\<close>

abbreviation asked :: "redisServer \<Rightarrow> nat \<Rightarrow> sds list \<Rightarrow> view" where
  "asked s c args \<equiv> v_client (view_of s) c (\<lambda>cl. cl\<lparr>argv := args\<rparr>)"

lemma asked_simps [simp]:
  "v_out (asked s c args) c' = sent s c'" "v_listens (asked s c args) c' = listens s c'"
  "v_db (asked s c args) c' = db_of s c'" "v_args (asked s c args) c = args"
proof -
  show "v_out (asked s c args) c' = sent s c'" using view_output(1) [of s c'] by (auto simp: v_out_def)
  show "v_listens (asked s c args) c' = listens s c'"
    using view_output(2) [of s c'] by (auto simp: v_listens_def v_fix_client can_write_cong v_fix_def) (simp_all add: cfix_def)
  show "v_db (asked s c args) c' = db_of s c'" "v_args (asked s c args) c = args"
    by (simp_all add: v_fix_client cfix_fields fix_view_of)
qed

text \<open>The limits a command relies on; after it the tables have room for \<open>n\<close> more entries.\<close>

definition ready :: "redisServer \<Rightarrow> nat \<Rightarrow> command_proc \<Rightarrow> sds list \<Rightarrow> nat \<Rightarrow> bool" where
  "ready s c p args n \<longleftrightarrow>
     c \<in> set (client_list s) \<and> args_ok args \<and> offset_ok p args \<and> room (view_of s) (n + length args)"

lemma srv_okD:
  assumes "srv_ok s"
  shows "rep s (view_of s)" "vok (view_of s)" "watch_ok (view_of s)" "queues_ok (view_of s)" "env_ok (env s)" "table_ok (view_of s)"
  using assms env_table_ok [of "view_of s"] rep_env [of s "view_of s"] by (simp_all add: srv_ok_def)

theorem run_command:
  assumes "srv_ok s" "ready s c p args n" "v_basic p (asked s c (a0 # args)) c args = Some w"
  shows "\<exists>s'. basic_proc procs p (set_argv s c (a0 # args)) c = Some s' \<and> view_of s' = w \<and> srv_ok s' \<and> room w n \<and>
     client_list s' = client_list s"
proof -
  let ?v = "asked s c (a0 # args)"
  note ok = srv_okD [OF assms(1)]
  have r: "rep (set_argv s c (a0 # args)) ?v" by (rule rep_argv_set [OF ok(1)])
  have inv: "vok ?v" "watch_ok ?v" using ok(2,3) by (simp_all add: client_keeps)
  have t: "table_ok ?v" using ok(6) table_ok_env [of ?v "view_of s"] by simp
  have rm: "room ?v m = room (view_of s) m" for m by (simp add: room_def v_fits_def v_wfits_def)
  have a: "args_ok args" "offset_ok p args" "c \<in> set (client_list s)" using assms(2) by (simp_all add: ready_def)
  have room: "room ?v (n + length args)" using assms(2) rm by (simp add: ready_def)
  have "wp (basic_proc procs p (set_argv s c (a0 # args)) c) (\<lambda>s'. rep s' w)"
    by (rule basic_proc_ref [OF r inv _ a(1) _ t a(2) assms(3)]) (use room room_le in \<open>auto\<close>)
  then obtain s' where s': "basic_proc procs p (set_argv s c (a0 # args)) c = Some s'" "rep s' w" by (auto simp: wp_def)
  have w: "view_of s' = w" by (rule rep_view_of [OF s'(2)])
  have cl: "c \<in> set (client_list (v_srv ?v))" using a(3) rep_client_list [OF ok(1)] by simp
  have keep: "vok w" "watch_ok w" using basic_keeps [OF inv a(1) cl assms(3)] by simp_all
  have "queues_ok ?v" using ok(4) by (subst queues_ok_same) (simp_all add: queue_client)
  then have q: "queues_ok w" using queues_ok_step [OF basic_queue [OF inv(1) a(1) assms(3)]] by blast
  have env: "env s' = env s"
    using basic_frame(2) [OF inv(1) a(1) assms(3)] rep_env [OF s'(2)] rep_env [OF ok(1)] by simp
  have "room w n" by (rule basic_room [OF inv(1) a(1) assms(3) rep_vfin [OF r] rep_wfin [OF r] room])
  moreover have "client_list s' = client_list s"
    using basic_frame(3) [OF inv(1) a(1) assms(3)] rep_client_list [OF s'(2)] rep_client_list [OF ok(1)] by simp
  ultimately show ?thesis using s' w keep q env ok(5) by (auto simp: srv_ok_def)
qed

text \<open>A command on keys also leaves the clients, the environment and all other keys alone.\<close>

lemma kept_listens:
  assumes "kept (v_fix w c) = kept (v_fix v c)"
  shows "v_listens w c = v_listens v c"
proof -
  have "can_write (kept cl) = can_write cl" "flag_close_after_reply (kept cl) = flag_close_after_reply cl" for cl
    by (simp_all add: can_write_def prepareClientToWrite_def kept_def cfix_def)
  then show ?thesis using assms unfolding v_listens_def by metis
qed

theorem run_key_command:
  assumes "srv_ok s" "ready s c p args n" "on_keys p" "v_basic p (asked s c (a0 # args)) c args = Some w"
  shows "\<exists>s'. basic_proc procs p (set_argv s c (a0 # args)) c = Some s' \<and> view_of s' = w \<and> srv_ok s' \<and> room w n \<and>
     client_list s' = client_list s \<and> env s' = env s \<and> (\<forall>c'. db_of s' c' = db_of s c' \<and> listens s' c' = listens s c') \<and>
     (\<forall>i k. k \<notin> set args \<longrightarrow> value_at s' i k = value_at s i k \<and> ttl_at s' i k = ttl_at s i k)"
proof -
  let ?v = "asked s c (a0 # args)"
  obtain s' where s': "basic_proc procs p (set_argv s c (a0 # args)) c = Some s'" "view_of s' = w" "srv_ok s'" "room w n"
      "client_list s' = client_list s" using run_command [OF assms(1,2,4), of procs] by blast
  have v: "vok ?v" "args_ok args" using srv_okD(2) [OF assms(1)] assms(2) by (simp_all add: client_keeps ready_def)
  note steps = basic_vsteps [OF v assms(3,4)]
  have "env s' = env s"
    using vsteps_frame(2) [OF steps] rep_env [OF srv_okD(1) [OF s'(3)]] rep_env [OF srv_okD(1) [OF assms(1)]] s'(2) by simp
  moreover have "db_of s' c' = db_of s c' \<and> listens s' c' = listens s c'" for c'
    using vsteps_frame(5) [OF steps, of c'] kept_fields(1) [of "v_fix w c'" "v_fix ?v c'"] kept_listens [of w c' ?v]
      view_output(2) [of s' c'] s'(2) fix_view_of(1) [of s' c'] by (simp add: cfix_fields)
  moreover have "value_at s' i k = value_at s i k \<and> ttl_at s' i k = ttl_at s i k" if "k \<notin> set args" for i k
    using vsteps_other_keys [OF steps that] s'(2) by simp
  ultimately show ?thesis using s' by blast
qed

end
