(* ===== verification/Sample_Server.thy ===== *)
theory Sample_Server
  imports Command_Runs
begin

text \<open>
  A concrete server: a master with 16 empty databases, the commands of the table and two connected
  clients.
\<close>

definition sample_lookup :: "sds \<Rightarrow> redisCommand option" where
  "sample_lookup name =
     (case find (\<lambda>e. strcasecmp (bs (fst e)) name = 0) redisCommandTable of None \<Rightarrow> None | Some e \<Rightarrow> entry_cmd e)"

definition no_command :: redisCommand where
  "no_command = table_entry (''none'', P_other 0, 0, '''', False)"

definition sample_env :: server_env where
  "sample_env =
     \<lparr>current_client = None, master = None, mstime = 1000000, unixtime = 1000, lruclock = 1000, hz = 10, loading = False,
      lua_caller = None, lua_time_start = 0, masterhost = False, repl_slave_ro = True, cluster_enabled = False,
      lazyfree_lazy_expire = False, lazyfree_lazy_server_del = False, maxmemory = 0, policy_lfu = False,
      policy_no_shared_integers = False, lfu_log_factor = 10, lfu_decay_time = 1, rdb_child = False, aof_child = False,
      saveparamslen = 0, aof_on = False, repl_backlog = False, monitors = False, requirepass = False,
      stop_writes_on_bgsave_err = True, lastbgsave_ok = True, aof_last_write_ok = True, aof_last_write_error = '''',
      repl_min_slaves_to_write = 0, repl_min_slaves_max_lag = 10, repl_good_slaves_count = 0, repl_connected = False,
      repl_serve_stale_data = True, lua_timedout = False, commands = sample_lookup, orig_commands = sample_lookup,
      delCommand_ptr = no_command, multiCommand_ptr = no_command, mt_name = (\<lambda>_. ''''), hash_seed = replicate 16 0,
      dict_can_resize = True, rands = (\<lambda>n. n), refcount_at = (\<lambda>_ _. 1), argv_refcount = (\<lambda>_. 1),
      free_effort = (\<lambda>_ _. 1)\<rparr>"

definition idle_client :: client where
  "idle_client =
     \<lparr>c_db = 0, argv = [], c_cmd = no_command, c_lastcmd = no_command, flag_master = False, flag_multi = False,
      flag_dirty_cas = False, flag_dirty_exec = False, flag_lua = False, flag_module = False, flag_reply_off = False,
      flag_reply_skip = False, flag_master_force_reply = False, flag_close_after_reply = False, flag_close_asap = False,
      flag_pending_write = False, flag_force_aof = False, flag_force_repl = False, flag_prevent_aof_prop = False,
      flag_prevent_repl_prop = False, flag_pubsub = False, authenticated = False, fd = 0, repl_may_write = True, mstate = [],
      w_keys = [], buf = [], reply = [], reply_bytes = 0, output_limit = (\<lambda>_. False)\<rparr>"

definition sample_on :: "server_env \<Rightarrow> redisServer" where
  "sample_on e = createClient (createClient (initServer e 16 (\<lambda>_. idle_client)) 1 7 (\<lambda>_. False)) 2 8 (\<lambda>_. False)"

definition sample_procs :: "command_proc \<Rightarrow> redisServer \<Rightarrow> nat \<Rightarrow> redisServer option" where
  "sample_procs p s c = None"
lemma sample_lookup_table: "sample_lookup name = Some cmd \<Longrightarrow> \<exists>e \<in> set redisCommandTable. entry_cmd e = Some cmd"
  by (auto simp: sample_lookup_def find_Some_iff split: option.splits intro: nth_mem)

lemma table_cmds:
  assumes "populateCommandTable = Some tab" "e \<in> set redisCommandTable" "entry_cmd e = Some cmd"
  shows "cmd \<in> set tab"
proof -
  have "tab = map (the \<circ> entry_cmd) redisCommandTable"
    using assms(1) populateCommandTable_entries(1) by (rule option.inject [THEN iffD1, OF trans [OF sym]])
  moreover have "(the \<circ> entry_cmd) e = cmd" using assms(3) by simp
  ultimately show ?thesis using assms(2) by (metis imageI set_map)
qed

lemma sample_lookup_entry:
  assumes "(name, p, arity, flags, keys) \<in> set redisCommandTable"
  shows "sample_lookup (bs name) = entry_cmd (name, p, arity, flags, keys)"
proof -
  let ?e = "(name, p, arity, flags, keys)"
  have "find (\<lambda>e. strcasecmp (bs (fst e)) (bs name) = 0) redisCommandTable = Some ?e"
  proof -
    have eq: "strcasecmp (bs (fst e)) (bs name) = 0 \<longleftrightarrow> fst e = name" if "e \<in> set redisCommandTable" for e
      using that assms table_plain strcasecmp_plain by (fastforce simp: list_all_iff)
    then have "find (\<lambda>e. strcasecmp (bs (fst e)) (bs name) = 0) redisCommandTable = find (\<lambda>e. fst e = name) redisCommandTable"
      by (intro find_cong) simp_all
    also have "\<dots> = Some ?e"
    proof (cases "find (\<lambda>e. fst e = name) redisCommandTable")
      case None
      then show ?thesis using assms by (auto simp: find_None_iff)
    next
      case (Some e)
      then have "e \<in> set redisCommandTable" "fst e = name" by (auto simp: find_Some_iff)
      moreover have "inj_on fst (set redisCommandTable)" using table_distinct by (simp add: distinct_map)
      ultimately have "e = ?e" using assms inj_onD [of fst "set redisCommandTable" e ?e] by simp
      then show ?thesis using Some by simp
    qed
    finally show ?thesis .
  qed
  then show ?thesis by (simp add: sample_lookup_def)
qed

lemma sample_lookup_some:
  assumes "e \<in> set redisCommandTable" "strcasecmp (bs (fst e)) name = 0"
  shows "sample_lookup name \<noteq> None"
proof (cases "find (\<lambda>e. strcasecmp (bs (fst e)) name = 0) redisCommandTable")
  case None
  then show ?thesis using assms unfolding find_None_iff by blast
next
  case (Some e')
  then have "e' \<in> set redisCommandTable" by (auto simp: find_Some_iff)
  then show ?thesis using Some populateCommandTable_entries(2) by (simp add: sample_lookup_def)
qed

lemma sample_lookups:
  "sample_lookup (bs ''get'') = Some \<lparr>cmd_name = ''get'', cmd_proc = P_get, cmd_arity = 2, cmd_write = False,
     cmd_readonly = True, cmd_admin = False, cmd_denyoom = False, cmd_loading = False, cmd_stale = False,
     cmd_skip_monitor = False, cmd_fast = True, cmd_module = False, cmd_has_keys = True\<rparr>"
  "sample_lookup (bs ''set'') = Some \<lparr>cmd_name = ''set'', cmd_proc = P_set, cmd_arity = -3, cmd_write = True,
     cmd_readonly = False, cmd_admin = False, cmd_denyoom = True, cmd_loading = False, cmd_stale = False,
     cmd_skip_monitor = False, cmd_fast = False, cmd_module = False, cmd_has_keys = True\<rparr>"
  "sample_lookup (bs ''multi'') = Some \<lparr>cmd_name = ''multi'', cmd_proc = P_multi, cmd_arity = 1, cmd_write = False,
     cmd_readonly = False, cmd_admin = False, cmd_denyoom = False, cmd_loading = False, cmd_stale = False,
     cmd_skip_monitor = False, cmd_fast = True, cmd_module = False, cmd_has_keys = False\<rparr>"
  "sample_lookup (bs ''watch'') = Some \<lparr>cmd_name = ''watch'', cmd_proc = P_watch, cmd_arity = -2, cmd_write = False,
     cmd_readonly = False, cmd_admin = False, cmd_denyoom = False, cmd_loading = False, cmd_stale = False,
     cmd_skip_monitor = False, cmd_fast = True, cmd_module = False, cmd_has_keys = True\<rparr>"
proof -
  have "(''get'', P_get, 2, ''rF'', True) \<in> set redisCommandTable" "(''set'', P_set, -3, ''wm'', True) \<in> set redisCommandTable"
    "(''multi'', P_multi, 1, ''sF'', False) \<in> set redisCommandTable" "(''watch'', P_watch, -2, ''sF'', True) \<in> set redisCommandTable"
    by (simp_all add: redisCommandTable_def)
  note e = this [THEN sample_lookup_entry]
  show "sample_lookup (bs ''get'') = Some \<lparr>cmd_name = ''get'', cmd_proc = P_get, cmd_arity = 2, cmd_write = False,
     cmd_readonly = True, cmd_admin = False, cmd_denyoom = False, cmd_loading = False, cmd_stale = False,
     cmd_skip_monitor = False, cmd_fast = True, cmd_module = False, cmd_has_keys = True\<rparr>"
    "sample_lookup (bs ''set'') = Some \<lparr>cmd_name = ''set'', cmd_proc = P_set, cmd_arity = -3, cmd_write = True,
     cmd_readonly = False, cmd_admin = False, cmd_denyoom = True, cmd_loading = False, cmd_stale = False,
     cmd_skip_monitor = False, cmd_fast = False, cmd_module = False, cmd_has_keys = True\<rparr>"
    "sample_lookup (bs ''multi'') = Some \<lparr>cmd_name = ''multi'', cmd_proc = P_multi, cmd_arity = 1, cmd_write = False,
     cmd_readonly = False, cmd_admin = False, cmd_denyoom = False, cmd_loading = False, cmd_stale = False,
     cmd_skip_monitor = False, cmd_fast = True, cmd_module = False, cmd_has_keys = False\<rparr>"
    "sample_lookup (bs ''watch'') = Some \<lparr>cmd_name = ''watch'', cmd_proc = P_watch, cmd_arity = -2, cmd_write = False,
     cmd_readonly = False, cmd_admin = False, cmd_denyoom = False, cmd_loading = False, cmd_stale = False,
     cmd_skip_monitor = False, cmd_fast = True, cmd_module = False, cmd_has_keys = True\<rparr>"
    unfolding e by (simp_all add: entry_cmd_def table_entry_def parse_flag_def)
qed

lemma sample_delete: "sample_lookup (bs ''DEL'') \<noteq> None" "sample_lookup (bs ''UNLINK'') \<noteq> None"
proof -
  have "(''del'', P_del, -2, ''w'', True) \<in> set redisCommandTable" "(''unlink'', P_unlink, -2, ''wF'', True) \<in> set redisCommandTable"
    by (simp_all add: redisCommandTable_def)
  moreover have "strcasecmp (bs ''del'') (bs ''DEL'') = 0" "strcasecmp (bs ''unlink'') (bs ''UNLINK'') = 0" by code_simp+
  ultimately show "sample_lookup (bs ''DEL'') \<noteq> None" "sample_lookup (bs ''UNLINK'') \<noteq> None"
    using sample_lookup_some by fastforce+
qed

lemma sample_env_ok:
  assumes "commands e = sample_lookup" "orig_commands e = sample_lookup" "\<not> cluster_enabled e" "maxmemory e = 0"
  shows "env_ok e"
proof -
  have "\<forall>name cmd. commands e name = Some cmd \<longrightarrow> cmd \<in> set (map (the \<circ> entry_cmd) redisCommandTable)"
    using assms(1) sample_lookup_table table_cmds [OF populateCommandTable_entries(1)] by metis
  then show ?thesis
    using assms sample_delete populateCommandTable_entries(1) unfolding env_ok_def by auto
qed

lemma sample_fields [simp]:
  "commands sample_env = sample_lookup" "orig_commands sample_env = sample_lookup" "\<not> cluster_enabled sample_env"
  "maxmemory sample_env = 0" "\<not> loading sample_env" "\<not> masterhost sample_env" "mstime sample_env = 1000000"
  "lua_caller sample_env = None" "hash_seed sample_env = replicate 16 0" "\<not> requirepass sample_env"
  by (simp_all add: sample_env_def)

lemma sample_on_fields [simp]:
  "env (sample_on e) = e" "client_list (sample_on e) = [1, 2]" "length (dbs (sample_on e)) = 16" "db_of (sample_on e) c = 0"
  "flag_multi (clients (sample_on e) c) = False" "flag_dirty_cas (clients (sample_on e) c) = False"
  "flag_dirty_exec (clients (sample_on e) c) = False" "mstate (clients (sample_on e) c) = []"
  "w_keys (clients (sample_on e) c) = []" "authenticated (clients (sample_on e) c) = False"
  "flag_master (clients (sample_on e) c) = False"
  by (auto simp: sample_on_def createClient_def initServer_def idle_client_def Let_def)

lemma sample_listens [simp]: "listens (sample_on e) (Suc 0)" "listens (sample_on e) 2"
  by (auto simp: listens_def sample_on_def createClient_def initServer_def idle_client_def Let_def can_write_def
      prepareClientToWrite_def)

lemma sample_maps [simp]:
  "value_at (sample_on e) i k = None" "ttl_at (sample_on e) i k = None" "v_wk (view_of (sample_on e)) i k = None"
  "v_n (view_of (sample_on e)) = 16"
  by (simp_all add: view_of_def sample_on_def createClient_def initServer_def kv_of_def ttl_of_def wk_of_def new_db_def
      dict_empty_ok Let_def)

lemma sample_reachable: "env_ok e \<Longrightarrow> reachable procs (sample_on e)"
  unfolding sample_on_def
  by (intro reachable.connect reachable.start) (simp_all add: idle_client_def createClient_def initServer_def Let_def)

lemma sample_ok [simp]: "reachable procs (sample_on sample_env)" "srv_ok (sample_on sample_env)"
  using sample_env_ok [of sample_env] sample_reachable reachable_ok by auto

lemma sample_dom [simp]: "dom (v_kv (view_of (sample_on e)) i) = {}" "dom (v_wk (view_of (sample_on e)) i) = {}"
  by auto

lemma sample_room [simp]: "n < 2 ^ 58 \<Longrightarrow> room (view_of (sample_on e)) n"
  by (simp add: room_def v_fits_def v_wfits_def)

text \<open>The server after a \<open>SET\<close> of the first client.\<close>

definition sample_set :: "server_env \<Rightarrow> sds \<Rightarrow> sds \<Rightarrow> redisServer" where
  "sample_set e k a = the (setCommand (set_argv (sample_on e) 1 [bs ''set'', k, a]) 1)"

lemma sample_set_ok:
  assumes "env_ok e" "length k \<le> 512 * 1024 * 1024" "length a \<le> 512 * 1024 * 1024"
  shows "srv_ok (sample_set e k a)" "value_at (sample_set e k a) i k' = (if i = 0 \<and> k' = k then Some (AStr a) else None)"
    "ttl_at (sample_set e k a) i k' = None" "client_list (sample_set e k a) = [1, 2]" "env (sample_set e k a) = e"
    "db_of (sample_set e k a) c = 0" "listens (sample_set e k a) 1" "listens (sample_set e k a) 2"
    "n < 2 ^ 57 \<Longrightarrow> room (view_of (sample_set e k a)) n" "length (dbs (sample_set e k a)) = 16"
proof -
  let ?s = "sample_on e" and ?v = "asked (sample_on e) 1 [bs ''set'', k, a]"
  have s: "srv_ok ?s" using sample_reachable [OF assms(1)] reachable_ok by blast
  have r: "ready ?s 1 P_set [k, a] (2 ^ 57)" using assms by (simp add: ready_def args_ok_def offset_ok_def)
  obtain w where w: "v_basic P_set ?v 1 [k, a] = Some w" "w = v_setCommand ?v 1 k a []"
    by (simp add: v_basic_def with2_def)
  obtain s' where s': "setCommand (set_argv ?s 1 [bs ''set'', k, a]) 1 = Some s'" "view_of s' = w" "srv_ok s'"
      "room w (2 ^ 57)" "client_list s' = [1, 2]" "env s' = e" "\<forall>c'. db_of s' c' = 0 \<and> listens s' c' = listens ?s c'"
      "\<forall>i k'. k' \<notin> {k, a} \<longrightarrow> value_at s' i k' = None \<and> ttl_at s' i k' = None"
    using run_key_command [OF s r _ w(1), of sample_procs] by (auto simp: on_keys_def basic_proc_def)
  have e: "sample_set e k a = s'" using s'(1) by (simp add: sample_set_def)
  have exp: "v_expired (asked (sample_on e) c args) i k' = False" for c args i k' by (simp add: v_expired_def)
  have w': "v_kv w i k' = (if i = 0 \<and> k' = k then Some (AStr a) else None)" "v_ttl w i k' = None" for i k'
    unfolding w(2)
    by (auto simp: v_setCommand_def v_setGeneric_def no_options_def Let_def) 
       (auto simp: v_setkey_def v_expire_def exp Let_def)
  show "srv_ok (sample_set e k a)" "value_at (sample_set e k a) i k' = (if i = 0 \<and> k' = k then Some (AStr a) else None)"
    "ttl_at (sample_set e k a) i k' = None" "client_list (sample_set e k a) = [1, 2]" "env (sample_set e k a) = e"
    "db_of (sample_set e k a) c = 0" "listens (sample_set e k a) 1" "listens (sample_set e k a) 2"
    using s' w' e by simp_all
  have "v_n w = 16" unfolding w(2) by (simp add: v_setCommand_def v_setGeneric_def no_options_def Let_def)
  then show "length (dbs (sample_set e k a)) = 16" using rep_n [OF srv_okD(1) [OF s'(3)]] s'(2) e by simp
  show "n < 2 ^ 57 \<Longrightarrow> room (view_of (sample_set e k a)) n" using s'(2,4) e room_le [of w "2 ^ 57" n] by simp
qed

end
