(* ===== verification/Command_Properties.thy ===== *)
theory Command_Properties
  imports Sample_Server
begin

text \<open>
  Properties of single commands, as a client sees them: what a command answers and what it does to the
  values and times of the keys, on any well-formed server.
\<close>

section \<open>Values and answers\<close>

text \<open>The value of a key for a command that writes: on a master, a key whose time has passed has none.\<close>

definition live_at :: "redisServer \<Rightarrow> nat \<Rightarrow> sds \<Rightarrow> aval option" where
  "live_at s i k = (if v_expired (view_of s) i k \<and> \<not> masterhost (env s) then None else value_at s i k)"

definition answer :: "redisServer \<Rightarrow> nat \<Rightarrow> byte list \<Rightarrow> byte list" where
  "answer s c b = sent s c @ (if listens s c then b else [])"

lemma view_env [simp]: "v_env (view_of s) = env s"
  by (simp add: view_of_def)

lemma expired_asked [simp]: "v_expired (asked s c args) i k = v_expired (view_of s) i k"
  by (simp add: v_expired_def v_now_def split: option.split)

lemma live_asked: "v_kv (v_expire (asked s c args) i k) i k = live_at s i k"
  by (simp add: v_expire_kv live_at_def)

lemma expire_ttl: "v_kv (v_expire v i k) i k \<noteq> None \<Longrightarrow> v_expire v i k = v"
  by (auto simp: v_expire_def split: if_splits)

lemma out_answer:
  "v_out (v_put v c b) c = v_out v c @ (if v_listens v c then b else [])"
  by (simp add: v_out_put)

lemma out_store [simp]:
  "v_out (if b then v_add v i k a else v_set v i k a) c = v_out v c"
  "v_listens (if b then v_add v i k a else v_set v i k a) c = v_listens v c"
  by simp_all

lemma not_expired: "v_ttl v i k = None \<Longrightarrow> \<not> v_expired v i k"
  by (simp add: v_expired_def)

lemma visible_live: "\<not> v_expired v i k \<Longrightarrow> v_visible v i k = v_kv v i k"
  by (simp add: v_visible_def v_hidden_def v_expire_def)

section \<open>SET and GET\<close>

lemma set_effect:
  assumes "srv_ok s" "ready s c P_set [k, a] n"
  shows "\<exists>s'. setCommand (set_argv s c [x, k, a]) c = Some s' \<and> srv_ok s' \<and> room (view_of s') n \<and>
     client_list s' = client_list s \<and> env s' = env s \<and> db_of s' c = db_of s c \<and> sent s' c = answer s c shared_ok \<and>
     value_at s' (db_of s c) k = Some (AStr a) \<and> ttl_at s' (db_of s c) k = None"
proof -
  let ?v = "asked s c [x, k, a]"
  let ?w = "v_setCommand ?v c k a []"
  have b: "v_basic P_set ?v c [k, a] = Some ?w" by (simp add: v_basic_def with2_def)
  obtain s' where s': "setCommand (set_argv s c [x, k, a]) c = Some s'" "view_of s' = ?w" "srv_ok s'" "room ?w n"
      "client_list s' = client_list s" "env s' = env s" "db_of s' c = db_of s c"
    using run_key_command [OF assms _ b, of sample_procs] by (auto simp: on_keys_def basic_proc_def)
  have "sent s' c = answer s c shared_ok"
    using view_output(1) [of s' c] unfolding s'(2) answer_def
    by (simp add: v_setCommand_def v_setGeneric_def no_options_def Let_def out_answer)
  moreover have "value_at s' (db_of s c) k = Some (AStr a)" "ttl_at s' (db_of s c) k = None"
    unfolding s'(2) by (simp_all add: v_setCommand_def v_setGeneric_def no_options_def Let_def) (simp add: v_setkey_def Let_def)
  ultimately show ?thesis using s' by auto
qed

text \<open>
  C8. A value that was set is the value that is read: after \<open>SET\<close> of a key, which answers \<open>OK\<close>, a \<open>GET\<close>
  of the key answers the same bytes, whatever the key held before and whatever the bytes are.
\<close>

theorem set_get_roundtrip:
  assumes "srv_ok s" "ready s c P_set [k, a] 1"
  shows "\<exists>s1 s2. setCommand (set_argv s c [x, k, a]) c = Some s1 \<and> sent s1 c = answer s c shared_ok \<and>
     getCommand (set_argv s1 c [y, k]) c = Some s2 \<and> sent s2 c = answer s1 c (bulk_reply a)"
proof -
  obtain s1 where s1: "setCommand (set_argv s c [x, k, a]) c = Some s1" "srv_ok s1" "room (view_of s1) 1"
      "client_list s1 = client_list s" "db_of s1 c = db_of s c" "sent s1 c = answer s c shared_ok"
      "value_at s1 (db_of s c) k = Some (AStr a)" "ttl_at s1 (db_of s c) k = None"
    using set_effect [OF assms] by blast
  let ?v = "asked s1 c [y, k]"
  have b: "v_basic P_get ?v c [k] = Some (fst (v_get ?v c k))" by (simp add: v_basic_def with1_def)
  have r: "ready s1 c P_get [k] 0" using assms(2) s1(3,4) by (simp add: ready_def args_ok_def offset_ok_def)
  obtain s2 where s2: "getCommand (set_argv s1 c [y, k]) c = Some s2" "view_of s2 = fst (v_get ?v c k)"
    using run_command [OF s1(2) r b, of sample_procs] by (auto simp: basic_proc_def)
  have "v_visible ?v (db_of s c) k = Some (AStr a)"
    using s1(7,8) by (subst visible_live) (simp_all add: not_expired)
  then have "sent s2 c = answer s1 c (bulk_reply a)"
    using view_output(1) [of s2 c] s1(5) unfolding s2(2) answer_def by (simp add: v_get_def Let_def out_answer)
  then show ?thesis using s1 s2 by blast
qed

theorem set_get_roundtrip_witness:
  "\<exists>s1 s2. setCommand (set_argv (sample_on sample_env) 1 [bs ''SET'', bs ''k'', bs ''v'']) 1 = Some s1 \<and>
     sent s1 1 = answer (sample_on sample_env) 1 shared_ok \<and>
     getCommand (set_argv s1 1 [bs ''GET'', bs ''k'']) 1 = Some s2 \<and> sent s2 1 = answer s1 1 (bulk_reply (bs ''v''))"
  by (rule set_get_roundtrip [OF sample_ok(2)]) (simp add: ready_def args_ok_def offset_ok_def bs_def)

section \<open>Counters\<close>

text \<open>A key counts as \<open>n\<close>: it holds the decimal representation of \<open>n\<close>, or it is absent and \<open>n\<close> is 0.\<close>

definition counter_at :: "redisServer \<Rightarrow> nat \<Rightarrow> sds \<Rightarrow> int \<Rightarrow> bool" where
  "counter_at s i k n \<longleftrightarrow>
     (case live_at s i k of None \<Rightarrow> n = 0 | Some (AStr b) \<Rightarrow> string2ll b = Some n | Some (AObj _) \<Rightarrow> False)"

lemma incr_effect:
  assumes "counter_at s (db_of s c) k n" "int_fits 8 d" "view_of s' = v_incr (asked s c args) c k d"
  shows "if int_fits 8 (n + d)
     then value_at s' (db_of s c) k = Some (AStr (repr (n + d))) \<and> sent s' c = answer s c (int_reply (n + d))
     else value_at s' (db_of s c) k = live_at s (db_of s c) k \<and> sent s' c = answer s c overflow"
proof -
  let ?v = "asked s c args" and ?i = "db_of s c"
  define old where "old = live_at s ?i k"
  have old: "v_kv (v_expire ?v ?i k) ?i k = old" using live_asked by (simp add: old_def)
  have n: "(case old of None \<Rightarrow> Some (Some 0) | Some (AStr b) \<Rightarrow> Some (string2ll b) | Some (AObj x) \<Rightarrow> None) = Some (Some n)"
    using assms(1) by (auto simp: counter_at_def old_def split: option.splits aval.splits)
  have fits: "int_fits 8 n"
    using assms(1) string2ll_repr_inv by (auto simp: counter_at_def int_fits_def split: option.splits aval.splits)
  have ok: "(d < 0 \<and> n < 0 \<and> d < LLONG_MIN - n \<or> d > 0 \<and> n > 0 \<and> d > LLONG_MAX - n) \<longleftrightarrow> \<not> int_fits 8 (n + d)"
    using fits assms(2) by (auto simp: int_fits_def LLONG_MIN_def LLONG_MAX_def)
  have eff: "v_incr ?v c k d =
      (if \<not> int_fits 8 (n + d) then v_put (v_expire ?v ?i k) c overflow
       else v_put (v_dirty (v_notify (v_touch (if old = None then v_add (v_expire ?v ?i k) ?i k (AStr (repr (wrap64 (n + d))))
              else v_set (v_expire ?v ?i k) ?i k (AStr (repr (wrap64 (n + d))))) ?i k) ''incrby'' k ?i) 1) c
              (int_reply (wrap64 (n + d))))"
    unfolding v_incr_def Let_def asked_simps old n option.case ok by (rule refl)
  show ?thesis
    using view_output(1) [of s' c] old unfolding assms(3) eff old_def [symmetric]
    by (cases "int_fits 8 (n + d)"; cases "old = None") (simp_all add: out_answer answer_def wrap64_id)
qed

text \<open>
  C5. \<open>INCRBY\<close> never wraps around. On a key that counts as \<open>n\<close> it stores the decimal representation
  of the exact sum and answers it, when the sum has 64 bits; otherwise it answers an error and leaves
  the value as it was.
\<close>

theorem incrby_exact_or_refused:
  assumes "srv_ok s" "ready s c P_incrby [k, a] 0" "string2ll a = Some d" "counter_at s (db_of s c) k n"
  shows "\<exists>s'. incrbyCommand (set_argv s c [x, k, a]) c = Some s' \<and>
     (if -(2 ^ 63) \<le> n + d \<and> n + d < 2 ^ 63
      then value_at s' (db_of s c) k = Some (AStr (repr (n + d))) \<and> sent s' c = answer s c (int_reply (n + d))
      else value_at s' (db_of s c) k = live_at s (db_of s c) k \<and> sent s' c = answer s c overflow)"
proof -
  let ?v = "asked s c [x, k, a]"
  have b: "v_basic P_incrby ?v c [k, a] = Some (v_incr ?v c k d)"
    using assms(3) by (simp add: v_basic_def with2_def v_incrby_def)
  obtain s' where s': "incrbyCommand (set_argv s c [x, k, a]) c = Some s'" "view_of s' = v_incr ?v c k d"
    using run_command [OF assms(1,2) b, of sample_procs] by (auto simp: basic_proc_def)
  have "int_fits 8 d" using string2ll_repr_inv [OF assms(3)] by simp
  then show ?thesis using incr_effect [OF assms(4) _ s'(2)] s'(1) by (auto simp: int_fits_def)
qed

lemma string2ll_small [simp]: "int_fits 8 n \<Longrightarrow> string2ll (repr n) = Some n"
  by (rule string2ll_repr)

lemma sample_env_ok' [simp]: "env_ok sample_env"
  by (rule sample_env_ok) simp_all

theorem incrby_exact_or_refused_witness:
  "\<exists>s'. incrbyCommand (set_argv (sample_set sample_env (bs ''n'') (repr 41)) 1 [bs ''INCRBY'', bs ''n'', repr 1]) 1 = Some s' \<and>
     value_at s' 0 (bs ''n'') = Some (AStr (repr 42))"
proof -
  let ?s = "sample_set sample_env (bs ''n'') (repr 41)"
  have len: "length (bs ''n'') \<le> 512 * 1024 * 1024" "length (repr 41) \<le> 512 * 1024 * 1024" "length (repr 1) \<le> 512 * 1024 * 1024"
    using length_repr_small [of 41] length_repr_small [of 1] by (simp_all add: bs_def int_fits_def)
  note s = sample_set_ok [OF sample_env_ok' len(1,2)]
  have n: "counter_at ?s (db_of ?s 1) (bs ''n'') 41" "ready ?s 1 P_incrby [bs ''n'', repr 1] 0"
    using s len by (simp_all add: counter_at_def live_at_def not_expired int_fits_def ready_def args_ok_def offset_ok_def)
  show ?thesis
    using incrby_exact_or_refused [OF s(1) n(2) _ n(1), of 1 "bs ''INCRBY''"] s(6) by (auto simp: int_fits_def)
qed

section \<open>RENAME\<close>

lemma expire_none:
  assumes "ttl_ok v" "v_kv (v_expire v i k) i k = None"
  shows "v_ttl (v_expire v i k) i k = None"
proof (cases "v_expired v i k \<and> \<not> masterhost (v_env v)")
  case True
  then obtain t where "v_ttl v i k = Some t" by (auto simp: v_expired_def split: option.splits)
  then have "v_kv v i k \<noteq> None" using assms(1) unfolding ttl_ok_def by (metis option.distinct(1))
  then show ?thesis using True by (simp add: v_expire_def v_dbdel_ttl)
next
  case False
  then have "v_expire v i k = v" unfolding v_expire_def by (rule if_not_P)
  then show ?thesis using assms unfolding ttl_ok_def by metis
qed

lemma moved_ttl_val:
  "t \<noteq> Some (-1) \<Longrightarrow> v_ttl v i k = None \<Longrightarrow> v_ttl (v_moved_ttl v c i k t) i k = t"
  by (cases t) (auto simp: v_moved_ttl_def Let_def)

text \<open>
  C6. \<open>RENAME\<close> of a key that exists moves its value and its time to live to the new name, which loses
  whatever it held, removes the old name, leaves every other key alone and answers \<open>OK\<close>. (A stored
  time of -1 is read back as \<open>no time\<close> by the code and is excluded.)
\<close>

theorem rename_moves:
  assumes "srv_ok s" "ready s c P_rename [src, dst] 0" "src \<noteq> dst" "live_at s (db_of s c) src = Some a"
    "ttl_at s (db_of s c) src \<noteq> Some (-1)"
  shows "\<exists>s'. renameCommand (set_argv s c [x, src, dst]) c = Some s' \<and> sent s' c = answer s c shared_ok \<and>
     value_at s' (db_of s c) dst = Some a \<and> ttl_at s' (db_of s c) dst = ttl_at s (db_of s c) src \<and>
     value_at s' (db_of s c) src = None \<and> ttl_at s' (db_of s c) src = None \<and>
     (\<forall>i k. k \<noteq> src \<and> k \<noteq> dst \<longrightarrow> value_at s' i k = value_at s i k \<and> ttl_at s' i k = ttl_at s i k)"
proof -
  let ?v = "asked s c [x, src, dst]" and ?i = "db_of s c" and ?lz = "lazyfree_lazy_server_del (env s)"
  let ?w = "v_rename ?v c False src dst"
  have b: "v_basic P_rename ?v c [src, dst] = Some ?w" by (simp add: v_basic_def with2_def)
  obtain s' where s': "renameCommand (set_argv s c [x, src, dst]) c = Some s'" "view_of s' = ?w"
      "\<forall>i k. k \<noteq> src \<and> k \<noteq> dst \<longrightarrow> value_at s' i k = value_at s i k \<and> ttl_at s' i k = ttl_at s i k"
    using run_key_command [OF assms(1,2) _ b, of sample_procs] by (auto simp: on_keys_def basic_proc_def)
  have src: "v_expire ?v ?i src = ?v" "v_kv ?v ?i src = Some a"
    using expire_ttl [of ?v ?i src] assms(4) live_asked [of s c "[x, src, dst]" ?i src] by auto
  let ?v2 = "v_expire ?v ?i dst"
  let ?v3 = "if v_kv ?v2 ?i dst \<noteq> None then v_dbdel ?lz ?v2 ?i dst else ?v2"
  let ?v4 = "v_moved_ttl (v_add ?v3 ?i dst a) c ?i dst (ttl_at s ?i src)"
  let ?v5 = "v_dbdel ?lz ?v4 ?i src"
  have w: "?w = v_put (v_dirty (v_notify (v_notify (v_touch (v_touch ?v5 ?i src) ?i dst) ''rename_from'' src ?i)
      ''rename_to'' dst ?i) 1) c shared_ok"
    using src assms(3) by (simp add: v_rename_def Let_def)
  have "ttl_ok ?v" using srv_okD(1) [OF assms(1)] by (simp add: rep_def ttl_ok_def)
  then have "v_ttl ?v3 ?i dst = None" using expire_none by (auto simp: v_dbdel_ttl)
  then have t4: "v_ttl ?v4 ?i dst = ttl_at s ?i src" using assms(5) by (intro moved_ttl_val) simp_all
  have kv: "v_kv ?v4 ?i dst = Some a" "v_kv ?v4 ?i src \<noteq> None" using src assms(3) by (simp_all add: v_expire_kv)
  have ttl: "v_ttl ?v5 ?i dst = ttl_at s ?i src" "v_ttl ?v5 ?i src = None" 
    using t4 kv(2) assms(3) by (simp_all add: v_dbdel_ttl)
  have "sent s' c = answer s c shared_ok"
    using view_output(1) [of s' c] unfolding s'(2) w answer_def by (auto simp: out_answer split: if_splits)
  moreover have "value_at s' ?i dst = Some a" "value_at s' ?i src = None" "ttl_at s' ?i dst = ttl_at s ?i src" "ttl_at s' ?i src = None"
    unfolding s'(2) w using kv ttl assms(3) by simp_all
  ultimately show ?thesis using s'(1,3) by blast
qed

theorem rename_moves_witness:
  "\<exists>s'. renameCommand (set_argv (sample_set sample_env (bs ''a'') (bs ''v'')) 1 [bs ''RENAME'', bs ''a'', bs ''b'']) 1 = Some s' \<and>
     value_at s' 0 (bs ''b'') = Some (AStr (bs ''v'')) \<and> value_at s' 0 (bs ''a'') = None"
proof -
  let ?s = "sample_set sample_env (bs ''a'') (bs ''v'')"
  have len: "length (bs ''a'') \<le> 512 * 1024 * 1024" "length (bs ''v'') \<le> 512 * 1024 * 1024" by (simp_all add: bs_def)
  note s = sample_set_ok [OF sample_env_ok' len]
  have n: "ready ?s 1 P_rename [bs ''a'', bs ''b''] 0" "bs ''a'' \<noteq> bs ''b''"
    "live_at ?s (db_of ?s 1) (bs ''a'') = Some (AStr (bs ''v''))" "ttl_at ?s (db_of ?s 1) (bs ''a'') \<noteq> Some (-1)"
    using s by (simp_all add: live_at_def not_expired ready_def args_ok_def offset_ok_def bs_def)
  show ?thesis using rename_moves [OF s(1) n, of "bs ''RENAME''"] s(6) by auto
qed

section \<open>DEL\<close>

abbreviation vlive :: "view \<Rightarrow> nat \<Rightarrow> sds \<Rightarrow> aval option" where
  "vlive v i k \<equiv> v_kv (v_expire v i k) i k"

lemma vlive_eq: "vlive v i k = (if v_expired v i k \<and> \<not> masterhost (v_env v) then None else v_kv v i k)"
  by (simp add: v_expire_kv)

lemma live_vlive: "live_at s i k = vlive (view_of s) i k"
  by (simp add: live_at_def vlive_eq)

lemma vlive_cong:
  assumes "v_kv w i k = v_kv v i k" "v_ttl w i k = v_ttl v i k" "v_env w = v_env v"
  shows "vlive w i k = vlive v i k"
proof -
  have "v_expired w i k = v_expired v i k" unfolding v_expired_def v_now_def assms(2,3) ..
  then show ?thesis using assms by (simp add: vlive_eq)
qed

lemma vlive_expire: "vlive (v_expire v i k) j k' = vlive v j k'"
proof (cases "v_expired v i k \<and> \<not> masterhost (v_env v)")
  case True
  show ?thesis
  proof (cases "j = i \<and> k' = k")
    case False
    then show ?thesis by (intro vlive_cong) (auto simp: v_expire_kv ttl_other)
  qed (use True in \<open>simp add: vlive_eq\<close>)
next
  case False
  then have "v_expire v i k = v" unfolding v_expire_def by (rule if_not_P)
  then show ?thesis by simp
qed

lemma vlive_deleted:
  "vlive (v_dirty (v_notify (v_touch (v_dbdel lz v i k) i k) e k i) m) i k' = (if k' = k then None else vlive v i k')"
proof (cases "k' = k")
  case False
  then show ?thesis by (simp, intro vlive_cong) (simp_all add: ttl_other)
qed (simp add: vlive_eq)

lemma delkeys_effect:
  "v_kv (fst (v_delkeys lz v i ks n)) j k = (if j = i \<and> k \<in> set ks then None else v_kv v j k)"
  "snd (v_delkeys lz v i ks n) = n + card {k \<in> set ks. vlive v i k \<noteq> None}"
proof (induction lz v i ks n rule: v_delkeys.induct)
  case (2 lz v i k0 ks n)
  let ?v = "v_expire v i k0"
  let ?w = "v_dirty (v_notify (v_touch (v_dbdel lz ?v i k0) i k0) ''del'' k0 i) 1"
  {
    case 1
    show ?case using 2(1) [OF refl] 2(3) [OF refl] by (cases "v_kv ?v i k0 = None") (auto simp: Let_def v_expire_kv)
  next
    case 2
    have "{k \<in> set (k0 # ks). vlive v i k \<noteq> None} =
        (if vlive v i k0 = None then {k \<in> set ks. vlive ?v i k \<noteq> None} else insert k0 {k \<in> set ks. vlive ?w i k \<noteq> None})"
      by (auto simp: vlive_expire vlive_deleted)
    moreover have "k0 \<notin> {k \<in> set ks. vlive ?w i k \<noteq> None}" by (simp add: vlive_deleted)
    ultimately show ?case
      using "2.IH"(2) [OF refl] "2.IH"(4) [OF refl] by (cases "vlive v i k0 = None") (simp_all add: Let_def)
  }
qed simp_all
lemma delkeys_out:
  "v_out (fst (v_delkeys lz v i ks n)) c = v_out v c" "v_listens (fst (v_delkeys lz v i ks n)) c = v_listens v c"
  by (induction lz v i ks n rule: v_delkeys.induct) (simp_all add: Let_def)

text \<open>
  C18. \<open>DEL\<close> removes every key it names, answers the number of different keys among them that existed
  (a key whose time has passed does not exist on a master), and leaves all other keys alone.
\<close>

theorem del_counts:
  assumes "srv_ok s" "ready s c P_del ks 0"
  shows "\<exists>s'. delCommand (set_argv s c (x # ks)) c = Some s' \<and>
     sent s' c = answer s c (int_reply (int (card {k \<in> set ks. live_at s (db_of s c) k \<noteq> None}))) \<and>
     (\<forall>i k. value_at s' i k = (if i = db_of s c \<and> k \<in> set ks then None else value_at s i k))"
proof -
  let ?v = "asked s c (x # ks)" and ?i = "db_of s c"
  let ?r = "v_delkeys False ?v ?i ks 0"
  have b: "v_basic P_del ?v c ks = Some (v_put (fst ?r) c (int_reply (int (snd ?r))))"
    by (simp add: v_basic_def v_delGeneric_def case_prod_beta)
  obtain s' where s': "delCommand (set_argv s c (x # ks)) c = Some s'"
      "view_of s' = v_put (fst ?r) c (int_reply (int (snd ?r)))"
    using run_command [OF assms b, of sample_procs] by (auto simp: basic_proc_def)
  have n: "snd ?r = card {k \<in> set ks. live_at s ?i k \<noteq> None}" by (simp add: delkeys_effect(2) live_asked)
  have "sent s' c = answer s c (int_reply (int (snd ?r)))"
    using view_output(1) [of s' c] unfolding s'(2) answer_def by (simp add: out_answer delkeys_out)
  moreover have "value_at s' i k = (if i = ?i \<and> k \<in> set ks then None else value_at s i k)" for i k
    unfolding s'(2) by (simp add: delkeys_effect(1))
  ultimately show ?thesis using s'(1) n by auto
qed

theorem del_counts_witness:
  "\<exists>s'. delCommand (set_argv (sample_set sample_env (bs ''a'') (bs ''v'')) 1 [bs ''DEL'', bs ''a'', bs ''b'', bs ''a'']) 1 = Some s' \<and>
     sent s' 1 = answer (sample_set sample_env (bs ''a'') (bs ''v'')) 1 (int_reply 1)"
proof -
  let ?s = "sample_set sample_env (bs ''a'') (bs ''v'')"
  have len: "length (bs ''a'') \<le> 512 * 1024 * 1024" "length (bs ''v'') \<le> 512 * 1024 * 1024" by (simp_all add: bs_def)
  note s = sample_set_ok [OF sample_env_ok' len]
  have n: "ready ?s 1 P_del [bs ''a'', bs ''b'', bs ''a''] 0"
    using s by (simp add: ready_def args_ok_def offset_ok_def bs_def)
  have "{k \<in> set [bs ''a'', bs ''b'', bs ''a'']. live_at ?s (db_of ?s 1) k \<noteq> None} = {bs ''a''}"
    using s by (auto simp: live_at_def not_expired bs_def)
  then show ?thesis using del_counts [OF s(1) n, of "bs ''DEL''"] by auto
qed

section \<open>MSETNX\<close>

fun pairs :: "sds list \<Rightarrow> (sds \<times> sds) list" where
  "pairs (k # a # rest) = (k, a) # pairs rest"
| "pairs _ = []"

lemma msetnx_effect:
  "vlive (fst (v_msetnx_loop v i args n)) j k = vlive v j k"
  "snd (v_msetnx_loop v i args n) = n + length (filter (\<lambda>(k, a). vlive v i k \<noteq> None) (pairs args))"
  "v_out (fst (v_msetnx_loop v i args n)) c = v_out v c" "v_listens (fst (v_msetnx_loop v i args n)) c = v_listens v c"
  by (induction v i args n rule: v_msetnx_loop.induct) (simp_all add: vlive_expire)

lemma mset_effect:
  "v_kv (v_mset_loop v i args) j k =
     (if j = i then (case map_of (rev (pairs args)) k of Some a \<Rightarrow> Some (AStr a) | None \<Rightarrow> v_kv v j k) else v_kv v j k)"
  "v_out (v_mset_loop v i args) c = v_out v c" "v_listens (v_mset_loop v i args) c = v_listens v c"
  by (induction v i args rule: v_mset_loop.induct) (auto simp: map_add_def split: option.splits)

lemma mset_frame:
  "j \<noteq> i \<or> k \<notin> fst ` set (pairs args) \<Longrightarrow> vlive (v_mset_loop v i args) j k = vlive v j k"
proof (induction v i args rule: v_mset_loop.induct)
  case (1 v i k0 a rest)
  then have "vlive (v_mset_loop v i (k0 # a # rest)) j k = vlive (v_notify (v_setkey v i k0 (AStr a)) ''set'' k0 i) j k" by auto
  also have "\<dots> = vlive v j k" using "1.prems" by (intro vlive_cong) (auto simp: ttl_other)
  finally show ?case .
qed simp_all

text \<open>
  C19. \<open>MSETNX\<close> is all or nothing. If one of its keys exists it answers 0 and no key of any database
  changes its value, as commands see it; otherwise it answers 1, every key has the value that its last
  occurrence in the arguments gives, and all other keys of all databases keep their values.
\<close>

theorem msetnx_all_or_nothing:
  assumes "srv_ok s" "ready s c P_msetnx args 0" "even (length args)"
  shows "\<exists>s'. msetnxCommand (set_argv s c (x # args)) c = Some s' \<and>
     (if \<exists>(k, a) \<in> set (pairs args). live_at s (db_of s c) k \<noteq> None
      then sent s' c = answer s c shared_czero \<and> (\<forall>i k. live_at s' i k = live_at s i k)
      else sent s' c = answer s c shared_cone \<and>
        (\<forall>k a. map_of (rev (pairs args)) k = Some a \<longrightarrow> value_at s' (db_of s c) k = Some (AStr a)) \<and>
        (\<forall>i k. i \<noteq> db_of s c \<or> k \<notin> fst ` set (pairs args) \<longrightarrow> live_at s' i k = live_at s i k))"
proof -
  let ?v = "asked s c (x # args)" and ?i = "db_of s c"
  let ?r = "v_msetnx_loop ?v ?i args 0"
  let ?w = "if snd ?r \<noteq> 0 then v_put (fst ?r) c shared_czero
    else v_put (v_dirty (v_mset_loop (fst ?r) ?i args) (int (length args) div 2)) c shared_cone"
  have b: "v_basic P_msetnx ?v c args = Some ?w"
    using assms(3) by (simp add: v_basic_def v_mset_def Let_def case_prod_beta)
  obtain s' where s': "msetnxCommand (set_argv s c (x # args)) c = Some s'" "view_of s' = ?w" "env s' = env s"
    using run_key_command [OF assms(1,2) _ b, of sample_procs] by (auto simp: basic_proc_def on_keys_def)
  have busy: "snd ?r = 0 \<longleftrightarrow> \<not> (\<exists>(k, a) \<in> set (pairs args). live_at s ?i k \<noteq> None)"
    unfolding msetnx_effect(2) live_asked by (auto simp: filter_empty_conv)
  show ?thesis
  proof (cases "snd ?r = 0")
    case True
    have "live_at s' i k = live_at s i k" if "i \<noteq> ?i \<or> k \<notin> fst ` set (pairs args)" for i k
    proof -
      have "live_at s' i k = vlive ?w i k" unfolding live_vlive s'(2) ..
      also have "\<dots> = vlive (v_mset_loop (fst ?r) ?i args) i k" using True by (simp, intro vlive_cong) simp_all
      also have "\<dots> = vlive (fst ?r) i k" by (rule mset_frame [OF that])
      finally show ?thesis by (simp add: msetnx_effect(1) live_asked)
    qed
    then show ?thesis
      using True s' busy view_output(1) [of s' c] by (auto simp: out_answer answer_def msetnx_effect mset_effect)
  next
    case False
    have "live_at s' i k = live_at s i k" for i k
    proof -
      have "live_at s' i k = vlive ?w i k" unfolding live_vlive s'(2) ..
      also have "\<dots> = vlive (fst ?r) i k" using False by (simp, intro vlive_cong) simp_all
      finally show ?thesis by (simp add: msetnx_effect(1) live_asked)
    qed
    then show ?thesis
      using False s' busy view_output(1) [of s' c] by (auto simp: out_answer answer_def msetnx_effect)
  qed
qed

theorem msetnx_all_or_nothing_witness:
  "\<exists>s'. msetnxCommand (set_argv (sample_set sample_env (bs ''a'') (bs ''v'')) 1 [bs ''MSETNX'', bs ''b'', bs ''1'', bs ''a'', bs ''2'']) 1 = Some s' \<and>
     sent s' 1 = answer (sample_set sample_env (bs ''a'') (bs ''v'')) 1 shared_czero"
proof -
  let ?s = "sample_set sample_env (bs ''a'') (bs ''v'')"
  have len: "length (bs ''a'') \<le> 512 * 1024 * 1024" "length (bs ''v'') \<le> 512 * 1024 * 1024" by (simp_all add: bs_def)
  note s = sample_set_ok [OF sample_env_ok' len]
  have n: "ready ?s 1 P_msetnx [bs ''b'', bs ''1'', bs ''a'', bs ''2''] 0" "even (length [bs ''b'', bs ''1'', bs ''a'', bs ''2''])"
    using s by (simp_all add: ready_def args_ok_def offset_ok_def bs_def)
  have "live_at ?s (db_of ?s 1) (bs ''a'') \<noteq> None" using s by (simp add: live_at_def not_expired)
  then show ?thesis using msetnx_all_or_nothing [OF s(1) n, of "bs ''MSETNX''"] by auto
qed

section \<open>SETRANGE and GETRANGE\<close>

definition bytes_at :: "redisServer \<Rightarrow> nat \<Rightarrow> sds \<Rightarrow> byte list option" where
  "bytes_at s i k = (case live_at s i k of None \<Rightarrow> Some [] | Some (AStr b) \<Rightarrow> Some b | Some (AObj _) \<Rightarrow> None)"

lemma setrange_bytes_part:
  "take (length val) (drop off (setrange_bytes old off val)) = val" "length (setrange_bytes old off val) \<ge> off + length val"
  by (simp_all add: setrange_bytes_def Let_def)

lemma setrange_effect:
  assumes "bytes_at s (db_of s c) k = Some old" "0 \<le> off" "val \<noteq> []" "off + int (length val) \<le> 512 * 1024 * 1024"
    "string2ll a = Some off" "b = setrange_bytes old (nat off) val" "v = v_expire (asked s c args) (db_of s c) k"
  shows "v_setrange (asked s c args) c k a val =
     v_put (v_dirty (v_notify (v_touch (if v_kv v (db_of s c) k = None then v_add v (db_of s c) k (AStr b)
       else v_set v (db_of s c) k (AStr b)) (db_of s c) k) ''setrange'' k (db_of s c)) 1) c (int_reply (int (length b)))"
  using assms live_asked [of s c args "db_of s c" k]
  by (auto simp: v_setrange_def bytes_at_def Let_def not_less split: option.splits aval.splits)

text \<open>
  C20. What \<open>SETRANGE\<close> writes is what \<open>GETRANGE\<close> reads. On a master, for a string or absent key, an offset
  from 0 on and bytes that stay below 512 MB, \<open>SETRANGE\<close> answers the new length, which covers the range,
  and \<open>GETRANGE\<close> of the range then answers exactly the bytes that were written.
\<close>

theorem setrange_getrange:
  assumes "srv_ok s" "ready s c P_setrange [k, repr off, val] 3" "\<not> masterhost (env s)"
    "bytes_at s (db_of s c) k = Some old" "0 \<le> off" "val \<noteq> []" "off + int (length val) \<le> 512 * 1024 * 1024"
  shows "\<exists>s1 s2 n. setrangeCommand (set_argv s c [x, k, repr off, val]) c = Some s1 \<and>
     sent s1 c = answer s c (int_reply n) \<and> off + int (length val) \<le> n \<and>
     getrangeCommand (set_argv s1 c [y, k, repr off, repr (off + int (length val) - 1)]) c = Some s2 \<and>
     sent s2 c = answer s1 c (bulk_reply val)"
proof -
  let ?i = "db_of s c" and ?b = "setrange_bytes old (nat off) val" and ?a = "repr (off + int (length val) - 1)"
  let ?v = "asked s c [x, k, repr off, val]"
  have off: "string2ll (repr off) = Some off" "string2ll ?a = Some (off + int (length val) - 1)"
    using assms(5-7) by (simp_all add: int_fits_def)
  note w = setrange_effect [OF assms(4-7) off(1) refl refl, of "[x, k, repr off, val]"]
  have b: "v_basic P_setrange ?v c [k, repr off, val] = Some (v_setrange ?v c k (repr off) val)"
    by (simp add: v_basic_def with3_def)
  obtain s1 where s1: "setrangeCommand (set_argv s c [x, k, repr off, val]) c = Some s1"
      "view_of s1 = v_setrange ?v c k (repr off) val" "srv_ok s1" "room (view_of s1) 3" "client_list s1 = client_list s"
      "env s1 = env s" "db_of s1 c = ?i"
    using run_key_command [OF assms(1,2) _ b, of sample_procs] by (auto simp: basic_proc_def on_keys_def)
  have sent1: "sent s1 c = answer s c (int_reply (int (length ?b)))"
    using view_output(1) [of s1 c] unfolding s1(2) w answer_def by (simp add: out_answer)
  have val: "value_at s1 ?i k = Some (AStr ?b)" unfolding s1(2) w by simp
  have ttl: "ttl_at s1 ?i k = v_ttl (v_expire ?v ?i k) ?i k" unfolding s1(2) w by simp
  have nex: "\<not> v_expired (view_of s1) ?i k"
  proof (cases "v_expired ?v ?i k")
    case True
    have "ttl_ok ?v" using srv_okD(1) [OF assms(1)] by (simp add: rep_def ttl_ok_def)
    then have "v_ttl (v_expire ?v ?i k) ?i k = None" using True assms(3) by (intro expire_none) (simp_all add: vlive_eq)
    then show ?thesis using ttl by (simp add: not_expired)
  next
    case False
    then have "v_expire ?v ?i k = ?v" by (simp add: v_expire_def)
    then have "ttl_at s1 ?i k = ttl_at s ?i k" using ttl by simp
    then show ?thesis using False s1(6) by (simp add: v_expired_def v_now_def split: option.splits)
  qed
  let ?u = "asked s1 c [y, k, repr off, ?a]"
  have r: "ready s1 c P_getrange [k, repr off, ?a] 0"
    using assms(2) s1(4,5) length_repr_small [of "off + int (length val) - 1"] assms(5-7)
    by (simp add: ready_def args_ok_def offset_ok_def int_fits_def numeral_3_eq_3)
  have b2: "v_basic P_getrange ?u c [k, repr off, ?a] = Some (v_getrange ?u c k (repr off) ?a)"
    by (simp add: v_basic_def with3_def)
  obtain s2 where s2: "getrangeCommand (set_argv s1 c [y, k, repr off, ?a]) c = Some s2"
      "view_of s2 = v_getrange ?u c k (repr off) ?a"
    using run_command [OF s1(3) r b2, of sample_procs] by (auto simp: basic_proc_def)
  have vis: "v_visible ?u ?i k = Some (AStr ?b)" using nex val by (subst visible_live) simp_all
  have len: "int (length ?b) \<ge> off + int (length val)" using setrange_bytes_part(2) [of "nat off" val old] assms(5) by linarith
  have bounds: "getrange_bounds off (off + int (length val) - 1) (length ?b) = Some (off, off + int (length val) - 1)"
    using len assms(5,6) by (simp add: getrange_bounds_def Let_def) (cases val, auto)
  have "v_getrange ?u c k (repr off) ?a = v_put (v_read ?u ?i k) c (bulk_reply val)"
    using off vis bounds len assms(5,6) s1(7) setrange_bytes_part(1) [of val "nat off" old]
    by (cases val) (auto simp: v_getrange_def Let_def nat_add_distrib)
  then have "sent s2 c = answer s1 c (bulk_reply val)"
    using view_output(1) [of s2 c] unfolding s2(2) answer_def by (simp add: out_answer)
  then show ?thesis using s1(1) sent1 len s2(1) by blast
qed

theorem setrange_getrange_witness:
  "\<exists>s1 s2 n. setrangeCommand (set_argv (sample_on sample_env) 1 [bs ''SETRANGE'', bs ''k'', repr 5, bs ''hello'']) 1 = Some s1 \<and>
     sent s1 1 = answer (sample_on sample_env) 1 (int_reply n) \<and> 10 \<le> n \<and>
     getrangeCommand (set_argv s1 1 [bs ''GETRANGE'', bs ''k'', repr 5, repr 9]) 1 = Some s2 \<and>
     sent s2 1 = answer s1 1 (bulk_reply (bs ''hello''))"
proof -
  let ?s = "sample_on sample_env"
  have "length (repr 5) \<le> 512 * 1024 * 1024" using length_repr_small [of 5] by (simp add: int_fits_def)
  then have r: "ready ?s 1 P_setrange [bs ''k'', repr 5, bs ''hello''] 3"
    by (simp add: ready_def args_ok_def offset_ok_def bs_def int_fits_def)
  have b: "bytes_at ?s (db_of ?s 1) (bs ''k'') = Some []" by (simp add: bytes_at_def live_at_def)
  show ?thesis
    using setrange_getrange [OF sample_ok(2) r _ b, of "bs ''SETRANGE''" "bs ''GETRANGE''"] by (simp add: bs_def)
qed

section \<open>APPEND\<close>

text \<open>
  C7. \<open>APPEND\<close> never makes a string longer than 512 MB. On a key that holds a string it stores the
  concatenation and answers its length, when the length is at most 536870912, and otherwise it answers an
  error and keeps the string; the time of the key and all other keys are left alone.
\<close>

theorem append_bounded:
  assumes "srv_ok s" "ready s c P_append [k, a] 0" "live_at s (db_of s c) k = Some (AStr old)"
  shows "\<exists>s'. appendCommand (set_argv s c [x, k, a]) c = Some s' \<and>
     (if length old + length a \<le> 536870912
      then value_at s' (db_of s c) k = Some (AStr (old @ a)) \<and> sent s' c = answer s c (int_reply (int (length old + length a)))
      else value_at s' (db_of s c) k = Some (AStr old) \<and> sent s' c = answer s c too_long) \<and>
     (\<forall>i k'. ttl_at s' i k' = ttl_at s i k' \<and> (i \<noteq> db_of s c \<or> k' \<noteq> k \<longrightarrow> value_at s' i k' = value_at s i k'))"
proof -
  let ?v = "asked s c [x, k, a]" and ?i = "db_of s c"
  have kv: "v_kv (v_expire ?v ?i k) ?i k = Some (AStr old)" using assms(3) live_asked by simp
  then have e: "v_expire ?v ?i k = ?v" using expire_ttl [of ?v ?i k] by simp
  let ?w = "if length (old @ a) > 512 * 1024 * 1024 then v_put ?v c too_long
    else v_put (v_dirty (v_notify (v_touch (v_set ?v ?i k (AStr (old @ a))) ?i k) ''append'' k ?i) 1) c (int_reply (int (length (old @ a))))"
  have b: "v_basic P_append ?v c [k, a] = Some ?w" using kv e by (simp add: v_basic_def with2_def v_append_def Let_def)
  obtain s' where s': "appendCommand (set_argv s c [x, k, a]) c = Some s'" "view_of s' = ?w"
    using run_command [OF assms(1,2) b, of sample_procs] by (auto simp: basic_proc_def)
  show ?thesis
    using s' view_output(1) [of s' c] kv e
    by (cases "length (old @ a) > 512 * 1024 * 1024") (auto simp: out_answer answer_def)
qed

theorem append_bounded_witness:
  "\<exists>s'. appendCommand (set_argv (sample_set sample_env (bs ''k'') (replicate 536870912 0)) 1 [bs ''APPEND'', bs ''k'', bs ''x'']) 1 = Some s' \<and>
     value_at s' 0 (bs ''k'') = Some (AStr (replicate 536870912 0)) \<and>
     sent s' 1 = answer (sample_set sample_env (bs ''k'') (replicate 536870912 0)) 1 too_long"
proof -
  let ?s = "sample_set sample_env (bs ''k'') (replicate 536870912 0)"
  have len: "length (bs ''k'') \<le> 512 * 1024 * 1024" "length (replicate 536870912 (0 :: byte)) \<le> 512 * 1024 * 1024"
    by (simp_all add: bs_def)
  note s = sample_set_ok [OF sample_env_ok' len]
  have n: "ready ?s 1 P_append [bs ''k'', bs ''x''] 0" "live_at ?s (db_of ?s 1) (bs ''k'') = Some (AStr (replicate 536870912 0))"
    using s by (simp_all add: live_at_def not_expired ready_def args_ok_def offset_ok_def bs_def)
  have l: "\<not> length (replicate 536870912 (0 :: byte)) + length (bs ''x'') \<le> 536870912" by (simp add: bs_def)
  show ?thesis using append_bounded [OF s(1) n, of "bs ''APPEND''"] l s(6) by auto
qed

section \<open>Times to live\<close>

text \<open>
  C22. On a master a key whose time has passed is gone for its readers: \<open>GET\<close> answers the null bulk and
  removes the key together with its time, whatever value it holds.
\<close>

theorem expired_get:
  assumes "srv_ok s" "ready s c P_get [k] 0" "\<not> masterhost (env s)" "\<not> loading (env s)" "lua_caller (env s) = None"
    "ttl_at s (db_of s c) k = Some t" "0 \<le> t" "t < mstime (env s)"
  shows "\<exists>s'. getCommand (set_argv s c [x, k]) c = Some s' \<and> sent s' c = answer s c shared_nullbulk \<and>
     value_at s' (db_of s c) k = None \<and> ttl_at s' (db_of s c) k = None"
proof -
  let ?v = "asked s c [x, k]" and ?i = "db_of s c"
  have b: "v_basic P_get ?v c [k] = Some (fst (v_get ?v c k))" by (simp add: v_basic_def with1_def)
  obtain s' where s': "getCommand (set_argv s c [x, k]) c = Some s'" "view_of s' = fst (v_get ?v c k)"
    using run_command [OF assms(1,2) b, of sample_procs] by (auto simp: basic_proc_def)
  have e: "v_expired ?v ?i k" using assms by (simp add: v_expired_def v_now_def)
  then have g: "fst (v_get ?v c k) = v_put (v_read ?v ?i k) c shared_nullbulk"
    using assms(3) by (simp add: v_get_def Let_def v_visible_def v_hidden_def)
  have "ttl_ok ?v" using srv_okD(1) [OF assms(1)] by (simp add: rep_def ttl_ok_def)
  then have "v_kv (v_expire ?v ?i k) ?i k = None" "v_ttl (v_expire ?v ?i k) ?i k = None"
    using e assms(3) expire_none [of ?v ?i k] by (simp_all add: vlive_eq)
  then have "value_at s' ?i k = None" "ttl_at s' ?i k = None" unfolding s'(2) g by simp_all
  moreover have "sent s' c = answer s c shared_nullbulk"
    using view_output(1) [of s' c] unfolding s'(2) g answer_def by (simp add: out_answer)
  ultimately show ?thesis using s'(1) by blast
qed

lemma setex_effect:
  assumes "srv_ok s" "ready s c P_psetex [k, repr ms, a] n" "0 < ms" "ms < 2 ^ 63"
  shows "\<exists>s'. psetexCommand (set_argv s c [x, k, repr ms, a]) c = Some s' \<and> srv_ok s' \<and> room (view_of s') n \<and>
     client_list s' = client_list s \<and> env s' = env s \<and> db_of s' c = db_of s c \<and> sent s' c = answer s c shared_ok \<and>
     value_at s' (db_of s c) k = Some (AStr a) \<and> ttl_at s' (db_of s c) k = Some (wrap64 (mstime (env s) + ms)) \<and>
     listens s' c = listens s c"
proof -
  let ?v = "asked s c [x, k, repr ms, a]" and ?i = "db_of s c"
  let ?w = "v_setGeneric ?v c False False k a (Some (repr ms)) False shared_ok shared_nullbulk"
  have ms: "string2ll (repr ms) = Some ms" using assms(3,4) by (simp add: int_fits_def)
  have b: "v_basic P_psetex ?v c [k, repr ms, a] = Some ?w" by (simp add: v_basic_def with3_def)
  have w: "?w = v_put (v_notify (v_notify (v_remember (v_setttl (v_dirty (v_setkey ?v ?i k (AStr a)) 1) ?i k
      (Some (wrap64 (mstime (env s) + ms)))) (Some c) ?i k) ''set'' k ?i) ''expire'' k ?i) c shared_ok"
    using ms assms(3) by (simp add: v_setGeneric_def Let_def)
  obtain s' where s': "psetexCommand (set_argv s c [x, k, repr ms, a]) c = Some s'" "view_of s' = ?w" "srv_ok s'" "room ?w n"
      "client_list s' = client_list s" "env s' = env s" "db_of s' c = db_of s c" "listens s' c = listens s c"
    using run_key_command [OF assms(1,2) _ b, of sample_procs] by (auto simp: on_keys_def basic_proc_def)
  have "sent s' c = answer s c shared_ok"
    using view_output(1) [of s' c] unfolding s'(2) w answer_def by (simp add: out_answer)
  moreover have "value_at s' ?i k = Some (AStr a)" "ttl_at s' ?i k = Some (wrap64 (mstime (env s) + ms))"
    unfolding s'(2) w by simp_all
  ultimately show ?thesis using s' by auto
qed

text \<open>
  C21. A time to live that was set is the one that is reported: after \<open>PSETEX\<close> with \<open>ms\<close> milliseconds a
  \<open>PTTL\<close> within the same millisecond answers \<open>ms\<close>, as long as the expiration time fits 64 bits.
\<close>

theorem psetex_pttl:
  assumes "srv_ok s" "ready s c P_psetex [k, repr ms, a] 1" "0 < ms" "0 \<le> mstime (env s)" "mstime (env s) + ms < 2 ^ 63"
    "lua_caller (env s) = None"
  shows "\<exists>s1 s2. psetexCommand (set_argv s c [x, k, repr ms, a]) c = Some s1 \<and> sent s1 c = answer s c shared_ok \<and>
     pttlCommand (set_argv s1 c [y, k]) c = Some s2 \<and> sent s2 c = answer s1 c (int_reply ms)"
proof -
  let ?i = "db_of s c"
  have "ms < 2 ^ 63" using assms(4,5) by simp
  then obtain s1 where s1: "psetexCommand (set_argv s c [x, k, repr ms, a]) c = Some s1" "srv_ok s1" "room (view_of s1) 1"
      "client_list s1 = client_list s" "env s1 = env s" "db_of s1 c = ?i" "sent s1 c = answer s c shared_ok"
      "value_at s1 ?i k = Some (AStr a)" "ttl_at s1 ?i k = Some (wrap64 (mstime (env s) + ms))"
    using setex_effect [OF assms(1-3)] by blast
  have t: "wrap64 (mstime (env s) + ms) = mstime (env s) + ms" "wrap64 ms = ms"
    using assms(3-5) by (simp_all add: wrap64_id int_fits_def)
  let ?v = "asked s1 c [y, k]"
  have b: "v_basic P_pttl ?v c [k] = Some (v_ttlGeneric ?v c k True)" by (simp add: v_basic_def with1_def)
  have r: "ready s1 c P_pttl [k] 0" using assms(2) s1(3,4) by (simp add: ready_def args_ok_def offset_ok_def)
  obtain s2 where s2: "pttlCommand (set_argv s1 c [y, k]) c = Some s2" "view_of s2 = v_ttlGeneric ?v c k True"
    using run_command [OF s1(2) r b, of sample_procs] by (auto simp: basic_proc_def)
  have nex: "\<not> v_expired ?v ?i k" using s1(5,9) t assms(3,6) by (simp add: v_expired_def v_now_def)
  have "v_ttl (v_read ?v ?i k) ?i k = Some (mstime (env s) + ms)" using nex s1(9) t by (simp add: v_expire_def)
  moreover have "v_visible ?v ?i k \<noteq> None" using nex s1(8) by (simp add: visible_live)
  ultimately have "v_ttlGeneric ?v c k True = v_put (v_read ?v ?i k) c (int_reply ms)"
    using s1(5,6) t(2) assms(3,4) by (auto simp: v_ttlGeneric_def Let_def)
  then have "sent s2 c = answer s1 c (int_reply ms)"
    using view_output(1) [of s2 c] unfolding s2(2) answer_def by (simp add: out_answer)
  then show ?thesis using s1 s2(1) by blast
qed

lemma sample_psetex_ready: "ready (sample_on sample_env) 1 P_psetex [bs ''k'', repr 500, bs ''v''] 1"
  using length_repr_small [of 500] by (simp add: ready_def args_ok_def offset_ok_def bs_def int_fits_def)

theorem psetex_pttl_witness:
  "\<exists>s1 s2. psetexCommand (set_argv (sample_on sample_env) 1 [bs ''PSETEX'', bs ''k'', repr 500, bs ''v'']) 1 = Some s1 \<and>
     sent s1 1 = answer (sample_on sample_env) 1 shared_ok \<and>
     pttlCommand (set_argv s1 1 [bs ''PTTL'', bs ''k'']) 1 = Some s2 \<and> sent s2 1 = answer s1 1 (int_reply 500)"
  by (rule psetex_pttl [OF sample_ok(2) sample_psetex_ready]) simp_all

text \<open>A server on which the time of a key has passed: the key is set and the clock moves on.\<close>

definition sample_late :: redisServer where
  "sample_late = (the (psetexCommand (set_argv (sample_on sample_env) 1 [bs ''PSETEX'', bs ''k'', repr 500, bs ''v'']) 1))
     \<lparr>env := sample_env\<lparr>mstime := 2000000\<rparr>\<rparr>"

theorem expired_get_witness:
  "\<exists>s'. getCommand (set_argv sample_late 1 [bs ''GET'', bs ''k'']) 1 = Some s' \<and>
     sent s' 1 = answer sample_late 1 shared_nullbulk \<and> value_at s' 0 (bs ''k'') = None"
proof -
  obtain s1 where s1: "psetexCommand (set_argv (sample_on sample_env) 1 [bs ''PSETEX'', bs ''k'', repr 500, bs ''v'']) 1 = Some s1"
      "srv_ok s1" "room (view_of s1) 1" "client_list s1 = [1, 2]" "env s1 = sample_env" "db_of s1 1 = 0"
      "ttl_at s1 0 (bs ''k'') = Some (wrap64 (mstime sample_env + 500))"
    using setex_effect [OF sample_ok(2) sample_psetex_ready, of "bs ''PSETEX''"] by auto
  let ?e = "sample_env\<lparr>mstime := 2000000\<rparr>"
  have l: "sample_late = s1\<lparr>env := ?e\<rparr>" using s1(1) by (simp add: sample_late_def)
  have seed: "hash_seed ?e = hash_seed (env s1)" using s1(5) by simp
  have "env_ok ?e" by (rule sample_env_ok) simp_all
  then have ok: "srv_ok sample_late" unfolding l using environment_ok [OF s1(2) _ seed] by simp
  note m = environment_maps [OF seed]
  have "room (view_of sample_late) 1"
    using s1(3) by (simp add: l room_def v_fits_def v_wfits_def m) (simp add: view_of_def)
  then have r: "ready sample_late 1 P_get [bs ''k''] 0"
    using s1(4) by (simp add: l ready_def args_ok_def offset_ok_def bs_def)
  have t: "ttl_at sample_late (db_of sample_late 1) (bs ''k'') = Some 1000500"
    using s1(6,7) by (simp add: l m wrap64_def)
  show ?thesis using expired_get [OF ok r _ _ _ t, of "bs ''GET''"] s1(6) by (auto simp: l)
qed

section \<open>Surprising behaviour\<close>

lemma select_out: "v_out (v_select v c j) c' = v_out v c'" "v_listens (v_select v c j) c' = v_listens v c'"
proof -
  have "can_write (cl\<lparr>c_db := j\<rparr>) = can_write cl" for cl by (simp add: can_write_def prepareClientToWrite_def)
  then show "v_listens (v_select v c j) c' = v_listens v c'" by (simp add: v_listens_def)
  show "v_out (v_select v c j) c' = v_out v c'" by (simp add: v_select_def v_out_def)
qed

text \<open>
  C37. The index of \<open>SELECT\<close> is cut to 32 bits before it is compared with the number of databases:
  \<open>SELECT 4294967296\<close> answers \<open>OK\<close> and selects database 0.
\<close>

theorem select_cuts_index:
  assumes "srv_ok s" "ready s c P_select [repr 4294967296] 0"
  shows "\<exists>s'. selectCommand (set_argv s c [x, repr 4294967296]) c = Some s' \<and> sent s' c = answer s c shared_ok \<and> db_of s' c = 0"
proof -
  let ?v = "asked s c [x, repr 4294967296]"
  have b: "v_basic P_select ?v c [repr 4294967296] = Some (v_selectCommand ?v c (repr 4294967296))"
    by (simp add: v_basic_def with1_def)
  obtain s' where s': "selectCommand (set_argv s c [x, repr 4294967296]) c = Some s'"
      "view_of s' = v_selectCommand ?v c (repr 4294967296)"
    using run_command [OF assms b, of sample_procs] by (auto simp: basic_proc_def)
  have ll: "string2ll (repr 4294967296) = Some 4294967296" by (simp add: int_fits_def)
  have n: "0 < v_n (view_of s)" using vok_db [OF srv_okD(2) [OF assms(1)]] by (metis gr0I not_less0)
  have cl: "\<not> cluster_enabled (env s)" using srv_okD(5) [OF assms(1)] by (simp add: env_ok_def)
  have w: "v_selectCommand ?v c (repr 4294967296) = v_put (v_select ?v c 0) c shared_ok"
    using ll n cl by (simp add: v_selectCommand_def wrap32_def)
  have "sent s' c = answer s c shared_ok"
    using view_output(1) [of s' c] unfolding s'(2) w answer_def by (simp add: out_answer select_out)
  moreover have "db_of s' c = v_db (view_of s') c" by (simp add: fix_view_of cfix_fields)
  then have "db_of s' c = 0" unfolding s'(2) w by simp
  ultimately show ?thesis using s'(1) by blast
qed

theorem select_cuts_index_witness:
  "\<exists>s'. selectCommand (set_argv (sample_on sample_env) 1 [bs ''SELECT'', repr 4294967296]) 1 = Some s' \<and>
     sent s' 1 = answer (sample_on sample_env) 1 shared_ok \<and> db_of s' 1 = 0"
  by (rule select_cuts_index [OF sample_ok(2)])
     (use length_repr_small [of 4294967296] in \<open>simp add: ready_def args_ok_def offset_ok_def int_fits_def\<close>)

text \<open>
  C38. The conversion of seconds to milliseconds overflows: \<open>SETEX\<close> with 9223372036854775807 seconds
  answers \<open>OK\<close> and stores a time that has already passed, so that the key does not exist for any
  command on a master.
\<close>

theorem setex_overflows:
  assumes "srv_ok s" "ready s c P_setex [k, repr 9223372036854775807, a] 0" "\<not> masterhost (env s)" "\<not> loading (env s)"
    "lua_caller (env s) = None" "1000 \<le> mstime (env s)" "mstime (env s) < 2 ^ 63"
  shows "\<exists>s'. setexCommand (set_argv s c [x, k, repr 9223372036854775807, a]) c = Some s' \<and>
     sent s' c = answer s c shared_ok \<and> live_at s' (db_of s c) k = None"
proof -
  let ?v = "asked s c [x, k, repr 9223372036854775807, a]" and ?i = "db_of s c"
  let ?w = "v_setGeneric ?v c False False k a (Some (repr 9223372036854775807)) True shared_ok shared_nullbulk"
  have ll: "string2ll (repr 9223372036854775807) = Some 9223372036854775807" by (simp add: int_fits_def)
  have b: "v_basic P_setex ?v c [k, repr 9223372036854775807, a] = Some ?w" by (simp add: v_basic_def with3_def)
  have ms: "wrap64 (9223372036854775807 * 1000) = -1000" by (simp add: wrap64_def)
  have t: "wrap64 (mstime (env s) + -1000) = mstime (env s) - 1000" using assms(6,7) by (simp add: wrap64_def)
  have w: "?w = v_put (v_notify (v_notify (v_remember (v_setttl (v_dirty (v_setkey ?v ?i k (AStr a)) 1) ?i k
      (Some (mstime (env s) - 1000))) (Some c) ?i k) ''set'' k ?i) ''expire'' k ?i) c shared_ok"
    using ll ms t by (simp add: v_setGeneric_def Let_def)
  obtain s' where s': "setexCommand (set_argv s c [x, k, repr 9223372036854775807, a]) c = Some s'" "view_of s' = ?w" "env s' = env s"
    using run_key_command [OF assms(1,2) _ b, of sample_procs] by (auto simp: on_keys_def basic_proc_def)
  have "sent s' c = answer s c shared_ok"
    using view_output(1) [of s' c] unfolding s'(2) w answer_def by (simp add: out_answer)
  moreover have "ttl_at s' ?i k = Some (mstime (env s) - 1000)" unfolding s'(2) w by simp
  then have "live_at s' ?i k = None"
    using assms(3-6) s'(3) by (simp add: live_at_def v_expired_def v_now_def)
  ultimately show ?thesis using s'(1) by blast
qed

theorem setex_overflows_witness:
  "\<exists>s'. setexCommand (set_argv (sample_on sample_env) 1 [bs ''SETEX'', bs ''k'', repr 9223372036854775807, bs ''v'']) 1 = Some s' \<and>
     sent s' 1 = answer (sample_on sample_env) 1 shared_ok \<and> live_at s' 0 (bs ''k'') = None"
proof -
  have r: "ready (sample_on sample_env) 1 P_setex [bs ''k'', repr 9223372036854775807, bs ''v''] 0"
    using length_repr_small [of 9223372036854775807] by (simp add: ready_def args_ok_def offset_ok_def bs_def int_fits_def)
  show ?thesis using setex_overflows [OF sample_ok(2) r, of "bs ''SETEX''"] by simp
qed

lemma marked_asked: "marked (asked s c args) c' = flag_dirty_cas (clients s c')"
  using marked_view_of [of s c'] by (auto simp: marked_def)

text \<open>
  C39. \<open>MOVE\<close> does not tell the clients that watch a key: it takes a key that exists out of the database
  of the client and marks nobody, so that a transaction that watches the key goes through although
  the key has vanished.
\<close>

theorem move_marks_nobody:
  assumes "srv_ok s" "ready s c P_move [k, repr (int j)] 0" "j < length (dbs s)" "j < 2 ^ 31" "j \<noteq> db_of s c"
    "live_at s (db_of s c) k = Some a" "live_at s j k = None"
  shows "\<exists>s'. moveCommand (set_argv s c [x, k, repr (int j)]) c = Some s' \<and> sent s' c = answer s c shared_cone \<and>
     value_at s' (db_of s c) k = None \<and> value_at s' j k = Some a \<and>
     (\<forall>c'. flag_dirty_cas (clients s' c') = flag_dirty_cas (clients s c'))"
proof -
  let ?v = "asked s c [x, k, repr (int j)]" and ?i = "db_of s c"
  let ?w = "v_move ?v c k (repr (int j))"
  have b: "v_basic P_move ?v c [k, repr (int j)] = Some ?w" by (simp add: v_basic_def with2_def)
  have ll: "string2ll (repr (int j)) = Some (int j)" using assms(4) by (simp add: int_fits_def)
  have n: "v_n ?v = length (dbs s)" by (simp add: view_of_def)
  have cl: "\<not> cluster_enabled (env s)" using srv_okD(5) [OF assms(1)] by (simp add: env_ok_def)
  have src: "v_expire ?v ?i k = ?v" "v_kv ?v ?i k = Some a"
    using expire_ttl [of ?v ?i k] assms(6) live_asked [of s c "[x, k, repr (int j)]" ?i k] by auto
  let ?u = "v_expire ?v j k"
  have dst: "v_kv ?u j k = None" using assms(7) live_asked by simp
  have w: "?w = v_put (v_dirty (v_dbdel (lazyfree_lazy_server_del (env s)) (v_moved_ttl (v_add ?u j k a) c j k (ttl_at s ?i k)) ?i k) 1)
      c shared_cone"
    using ll n cl src dst assms(3-5) by (simp add: v_move_def Let_def)
  obtain s' where s': "moveCommand (set_argv s c [x, k, repr (int j)]) c = Some s'" "view_of s' = ?w"
    using run_command [OF assms(1,2) b, of sample_procs] by (auto simp: basic_proc_def)
  have "sent s' c = answer s c shared_cone"
    using view_output(1) [of s' c] unfolding s'(2) w answer_def by (simp add: out_answer)
  moreover have "value_at s' ?i k = None" "value_at s' j k = Some a" unfolding s'(2) w using assms(5) by simp_all
  moreover have "flag_dirty_cas (clients s' c') = flag_dirty_cas (clients s c')" for c'
    using marked_view_of [of s' c'] unfolding s'(2) w by (simp add: marked_asked)
  ultimately show ?thesis using s'(1) by blast
qed

theorem move_marks_nobody_witness:
  "\<exists>s'. moveCommand (set_argv (sample_set sample_env (bs ''k'') (bs ''v'')) 1 [bs ''MOVE'', bs ''k'', repr 1]) 1 = Some s' \<and>
     value_at s' 0 (bs ''k'') = None \<and> value_at s' 1 (bs ''k'') = Some (AStr (bs ''v''))"
proof -
  let ?s = "sample_set sample_env (bs ''k'') (bs ''v'')"
  have len: "length (bs ''k'') \<le> 512 * 1024 * 1024" "length (bs ''v'') \<le> 512 * 1024 * 1024" by (simp_all add: bs_def)
  note s = sample_set_ok [OF sample_env_ok' len]
  have r: "ready ?s 1 P_move [bs ''k'', repr (int 1)] 0"
    using s length_repr_small [of 1] by (simp add: ready_def args_ok_def offset_ok_def bs_def int_fits_def)
  have n: "1 < length (dbs ?s)" using s(10) by simp
  have l: "live_at ?s (db_of ?s 1) (bs ''k'') = Some (AStr (bs ''v''))" "live_at ?s 1 (bs ''k'') = None"
    using s by (simp_all add: live_at_def not_expired)
  show ?thesis using move_marks_nobody [OF s(1) r n _ _ l, of "bs ''MOVE''"] s(6) by auto
qed

text \<open>
  C40. \<open>DECRBY\<close> negates its argument without a check. The most negative 64-bit number has no negation and
  is added as it is: on a key that counts as \<open>n\<close>, from 0 on, \<open>DECRBY -9223372036854775808\<close> stores and
  answers \<open>n - 9223372036854775808\<close>, where subtracting would have to overflow.
\<close>

theorem decrby_min_subtracts:
  assumes "srv_ok s" "ready s c P_decrby [k, repr (-(2 ^ 63))] 0" "counter_at s (db_of s c) k n" "0 \<le> n"
  shows "\<exists>s'. decrbyCommand (set_argv s c [x, k, repr (-(2 ^ 63))]) c = Some s' \<and>
     value_at s' (db_of s c) k = Some (AStr (repr (n - 2 ^ 63))) \<and> sent s' c = answer s c (int_reply (n - 2 ^ 63))"
proof -
  let ?a = "repr (-(2 ^ 63))"
  let ?v = "asked s c [x, k, ?a]"
  have ll: "string2ll ?a = Some (-(2 ^ 63))" by (rule string2ll_repr) (simp add: int_fits_def)
  have neg: "wrap64 (- (-(2 ^ 63))) = -(2 ^ 63)" by (simp add: wrap64_def)
  have b: "v_basic P_decrby ?v c [k, ?a] = Some (v_incr ?v c k (-(2 ^ 63)))"
    unfolding v_basic_def with2_def v_incrby_def by (simp only: command_proc.case list.case ll option.case neg)
  obtain s' where s': "decrbyCommand (set_argv s c [x, k, ?a]) c = Some s'" "view_of s' = v_incr ?v c k (-(2 ^ 63))"
    using run_command [OF assms(1,2) b, of sample_procs] by (auto simp: basic_proc_def)
  have "n < 2 ^ 63"
    using assms(3,4) string2ll_repr_inv by (auto simp: counter_at_def int_fits_def split: option.splits aval.splits)
  then have fits: "int_fits 8 (n + -(2 ^ 63))" "n + -(2 ^ 63) = n - 2 ^ 63" "int_fits 8 (-(2 ^ 63))"
    using assms(4) by (simp_all add: int_fits_def)
  show ?thesis using incr_effect [OF assms(3) fits(3) s'(2)] fits(1,2) s'(1) by auto
qed

theorem decrby_min_subtracts_witness:
  "\<exists>s'. decrbyCommand (set_argv (sample_on sample_env) 1 [bs ''DECRBY'', bs ''n'', repr (-(2 ^ 63))]) 1 = Some s' \<and>
     value_at s' 0 (bs ''n'') = Some (AStr (repr (0 - 2 ^ 63)))"
proof -
  have r: "ready (sample_on sample_env) 1 P_decrby [bs ''n'', repr (-(2 ^ 63))] 0"
    using length_repr_small [of "-(2 ^ 63)"] by (simp add: ready_def args_ok_def offset_ok_def bs_def int_fits_def)
  have n: "counter_at (sample_on sample_env) (db_of (sample_on sample_env) 1) (bs ''n'') 0"
    by (simp add: counter_at_def live_at_def)
  show ?thesis using decrby_min_subtracts [OF sample_ok(2) r n, of "bs ''DECRBY''"] by auto
qed

section \<open>Values of another type\<close>

text \<open>
  The commands that test the type of the value. Those with numbers among their arguments read the
  numbers first.
\<close>

definition checks_type :: "command_proc \<Rightarrow> bool" where
  "checks_type p \<longleftrightarrow> p \<in> {P_get, P_getset, P_append, P_strlen, P_incr, P_decr, P_incrby, P_decrby, P_setrange, P_getrange}"

definition numbers_ok :: "command_proc \<Rightarrow> sds list \<Rightarrow> bool" where
  "numbers_ok p rest \<longleftrightarrow>
     (if p = P_incrby \<or> p = P_decrby then string2ll (rest ! 0) \<noteq> None
      else if p = P_setrange then (case string2ll (rest ! 0) of None \<Rightarrow> False | Some off \<Rightarrow> 0 \<le> off)
      else if p = P_getrange then string2ll (rest ! 0) \<noteq> None \<and> string2ll (rest ! 1) \<noteq> None
      else True)"

text \<open>
  C23. The string commands that read or change a value refuse values of other types: on a key that
  holds a list, a set, a hash, a sorted set or a module value and whose time has not passed, \<open>GET\<close>,
  \<open>GETSET\<close>, \<open>APPEND\<close>, \<open>STRLEN\<close>, \<open>INCR\<close>, \<open>DECR\<close>, and with valid numbers \<open>INCRBY\<close>, \<open>DECRBY\<close>, \<open>SETRANGE\<close> and
  \<open>GETRANGE\<close>, answer the \<open>WRONGTYPE\<close> error, and no key of any database changes its value or its time. (The
  commands that replace a value whatever it is, \<open>SET\<close>, \<open>SETNX\<close>, \<open>SETEX\<close>, \<open>PSETEX\<close>, \<open>MSET\<close> and \<open>MSETNX\<close>, and \<open>MGET\<close>,
  which answers null for them, make no such test.)
\<close>

theorem wrong_type_refused:
  assumes "srv_ok s" "ready s c p (k # rest) 0" "checks_type p" "modelled p (k # rest)" "numbers_ok p rest"
    "value_at s (db_of s c) k = Some (AObj v)" "\<not> v_expired (view_of s) (db_of s c) k"
  shows "\<exists>s'. basic_proc procs p (set_argv s c (x # k # rest)) c = Some s' \<and> sent s' c = answer s c shared_wrongtypeerr \<and>
     (\<forall>i k'. value_at s' i k' = value_at s i k' \<and> ttl_at s' i k' = ttl_at s i k')"
proof -
  let ?v = "asked s c (x # k # rest)" and ?i = "db_of s c"
  have e: "v_expire ?v ?i k = ?v" using assms(7) by (simp add: v_expire_def)
  have vis: "v_visible ?v ?i k = Some (AObj v)" using assms(6,7) by (subst visible_live) simp_all
  have "v_basic p ?v c (k # rest) = Some (v_put ?v c shared_wrongtypeerr) \<or>
      v_basic p ?v c (k # rest) = Some (v_put (v_read ?v ?i k) c shared_wrongtypeerr)"
    using assms(3-6) e vis
    by (auto simp: checks_type_def numbers_ok_def v_basic_def with1_def with2_def with3_def modelled_def needs_def v_get_def
        v_getset_def v_append_def v_strlen_def v_incr_def v_incrby_def v_setrange_def v_getrange_def Let_def
        split: list.splits option.splits)
  then obtain u where u: "v_basic p ?v c (k # rest) = Some (v_put u c shared_wrongtypeerr)" "u = ?v \<or> u = v_read ?v ?i k" by blast
  obtain s' where s': "basic_proc procs p (set_argv s c (x # k # rest)) c = Some s'" "view_of s' = v_put u c shared_wrongtypeerr"
    using run_command [OF assms(1,2) u(1), of procs] by auto
  have "sent s' c = answer s c shared_wrongtypeerr"
    using view_output(1) [of s' c] u(2) unfolding s'(2) answer_def by (auto simp: out_answer)
  moreover have "value_at s' i k' = value_at s i k' \<and> ttl_at s' i k' = ttl_at s i k'" for i k'
    using u(2) e unfolding s'(2) by auto
  ultimately show ?thesis using s'(1) by blast
qed

text \<open>A server whose database 0 holds a list under the key \<open>l\<close>.\<close>

definition sample_list :: redisServer where
  "sample_list = the (dbAdd (sample_on sample_env) 0 (bs ''l'')
     \<lparr>otype = OBJ_LIST, encoding = OBJ_ENCODING_QUICKLIST, lru = 0, ptr = PAddr 0\<rparr>)"

lemma sample_list_ok:
  "srv_ok sample_list" "value_at sample_list 0 (bs ''l'') = Some (AObj \<lparr>otype = OBJ_LIST, encoding = OBJ_ENCODING_QUICKLIST, lru = 0, ptr = PAddr 0\<rparr>)"
  "ttl_at sample_list 0 (bs ''l'') = None" "client_list sample_list = [1, 2]" "db_of sample_list 1 = 0"
  "room (view_of sample_list) 2"
proof -
  let ?o = "\<lparr>otype = OBJ_LIST, encoding = OBJ_ENCODING_QUICKLIST, lru = 0, ptr = PAddr 0\<rparr>" and ?v = "view_of (sample_on sample_env)"
  let ?w = "v_add ?v 0 (bs ''l'') (absval ?o)"
  note ok = srv_okD [OF sample_ok(2)]
  have "wp (dbAdd (sample_on sample_env) 0 (bs ''l'') ?o) (\<lambda>s'. rep s' ?w)"
    by (rule dbAdd_spec [OF ok(1)]) (simp_all add: obj_ok_def sdsEncodedObject_def v_fits_def)
  then have r: "rep sample_list ?w" by (auto simp: wp_def sample_list_def)
  have a: "absval ?o = AObj ?o" by (simp add: absval_def)
  note w = rep_view_of [OF r]
  have "vok ?w" using ok(2) by (auto simp: vok_def a)
  moreover have "watch_ok ?w" using ok(3) by (subst watch_ok_cong [of _ ?v]) simp_all
  moreover have "queues_ok ?w" using ok(4) by (subst queues_ok_same [of _ ?v]) simp_all
  moreover have "env sample_list = sample_env" using rep_env [OF r] by simp
  ultimately show "srv_ok sample_list" using r w by (simp add: srv_ok_def)
  show "value_at sample_list 0 (bs ''l'') = Some (AObj ?o)" "ttl_at sample_list 0 (bs ''l'') = None"
    unfolding w by (simp_all add: a)
  show "client_list sample_list = [1, 2]" using rep_client_list [OF r] rep_client_list [OF ok(1)] by simp
  have "db_of sample_list 1 = v_db ?w 1" using rep_fix(1) [OF r] by simp
  then show "db_of sample_list 1 = 0" by (simp add: fix_view_of cfix_fields)
  have "dom (v_kv ?w i) \<subseteq> {bs ''l''}" "dom (v_wk ?w i) = {}" for i by (auto split: if_splits)
  then have "card (dom (v_kv ?w i)) \<le> 1" "card (dom (v_wk ?w i)) = 0" for i
    using card_mono [of "{bs ''l''}" "dom (v_kv ?w i)"] by simp_all
  then have "card (dom (v_kv ?w i)) + 2 < 2 ^ 58" "card (dom (v_wk ?w i)) + 2 < 2 ^ 58" for i
    by (simp_all add: le_less_trans [where y = 1])
  then show "room (view_of sample_list) 2" unfolding w room_def v_fits_def v_wfits_def by blast
qed

theorem wrong_type_refused_witness:
  "\<exists>s'. appendCommand (set_argv sample_list 1 [bs ''APPEND'', bs ''l'', bs ''x'']) 1 = Some s' \<and>
     sent s' 1 = answer sample_list 1 shared_wrongtypeerr \<and> value_at s' 0 (bs ''l'') \<noteq> None"
proof -
  have "ready sample_list 1 P_append [bs ''l'', bs ''x''] 0" "modelled P_append [bs ''l'', bs ''x'']"
    "checks_type P_append" "numbers_ok P_append [bs ''x'']"
    using sample_list_ok(6) by (simp_all add: ready_def args_ok_def offset_ok_def bs_def sample_list_ok(3-5) modelled_def needs_def
        checks_type_def numbers_ok_def flip: numeral_2_eq_2)
  moreover have "\<not> v_expired (view_of sample_list) (db_of sample_list 1) (bs ''l'')"
    using sample_list_ok(3,5) by (simp add: not_expired)
  ultimately show ?thesis
    using wrong_type_refused [OF sample_list_ok(1), of 1 P_append "bs ''l''" "[bs ''x'']"] sample_list_ok by (simp add: basic_proc_def) metis
qed

end
