(* ===== verification/Server_Answers.thy ===== *)
theory Server_Answers
  imports Command_Properties
begin

text \<open>
  What \<open>processCommand\<close> does with a request of a reachable server, in terms of the view, and the parts
  of it that the properties of whole requests share.
\<close>

lemma process_view:
  assumes "reachable procs s" "fits_server s c args"
  shows "\<exists>s' b. processCommand procs (set_argv s c args) c = Some (s', b) \<and> reachable procs s' \<and>
     v_process (asked s c args) c = Some (view_of s', b)"
proof -
  note ok = reachable_ok [OF assms(1)]
  have "view_of (set_argv s c args) = asked s c args" by (rule rep_view_of [OF rep_argv_set [OF srv_okD(1) [OF ok]]])
  then show ?thesis
    using request_returns [OF ok assms(2), of procs] reachable.request [OF assms] by (metis (no_types, lifting))
qed

text \<open>The view of the request with the command in place.\<close>

abbreviation asked_cmd :: "redisServer \<Rightarrow> nat \<Rightarrow> sds list \<Rightarrow> redisCommand \<Rightarrow> view" where
  "asked_cmd s c args cmd \<equiv> v_client (asked s c args) c (\<lambda>cl. cl\<lparr>c_cmd := cmd, c_lastcmd := cmd\<rparr>)"

lemma fits_cons: "fits_server s c args \<Longrightarrow> args = hd args # tl args"
  by (simp add: fits_server_def)

lemma process_unknown:
  assumes "fits_server s c args" "strcasecmp (hd args) (bs ''quit'') \<noteq> 0" "commands (env s) (hd args) = None"
  shows "v_process (asked s c args) c =
     Some (v_put (v_flagT (asked s c args) c) c (error_format (unknown_command (hd args))), True)"
  using assms(2,3) fits_cons [OF assms(1)] by (cases args) (simp_all add: v_process_def)

lemma process_known:
  assumes "fits_server s c args" "strcasecmp (hd args) (bs ''quit'') \<noteq> 0" "commands (env s) (hd args) = Some cmd"
  shows "v_process (asked s c args) c = v_known (asked_cmd s c args cmd) c cmd"
  using assms(2,3) fits_cons [OF assms(1)] by (cases args) (simp_all add: v_process_def)

lemma process_quit:
  assumes "fits_server s c args" "strcasecmp (hd args) (bs ''quit'') = 0"
  shows "v_process (asked s c args) c =
     Some (v_client (v_put (asked s c args) c shared_ok) c (\<lambda>cl. cl\<lparr>flag_close_after_reply := True\<rparr>), False)"
  using assms(2) fits_cons [OF assms(1)] by (cases args) (simp_all add: v_process_def)

lemma asked_cmd_simps [simp]:
  "v_out (asked_cmd s c args cmd) c' = sent s c'" "v_listens (asked_cmd s c args cmd) c' = listens s c'"
  "v_args (asked_cmd s c args cmd) c = args" "c_cmd (v_fix (asked_cmd s c args cmd) c) = cmd"
  "queue_of (asked_cmd s c args cmd) c' = mstate (clients s c')"
  "flag_multi (v_fix (asked_cmd s c args cmd) c) = flag_multi (clients s c)"
  "authenticated (v_fix (asked_cmd s c args cmd) c) = authenticated (clients s c)"
proof -
  have w: "can_write (cl\<lparr>c_cmd := m, c_lastcmd := m'\<rparr>) = can_write cl" for cl m m'
    by (simp add: can_write_def prepareClientToWrite_def)
  show "v_out (asked_cmd s c args cmd) c' = sent s c'"
    using asked_simps(1) [of s c args c'] by (auto simp: v_out_def)
  show "v_listens (asked_cmd s c args cmd) c' = listens s c'"
    using asked_simps(2) [of s c args c']
    by (auto simp: v_listens_def v_fix_client can_write_cong w v_fix_def) (simp_all add: cfix_def)
  show "v_args (asked_cmd s c args cmd) c = args" "c_cmd (v_fix (asked_cmd s c args cmd) c) = cmd"
    "queue_of (asked_cmd s c args cmd) c' = mstate (clients s c')"
    "flag_multi (v_fix (asked_cmd s c args cmd) c) = flag_multi (clients s c)"
    "authenticated (v_fix (asked_cmd s c args cmd) c) = authenticated (clients s c)"
    by (simp_all add: v_fix_client cfix_fields fix_view_of)
qed

lemma flagT_out [simp]:
  "v_out (v_flagT v c) c' = v_out v c'" "v_listens (v_flagT v c) c' = v_listens v c'"
  "v_kv (v_flagT v c) = v_kv v" "v_ttl (v_flagT v c) = v_ttl v"
proof -
  have w: "can_write (cl\<lparr>flag_dirty_exec := b\<rparr>) = can_write cl" for cl b
    by (simp add: can_write_def prepareClientToWrite_def)
  show "v_out (v_flagT v c) c' = v_out v c'" by (simp add: v_flagT_def v_out_def)
  show "v_listens (v_flagT v c) c' = v_listens v c'"
    by (auto simp: v_flagT_def v_listens_def v_fix_client can_write_cong w v_fix_def) (simp_all add: cfix_def)
  show "v_kv (v_flagT v c) = v_kv v" "v_ttl (v_flagT v c) = v_ttl v" by (simp_all add: v_flagT_def)
qed

text \<open>A reply that is an error.\<close>

definition is_error :: "byte list \<Rightarrow> bool" where
  "is_error b \<longleftrightarrow> b \<noteq> [] \<and> hd b = 0x2D"

lemma is_error_bs: "is_error (bs (CHR ''-'' # x) @ y)"
  by (simp add: is_error_def bs_def)

lemma is_error_simps [simp]:
  "is_error (error_format msg)" "is_error (err e)" "is_error shared_noautherr" "is_error shared_bgsaveerr"
  "is_error shared_noreplicaserr" "is_error shared_roslaveerr" "is_error shared_masterdownerr"
  "is_error shared_loadingerr" "is_error shared_slowscripterr" "is_error (aof_error s)"
  unfolding error_format_def err_def shared_noautherr_def shared_bgsaveerr_def shared_noreplicaserr_def
    shared_roslaveerr_def shared_masterdownerr_def shared_loadingerr_def shared_slowscripterr_def aof_error_def
  by (rule is_error_bs)+

lemma if_SomeE:
  assumes "(if b then Some x else y) = Some z" obtains "x = z" | "y = Some z"
  using assms by (simp split: if_splits)

lemma refuse_error: "refuse s c cmd = Some (r, flag) \<Longrightarrow> is_error (refusal_bytes r)"
  unfolding refuse_def Let_def by (elim if_SomeE) (auto simp: refusal_bytes_def)

text \<open>The effects of a request that is turned away before its command runs.\<close>

definition turned_away :: "redisServer \<Rightarrow> nat \<Rightarrow> redisServer \<Rightarrow> bool" where
  "turned_away s c s' \<longleftrightarrow>
     (\<forall>i k. value_at s' i k = value_at s i k \<and> ttl_at s' i k = ttl_at s i k) \<and>
     (\<forall>c'. c' \<noteq> c \<longrightarrow> sent s' c' = sent s c') \<and> (\<exists>e. is_error e \<and> sent s' c = answer s c e)"

lemma turned_awayI:
  assumes "view_of s' = v_put v c e" "is_error e" "v_kv v = value_at s" "v_ttl v = ttl_at s"
    "\<And>c'. v_out v c' = sent s c'" "v_listens v c = listens s c"
  shows "turned_away s c s'"
proof -
  have "sent s' c' = (if c' = c \<and> listens s c then sent s c @ e else sent s c')" for c'
    unfolding view_output(1) [symmetric] assms(1) v_out_put assms(5,6) ..
  then have "sent s' c = answer s c e" "\<forall>c'. c' \<noteq> c \<longrightarrow> sent s' c' = sent s c'" by (simp_all add: answer_def)
  then show ?thesis using assms(1-4) by (auto simp: turned_away_def)
qed
lemma turned_away_views:
  "v_put (asked s c args) c e = view_of s' \<Longrightarrow> is_error e \<Longrightarrow> turned_away s c s'"
  "v_put (v_flagT (asked s c args) c) c e = view_of s' \<Longrightarrow> is_error e \<Longrightarrow> turned_away s c s'"
  "v_put (asked_cmd s c args cmd) c e = view_of s' \<Longrightarrow> is_error e \<Longrightarrow> turned_away s c s'"
  "v_put (v_flagT (asked_cmd s c args cmd) c) c e = view_of s' \<Longrightarrow> is_error e \<Longrightarrow> turned_away s c s'"
  by (rule turned_awayI, erule sym; simp)+

lemma refuse_cong:
  assumes "env s' = env s" "flag_master (clients s' c) = flag_master (clients s c)"
    "flag_pubsub (clients s' c) = flag_pubsub (clients s c)" "argv (clients s' c) = argv (clients s c)"
  shows "refuse s' c cmd = refuse s c cmd"
  unfolding refuse_def aof_error_def Let_def assms ..

lemma refuse_setcmd: "refuse (v_srv (asked_cmd s c args cmd')) c cmd = refuse (v_srv (asked s c args)) c cmd"
  by (rule refuse_cong) simp_all

lemma queue_out [simp]: "v_out (v_queue v c) c' = v_out v c'" "v_listens (v_queue v c) c' = v_listens v c'"
proof -
  have w: "can_write (cl\<lparr>mstate := q\<rparr>) = can_write cl" for cl q by (simp add: can_write_def prepareClientToWrite_def)
  show "v_out (v_queue v c) c' = v_out v c'" by (simp add: v_queue_def v_out_def)
  show "v_listens (v_queue v c) c' = v_listens v c'"
    by (auto simp: v_queue_def v_listens_def v_fix_client can_write_cong w v_fix_def) (simp_all add: cfix_def)
qed

text \<open>A request that passes every check runs its command.\<close>

lemma runs_command:
  assumes "reachable procs s" "fits_server s c args" "commands (env s) (hd args) = Some cmd"
    "strcasecmp (hd args) (bs ''quit'') \<noteq> 0" "\<not> bad_arity cmd args" "\<not> requirepass (env s) \<or> authenticated (clients s c)"
    "refuse (set_argv s c args) c cmd = None" "\<not> (flag_multi (clients s c) \<and> queues (cmd_proc cmd))"
  shows "\<exists>s' w. processCommand procs (set_argv s c args) c = Some (s', True) \<and> reachable procs s' \<and>
     v_proc (cmd_proc cmd) (v_before (asked_cmd s c args cmd) c) c = Some w \<and>
     view_of s' = v_call (v_after (asked_cmd s c args cmd) c CMD_CALL_FULL w) HandleReadyLists"
proof -
  let ?v = "asked_cmd s c args cmd"
  note ok = srv_okD [OF reachable_ok [OF assms(1)]]
  obtain s' b where s': "processCommand procs (set_argv s c args) c = Some (s', b)" "reachable procs s'"
      "v_process (asked s c args) c = Some (view_of s', b)"
    using process_view [OF assms(1,2)] by blast
  have env: "\<not> cluster_enabled (env s)" "maxmemory (env s) = 0" using ok(5) by (simp_all add: env_ok_def)
  have ref: "refuse (v_srv ?v) c cmd = None"
    using refuse_rep [OF rep_argv_set [OF ok(1)], of c args c cmd] refuse_setcmd [of s c args cmd cmd] assms(7) by simp
  obtain u where u: "v_call_with v_proc ?v c CMD_CALL_FULL = Some u" "view_of s' = v_call u HandleReadyLists" "b"
    using s'(3) process_known [OF assms(2,4,3)] assms(5,6,8) env ref by (auto simp: v_known_def redirects_def)
  then show ?thesis using s' by (auto simp: v_call_with_def)
qed

lemma exec_out [simp]:
  "v_out (v_discardT v c) c' = v_out v c'" "v_out (v_lift (\<lambda>s. handle_monitor s c) v) c' = v_out v c'"
  by (simp_all add: v_out_def handle_monitor_frame v_discardT_def v_unwatch_keys_def v_dropq_def)

lemma known_same:
  assumes "v_known v c cmd = Some (u, b)"
    "\<And>w. v_call_with v_proc v c CMD_CALL_FULL = Some w \<Longrightarrow> v_kv w i k = v_kv v i k \<and> v_ttl w i k = v_ttl v i k"
  shows "v_kv u i k = v_kv v i k \<and> v_ttl u i k = v_ttl v i k"
  using assms by (auto simp: v_known_def v_queue_def split: if_splits option.splits)

end
