(* ===== verification/Spec2Isabelle.thy ===== *)
theory Spec2Isabelle
  imports Intset Dict_Map Dict_Scan_Correct Server_Answers
begin

text \<open>
  A verification library for the Redis 4.0.9 server vendored under \<open>src/redis\<close>, the cache of the system.
  It models the path of a request through the server: from the arguments of a client
  (\<open>processCommand\<close>) over the table of commands, the transactions and the commands on keys and
  strings, down to the keyspace, the objects, the reply buffers and the hash tables, and it shows that
  this code implements operations on finite maps.

  \<^bold>\<open>The parts and their theories.\<close>

  \<^item> \<open>Redis_Prelude\<close>: machine types, blocks of memory with bounds, shared lemmas.
  \<^item> \<open>Intset\<close>: \<open>intset.c\<close> on the bytes of its block. Every operation stays inside the block and is the
    operation on sets of integers (\<open>intset_add_correct\<close>, \<open>intset_remove_correct\<close>, \<open>intset_find_correct\<close>).
  \<^item> \<open>Siphash\<close>, \<open>Key_Types\<close>: \<open>siphash.c\<close>, and the dictionary types of \<open>server.c\<close> with their hash and
    comparison functions. The types with sds keys interpret the locales \<open>dict_keys\<close> and \<open>dict_map\<close>.
  \<^item> \<open>Dict\<close>, \<open>Dict_Correct\<close>, \<open>Dict_Map\<close>: \<open>dict.c\<close> with incremental rehashing over two tables. The locale
    \<open>dict_keys\<close> is what a key type promises; in it every operation returns, keeps the invariant and acts
    on the finite map of the dictionary. \<open>dict_refines_map\<close> is the statement for sequences of operations,
    \<open>rehash_completes\<close> and \<open>rehash_milliseconds_returns\<close> are the progress of rehashing.
  \<^item> \<open>Dict_Scan\<close>, \<open>Dict_Scan_Correct\<close>: the cursor of \<open>dictScan\<close>, the guarantee of a whole iteration
    (\<open>scan_complete\<close>, \<open>scan_complete_growing\<close>, \<open>scan_terminates\<close>) and the case in which it fails
    (\<open>scan_shrink_misses\<close>).
  \<^item> \<open>Util\<close>, \<open>Util_Correct\<close>: the conversions of \<open>util.c\<close> and \<open>endianconv.c\<close>. \<open>ll2string\<close> and \<open>string2ll\<close>
    are inverse to each other on the canonical representations.
  \<^item> \<open>Server\<close>: the data of \<open>server.h\<close>: objects, clients, databases, commands, the server. What the
    commands only read (the clock, the configuration, random numbers, reference counts) is the
    record \<open>server_env\<close>; calls that leave the model are recorded in the field \<open>calls\<close>.
  \<^item> \<open>Reply\<close>, \<open>Objects\<close>, \<open>Keyspace\<close>, \<open>Db_Commands\<close>, \<open>String_Commands\<close>, \<open>Transactions\<close>, \<open>Command_Table\<close>:
    the operations of \<open>networking.c\<close>, \<open>object.c\<close> and \<open>evict.c\<close>, \<open>db.c\<close> and \<open>lazyfree.c\<close>, \<open>expire.c\<close>, \<open>t_string.c\<close>,
    \<open>multi.c\<close>, \<open>server.c\<close>, one definition for each function and loop, under the names of the code.
  \<^item> \<open>Keyspace_View\<close>: the abstract state. The \<open>view\<close> of a server has for every database the map from
    keys to values, the map from keys to times, and the clients that watch a key, together with the
    output of each client. \<open>rep s v\<close> says that \<open>s\<close> is well formed and has the view \<open>v\<close>; \<open>wp x Q\<close> says that
    \<open>x\<close> returns and satisfies \<open>Q\<close>.
  \<^item> \<open>Keyspace_Correct\<close>, \<open>Command_View\<close>, \<open>Db_Commands_Correct\<close>, \<open>String_Commands_Correct\<close>,
    \<open>Transactions_Correct\<close>, \<open>Execution_Correct\<close>, \<open>Call_Correct\<close>, \<open>Process_Correct\<close>: an abstract operation
    on views for each operation of the code (\<open>v_get\<close>, \<open>v_rename\<close>, \<open>v_exec\<close>, \<open>v_process\<close>), and the proof
    that the code returns and refines it.
  \<^item> \<open>Command_Steps\<close>, \<open>Command_Invariants\<close>, \<open>Watch_Correct\<close>: the commands on keys as compositions of a few
    steps (\<open>vsteps\<close>), from which the invariants, and that modified keys mark their watchers, follow
    by rule induction.
  \<^item> \<open>Table_Correct\<close>, \<open>Server_Runs\<close>, \<open>Optimistic_Locks\<close>: the loading of the table, the states that a server
    can reach (\<open>reachable\<close>) and the runs of other clients between \<open>WATCH\<close> and \<open>EXEC\<close> (\<open>others\<close>).
  \<^item> \<open>Command_Runs\<close>, \<open>Sample_Server\<close>, \<open>Command_Properties\<close>, \<open>Server_Answers\<close>: what a client observes
    (\<open>value_at\<close>, \<open>ttl_at\<close>, \<open>sent\<close>, \<open>answer\<close>), a concrete server, and the properties of single commands.
  \<^item> This theory has the properties of whole requests: every request is answered, and the invariants of
    reachable states; what is refused; transactions and optimistic locking; the table.

  \<^bold>\<open>Conventions.\<close> A command takes the server and the number of the calling client. \<open>None\<close> is a failed
  assertion, an access outside an array or \<open>argv\<close>, or code outside the model, so that a theorem that a
  function returns \<open>Some\<close> excludes them. Integers of the code that can overflow wrap around with
  \<open>wrap64\<close> and \<open>wrap32\<close>, also where the overflow is of a signed type: there C leaves the result
  undefined, and the model follows the two's complement arithmetic of the compiled code. In \<open>dict.c\<close> an
  overflow of \<open>n*10\<close> in \<open>dictRehash\<close> and an allocation of \<open>PTRDIFF_MAX\<close> bytes or more are \<open>None\<close>. Strings are
  lists of bytes; a shared object and its copies are not told apart, except by the reference counts
  that the code tests, about which nothing is assumed.

  \<^bold>\<open>Bounds.\<close> Every loop is a structural recursion or comes with its proof of termination, apart from the
  loops of \<open>dictScan\<close>, \<open>intsetSearch\<close> and \<open>dictRehashMilliseconds\<close>, which are partial functions that are
  proved to return; no fuel is used. A request fits (\<open>fits_server\<close>) if its arguments have at most
  512 MB each, which is the default of \<open>proto-max-bulk-len\<close> (servers configured to accept more are not
  considered), and are fewer than 2147483648, if the tables stay below 2 to the power of 58 entries with
  one more for each argument, so that their size in bytes can be allocated, and, for \<open>SETRANGE\<close>, if offset and
  length do not overflow together: beyond that the test of \<open>checkStringLength\<close> is passed by an
  overflow. The environment (\<open>env_ok\<close>) has commands of the table only, among them \<open>DEL\<close> and
  \<open>UNLINK\<close>, no cluster and no \<open>maxmemory\<close>.

  \<^bold>\<open>Not modelled.\<close> The commands on lists, sets, hashes and sorted sets and the representations of these
  types: their values are opaque objects, which the keyspace stores, moves and deletes, and their
  procedures are the parameter \<open>procs\<close>, of which nothing is assumed; the requests considered are
  those of the modelled commands. \<open>INCRBYFLOAT\<close> needs the \<open>long double\<close> of the platform. Persistence,
  replication, cluster, sentinel, the event loop and the sockets are input and output; where the modelled code
  calls them the call is recorded. Scripts and modules are foreign code. Parsing of the protocol,
  release of clients, the sampling of the active expiration cycle and the eviction under \<open>maxmemory\<close>
  are left out, as are the iterators and the random sampling of \<open>dict.c\<close> and the
  memory layout of \<open>sds.c\<close>. The services around the cache (web server, cache server, store client)
  only connect client libraries for HTTP, Redis and Cassandra.
\<close>

section \<open>Every state and every request\<close>

text \<open>
  C1. No request gets stuck. On every state that a server can reach from its start, by connections,
  changes of the environment and requests, \<open>processCommand\<close> returns for every request that fits the limits
  of the protocol and of the tables and whose command is part of the model (a transaction included); the new state is reachable, and
  its view is the one that the abstract processing of the request computes from maps, with no
  dictionary, rehashing, object encoding or output buffer in it.
\<close>

theorem requests_answered:
  assumes "reachable procs s" "fits_server s c args"
  shows "\<exists>s' b. processCommand procs (set_argv s c args) c = Some (s', b) \<and> reachable procs s' \<and>
     v_process (view_of (set_argv s c args)) c = Some (view_of s', b)"
  using process_view [OF assms] rep_view_of [OF rep_argv_set [OF srv_okD(1) [OF reachable_ok [OF assms(1)]]]] by simp

lemma sample_set_fits: "fits_server (sample_on sample_env) 1 [bs ''set'', bs ''k'', bs ''v'']"
  by (simp add: fits_server_def sample_lookups(2) needs_def offset_ok_def args_ok_def qsize_def) (simp add: bs_def)

lemma sample_not_quit:
  "strcasecmp (bs ''set'') (bs ''quit'') \<noteq> 0" "strcasecmp (bs ''multi'') (bs ''quit'') \<noteq> 0"
  "strcasecmp (bs ''watch'') (bs ''quit'') \<noteq> 0"
  by code_simp+

lemma sample_not_refused:
  assumes "cmd_proc cmd \<noteq> P_ping"
  shows "refuse (set_argv (sample_on sample_env) c args) c cmd = None"
proof -
  have "\<not> flag_pubsub (clients (set_argv (sample_on sample_env) c args) c)"
    by (simp add: set_argv_def upd_client_def sample_on_def createClient_def initServer_def idle_client_def Let_def)
  moreover have "env (set_argv (sample_on sample_env) c args) = sample_env" by (simp add: set_argv_def upd_client_def)
  ultimately show ?thesis using assms by (simp add: refuse_def Let_def) (simp add: sample_env_def)
qed

text \<open>The states after this request, and after \<open>MULTI\<close>.\<close>

definition sample_req :: redisServer where
  "sample_req = fst (the (processCommand sample_procs (set_argv (sample_on sample_env) 1 [bs ''set'', bs ''k'', bs ''v'']) 1))"

definition sample_multi :: redisServer where
  "sample_multi = fst (the (processCommand sample_procs (set_argv (sample_on sample_env) 1 [bs ''multi'']) 1))"

lemma sample_runs:
  assumes "fits_server (sample_on sample_env) 1 args" "sample_lookup (hd args) = Some cmd" "\<not> bad_arity cmd args"
    "strcasecmp (hd args) (bs ''quit'') \<noteq> 0" "cmd_proc cmd \<noteq> P_ping"
    "s' = fst (the (processCommand sample_procs (set_argv (sample_on sample_env) 1 args) 1))"
  shows "reachable sample_procs s'"
    "\<exists>w. v_proc (cmd_proc cmd) (v_before (asked_cmd (sample_on sample_env) 1 args cmd) 1) 1 = Some w \<and>
       view_of s' = v_call (v_after (asked_cmd (sample_on sample_env) 1 args cmd) 1 CMD_CALL_FULL w) HandleReadyLists"
  using runs_command [OF sample_ok(1) [of sample_procs] assms(1), of cmd] assms(2-6) sample_not_refused by auto

lemma sample_req_ok:
  "reachable sample_procs sample_req" "value_at sample_req 0 (bs ''k'') = Some (AStr (bs ''v''))"
proof -
  let ?args = "[bs ''set'', bs ''k'', bs ''v'']"
  obtain cmd where cmd: "sample_lookup (hd ?args) = Some cmd" "cmd_proc cmd = P_set" "cmd_arity cmd = -3"
    using sample_lookups(2) by simp
  let ?v = "asked_cmd (sample_on sample_env) 1 ?args cmd"
  note r = sample_runs [OF sample_set_fits cmd(1) _ _ _ sample_req_def]
  show "reachable sample_procs sample_req" using r(1) cmd sample_not_quit by (simp add: bad_arity_def)
  have "v_proc P_set (v_before ?v 1) 1 = Some (v_setCommand (v_before ?v 1) 1 (bs ''k'') (bs ''v'') [])"
    by (simp add: v_proc_def v_run_def v_basic_def with2_def before_keeps)
  then have "view_of sample_req = v_call (v_after ?v 1 CMD_CALL_FULL (v_setCommand (v_before ?v 1) 1 (bs ''k'') (bs ''v'') [])) HandleReadyLists"
    using r(2) cmd sample_not_quit by (simp add: bad_arity_def)
  then show "value_at sample_req 0 (bs ''k'') = Some (AStr (bs ''v''))"
    by (simp add: v_setCommand_def v_setGeneric_def no_options_def Let_def before_keeps v_fix_client cfix_fields fix_view_of)
qed

lemma sample_multi_fits: "fits_server (sample_on sample_env) 1 [bs ''multi'']"
  by (simp add: fits_server_def sample_lookups(3) needs_def offset_ok_def args_ok_def qsize_def)

lemma lift_flags:
  assumes "\<And>c. noprop (clients (f (v_srv v)) c) = noprop (clients (v_srv v) c)"
  shows "flag_multi (v_fix (v_lift f v) c) = flag_multi (v_fix v c)" "flag_pubsub (v_fix (v_lift f v) c) = flag_pubsub (v_fix v c)"
    "flag_master (v_fix (v_lift f v) c) = flag_master (v_fix v c)"
proof -
  have n: "flag_pubsub cl = flag_pubsub cl' \<and> flag_master cl = flag_master cl'" if "noprop cl = noprop cl'" for cl cl'
    using that by (cases cl; cases cl') (auto simp: noprop_def clear_prop_flags_def)
  show "flag_multi (v_fix (v_lift f v) c) = flag_multi (v_fix v c)" "flag_pubsub (v_fix (v_lift f v) c) = flag_pubsub (v_fix v c)"
    "flag_master (v_fix (v_lift f v) c) = flag_master (v_fix v c)"
    using n [OF assms] noprop_fields(5) [OF assms] by (simp_all add: v_fix_def cfix_fields)
qed

lemma sample_multi_ok:
  "reachable sample_procs sample_multi" "env sample_multi = sample_env" "flag_multi (clients sample_multi 1)"
  "\<not> flag_pubsub (clients sample_multi 1)" "fits_server sample_multi 1 [bs ''set'', bs ''k'', bs ''v'']"
  "fits_server sample_multi 1 [bs ''set'']"
proof -
  obtain cmd where cmd: "sample_lookup (hd [bs ''multi'']) = Some cmd" "cmd_proc cmd = P_multi" "cmd_arity cmd = 1"
    using sample_lookups(3) by simp
  let ?v = "asked_cmd (sample_on sample_env) 1 [bs ''multi''] cmd"
  let ?m = "v_client (v_before ?v 1) 1 (\<lambda>cl. cl\<lparr>flag_multi := True\<rparr>)"
  note r = sample_runs [OF sample_multi_fits cmd(1) _ _ _ sample_multi_def]
  show re: "reachable sample_procs sample_multi" using r(1) cmd sample_not_quit by (simp add: bad_arity_def)
  have off: "\<not> flag_multi (v_fix (v_before ?v 1) 1)" "\<not> flag_pubsub (v_fix (v_before ?v 1) 1)"
    using lift_flags [of "\<lambda>s. call_before s 1" ?v 1]
    by (simp_all add: call_before_frame v_fix_client cfix_fields)
       (simp_all add: view_of_def client_view_def sample_on_def createClient_def Let_def)
  then have "v_proc P_multi (v_before ?v 1) 1 = Some (v_put ?m 1 shared_ok)"
    by (simp add: v_proc_def v_run_def v_basic_def v_multi_def)
  then have view: "view_of sample_multi = v_call (v_after ?v 1 CMD_CALL_FULL (v_put ?m 1 shared_ok)) HandleReadyLists"
    using r(2) cmd sample_not_quit by (simp add: bad_arity_def)
  show env: "env sample_multi = sample_env"
    using view_env [of sample_multi] unfolding view by (simp add: call_before_frame)
  have fl: "flag_multi (v_fix (view_of sample_multi) 1) \<and> \<not> flag_pubsub (v_fix (view_of sample_multi) 1)"
    unfolding view using off(2) lift_flags [of _ "v_put ?m 1 shared_ok" 1]
    by (simp add: v_after_def call_after_frame v_fix_client cfix_fields) (simp add: v_fix_def cfix_fields)
  then show "flag_multi (clients sample_multi 1)" "\<not> flag_pubsub (clients sample_multi 1)"
    by (simp_all add: fix_view_of cfix_fields)
  have "mstate (clients sample_multi 1) = queue_of (view_of sample_multi) 1" by (simp add: fix_view_of cfix_fields)
  then have q: "mstate (clients sample_multi 1) = []"
    unfolding view by (simp add: after_keeps queue_client before_keeps)
  have "client_list sample_multi = client_list (v_srv (view_of sample_multi))" by (simp add: view_of_def)
  then have cl: "client_list sample_multi = [1, 2]"
    unfolding view by (simp add: v_after_def call_after_frame call_before_frame) (simp add: view_of_def)
  have "dom (v_kv (view_of sample_multi) i) = {}" "dom (v_wk (view_of sample_multi) i) = {}" for i
    unfolding view by (auto simp: dom_def)
  then have "room (view_of sample_multi) n" if "n < 2 ^ 58" for n using that by (simp add: room_def v_fits_def v_wfits_def)
  then show "fits_server sample_multi 1 [bs ''set'', bs ''k'', bs ''v'']" "fits_server sample_multi 1 [bs ''set'']"
    using q cl env by (simp_all add: fits_server_def sample_lookups(2) needs_def offset_ok_def args_ok_def qsize_def) (simp add: bs_def)
qed

theorem requests_answered_witness:
  "\<exists>s' b. processCommand sample_procs (set_argv (sample_on sample_env) 1 [bs ''set'', bs ''k'', bs ''v'']) 1 = Some (s', b) \<and>
     reachable sample_procs s' \<and>
     v_process (view_of (set_argv (sample_on sample_env) 1 [bs ''set'', bs ''k'', bs ''v''])) 1 = Some (view_of s', b)"
  by (rule requests_answered [OF sample_ok(1) sample_set_fits])

text \<open>
  C12. Every reachable state is well typed: the dictionaries of every database satisfy their invariant, a
  string object has the encoding its content needs, a key with a time to live has a value, and the
  database a client has selected exists.
\<close>

theorem reachable_well_typed:
  assumes "reachable procs s"
  shows "(\<forall>db \<in> set (dbs s). db_ok s db) \<and> (\<forall>i k. ttl_at s i k \<noteq> None \<longrightarrow> value_at s i k \<noteq> None) \<and>
     (\<forall>c. db_of s c < length (dbs s))"
proof -
  note ok = srv_okD [OF reachable_ok [OF assms]]
  have "db_of s c < length (dbs s)" for c using vok_db [OF ok(2), of c] rep_n [OF ok(1)] by (simp add: fix_view_of cfix_fields)
  then show ?thesis using ok(1) by (auto simp: rep_def ttl_ok_def)
qed

theorem reachable_well_typed_witness:
  "db_ok sample_req (dbs sample_req ! db_of sample_req 1) \<and> db_of sample_req 1 < length (dbs sample_req)"
  using reachable_well_typed [OF sample_req_ok(1)] by simp

text \<open>
  C13. The two records of a watched key always agree: a client is in the list that the dictionary
  \<open>watched_keys\<close> of the database holds for a key exactly if the key is in the list of the client, and
  it is there only once.
\<close>

theorem reachable_watchers_agree:
  assumes "reachable procs s"
  shows "((k, i) \<in> set (w_keys (clients s c)) \<longleftrightarrow> c \<in> set (watchers (view_of s) i k)) \<and> distinct (watchers (view_of s) i k)"
  using srv_okD(3) [OF reachable_ok [OF assms]] by (simp_all add: watch_ok_def fix_view_of cfix_fields)

section \<open>Requests that are turned away\<close>

lemma sample_variant:
  assumes "commands e = sample_lookup" "orig_commands e = sample_lookup" "\<not> cluster_enabled e" "maxmemory e = 0"
  shows "reachable procs (sample_on e)" "fits_server (sample_on e) 1 [bs ''set'', bs ''k'', bs ''v'']"
proof -
  show "reachable procs (sample_on e)" by (rule sample_reachable [OF sample_env_ok [OF assms]])
  show "fits_server (sample_on e) 1 [bs ''set'', bs ''k'', bs ''v'']"
    using assms(1) by (simp add: fits_server_def sample_lookups(2) needs_def offset_ok_def args_ok_def qsize_def) (simp add: bs_def)
qed

text \<open>
  C14. When a password is set, a client that is not authenticated changes nothing. Its request, unless it
  is \<open>QUIT\<close>, is answered with an error, no key changes its value or its time to live, and no other client
  is sent anything. (\<open>AUTH\<close> itself is not part of the model.)
\<close>

theorem unauthenticated_changes_nothing:
  assumes "reachable procs s" "fits_server s c args" "requirepass (env s)" "\<not> authenticated (clients s c)"
    "strcasecmp (hd args) (bs ''quit'') \<noteq> 0"
  shows "\<exists>s'. processCommand procs (set_argv s c args) c = Some (s', True) \<and> turned_away s c s'"
proof -
  obtain s' b where s': "processCommand procs (set_argv s c args) c = Some (s', b)" "v_process (asked s c args) c = Some (view_of s', b)"
    using process_view [OF assms(1,2)] by blast
  show ?thesis
  proof (cases "commands (env s) (hd args)")
    case None
    then show ?thesis using s' process_unknown [OF assms(2,5)] by (auto dest: turned_away_views)
  next
    case (Some cmd)
    have "cmd_proc cmd \<noteq> P_auth" using assms(2) Some by (auto simp: fits_server_def needs_def)
    then show ?thesis
      using s' process_known [OF assms(2,5) Some] assms(3,4)
      by (auto simp: v_known_def dest: turned_away_views split: if_splits)
  qed
qed

theorem unauthenticated_changes_nothing_witness:
  "\<exists>s'. processCommand sample_procs (set_argv (sample_on (sample_env\<lparr>requirepass := True\<rparr>)) 1 [bs ''set'', bs ''k'', bs ''v'']) 1 =
     Some (s', True) \<and> turned_away (sample_on (sample_env\<lparr>requirepass := True\<rparr>)) 1 s'"
  by (rule unauthenticated_changes_nothing [OF sample_variant(1) sample_variant(2)]) (simp_all add: sample_not_quit)

text \<open>
  C9. A read-only replica refuses writes. A request of a client other than the master for a command that
  the table flags as a write is answered with an error and changes no key, also inside \<open>MULTI\<close>.
\<close>

theorem replica_refuses_writes:
  assumes "reachable procs s" "fits_server s c args" "masterhost (env s)" "repl_slave_ro (env s)" "\<not> flag_master (clients s c)"
    "commands (env s) (hd args) = Some cmd" "cmd_write cmd" "strcasecmp (hd args) (bs ''quit'') \<noteq> 0"
  shows "\<exists>s'. processCommand procs (set_argv s c args) c = Some (s', True) \<and> turned_away s c s'"
proof -
  let ?v = "asked_cmd s c args cmd"
  obtain s' b where s': "processCommand procs (set_argv s c args) c = Some (s', b)" "v_process (asked s c args) c = Some (view_of s', b)"
    using process_view [OF assms(1,2)] by blast
  have "flag_master (clients (v_srv ?v) c) = flag_master (clients s c)" by (simp add: view_of_def client_view_def)
  then obtain r flag where r: "refuse (v_srv ?v) c cmd = Some (r, flag)"
    using assms(3-5,7) by (simp add: refuse_def Let_def)
  show ?thesis
    using s' process_known [OF assms(2,8,6)] r refuse_error [OF r]
    by (auto simp: v_known_def dest: turned_away_views split: if_splits)
qed

theorem replica_refuses_writes_witness:
  "\<exists>s'. processCommand sample_procs (set_argv (sample_on (sample_env\<lparr>masterhost := True\<rparr>)) 1 [bs ''set'', bs ''k'', bs ''v'']) 1 =
     Some (s', True) \<and> turned_away (sample_on (sample_env\<lparr>masterhost := True\<rparr>)) 1 s'"
proof -
  let ?s = "sample_on (sample_env\<lparr>masterhost := True\<rparr>)"
  obtain cmd where cmd: "commands (env ?s) (hd [bs ''set'', bs ''k'', bs ''v'']) = Some cmd" "cmd_write cmd"
    using sample_lookups(2) by simp
  have "reachable sample_procs ?s" "fits_server ?s 1 [bs ''set'', bs ''k'', bs ''v'']" by (rule sample_variant; simp)+
  from replica_refuses_writes [OF this _ _ _ cmd] show ?thesis by (simp add: sample_not_quit) (simp add: sample_env_def)
qed

section \<open>Transactions\<close>

text \<open>
  C10. Inside \<open>MULTI\<close> a command waits. A request that passes the checks, for a command other than \<open>EXEC\<close>,
  \<open>DISCARD\<close>, \<open>MULTI\<close> and \<open>WATCH\<close>, is answered with \<open>QUEUED\<close> and appended to the queue of its client as it
  came; no key changes.
\<close>

theorem multi_queues:
  assumes "reachable procs s" "fits_server s c args" "flag_multi (clients s c)" "commands (env s) (hd args) = Some cmd"
    "strcasecmp (hd args) (bs ''quit'') \<noteq> 0" "queues (cmd_proc cmd)" "\<not> bad_arity cmd args"
    "\<not> requirepass (env s) \<or> authenticated (clients s c)" "refuse (set_argv s c args) c cmd = None"
  shows "\<exists>s'. processCommand procs (set_argv s c args) c = Some (s', True) \<and> sent s' c = answer s c shared_queued \<and>
     mstate (clients s' c) = mstate (clients s c) @ [(cmd, args)] \<and>
     (\<forall>i k. value_at s' i k = value_at s i k \<and> ttl_at s' i k = ttl_at s i k)"
proof -
  let ?v = "asked_cmd s c args cmd"
  note ok = srv_okD [OF reachable_ok [OF assms(1)]]
  obtain s' b where s': "processCommand procs (set_argv s c args) c = Some (s', b)" "v_process (asked s c args) c = Some (view_of s', b)"
    using process_view [OF assms(1,2)] by blast
  have env: "\<not> cluster_enabled (env s)" "maxmemory (env s) = 0" using ok(5) by (simp_all add: env_ok_def)
  have "refuse (v_srv ?v) c cmd = refuse (v_srv (asked s c args)) c cmd" by (rule refuse_setcmd)
  then have ref: "refuse (v_srv ?v) c cmd = None"
    using refuse_rep [OF rep_argv_set [OF ok(1)], of c args c cmd] assms(9) by simp
  have w: "view_of s' = v_put (v_queue ?v c) c shared_queued" "b"
    using s'(2) process_known [OF assms(2,5,4)] assms(3,6-8) env ref by (auto simp: v_known_def redirects_def)
  have "mstate (clients s' c) = queue_of (view_of s') c" by (simp add: fix_view_of cfix_fields)
  also have "\<dots> = mstate (clients s c) @ [(cmd, args)]"
    unfolding w(1) by (simp add: v_queue_def v_fix_client cfix_fields) (simp add: view_of_def client_view_def)
  finally have "mstate (clients s' c) = mstate (clients s c) @ [(cmd, args)]" .
  moreover have "sent s' c = answer s c shared_queued"
    using view_output(1) [of s' c] unfolding w(1) answer_def by (simp add: out_answer queue_out)
  ultimately show ?thesis using s'(1) w by (auto simp: v_queue_def)
qed

theorem multi_queues_witness:
  "\<exists>s' cmd. processCommand sample_procs (set_argv sample_multi 1 [bs ''set'', bs ''k'', bs ''v'']) 1 = Some (s', True) \<and>
     mstate (clients s' 1) = mstate (clients sample_multi 1) @ [(cmd, [bs ''set'', bs ''k'', bs ''v''])]"
proof -
  note m = sample_multi_ok
  obtain cmd where cmd: "commands (env sample_multi) (hd [bs ''set'', bs ''k'', bs ''v'']) = Some cmd" "cmd_proc cmd = P_set" "cmd_arity cmd = -3"
    using sample_lookups(2) m(2) by simp
  have "refuse (set_argv sample_multi 1 [bs ''set'', bs ''k'', bs ''v'']) 1 cmd = None"
    using m(2,4) cmd(2) by (simp add: set_argv_def upd_client_def refuse_def Let_def) (simp add: sample_env_def)
  from multi_queues [OF m(1,5,3) cmd(1) _ _ _ _ this] show ?thesis
    using m(2) cmd(2,3) sample_not_quit by (auto simp: queues_def bad_arity_def)
qed

text \<open>
  C15. A faulty request dooms the transaction it is part of: an unknown command or a wrong number of
  arguments inside \<open>MULTI\<close> is answered with an error, changes no key and sets the flag that makes \<open>EXEC\<close>
  abort.
\<close>

theorem faulty_request_dooms:
  assumes "reachable procs s" "fits_server s c args" "flag_multi (clients s c)" "strcasecmp (hd args) (bs ''quit'') \<noteq> 0"
    "\<And>cmd. commands (env s) (hd args) = Some cmd \<Longrightarrow> bad_arity cmd args"
  shows "\<exists>s'. processCommand procs (set_argv s c args) c = Some (s', True) \<and> turned_away s c s' \<and>
     flag_dirty_exec (clients s' c)"
proof -
  obtain s' b where s': "processCommand procs (set_argv s c args) c = Some (s', b)" "v_process (asked s c args) c = Some (view_of s', b)"
    using process_view [OF assms(1,2)] by blast
  have fl: "flag_dirty_exec (v_fix (v_put (v_flagT v c) c e) c)" if "flag_multi (v_fix v c)" for v e
    using that by (simp add: v_flagT_def v_fix_client cfix_fields)
  have d: "flag_dirty_exec (clients s' c) = flag_dirty_exec (v_fix (view_of s') c)" by (simp add: fix_view_of cfix_fields)
  have m: "flag_multi (v_fix (asked s c args) c)" using assms(3) by (simp add: v_fix_client cfix_fields fix_view_of)
  show ?thesis
  proof (cases "commands (env s) (hd args)")
    case None
    then have w: "v_put (v_flagT (asked s c args) c) c (error_format (unknown_command (hd args))) = view_of s'" "b"
      using s'(2) process_unknown [OF assms(2,4)] by simp_all
    then show ?thesis using s'(1) d fl [OF m] turned_away_views(2) [OF w(1)] by (metis is_error_simps(1))
  next
    case (Some cmd)
    then have w: "v_put (v_flagT (asked_cmd s c args cmd) c) c (error_format (wrong_arity cmd)) = view_of s'" "b"
      using s'(2) process_known [OF assms(2,4)] assms(5) by (simp_all add: v_known_def)
    have "flag_multi (v_fix (asked_cmd s c args cmd) c)" using assms(3) by simp
    then show ?thesis using s'(1) d fl turned_away_views(4) [OF w(1)] w by (metis is_error_simps(1))
  qed
qed

theorem faulty_request_dooms_witness:
  "\<exists>s'. processCommand sample_procs (set_argv sample_multi 1 [bs ''set'']) 1 = Some (s', True) \<and>
     turned_away sample_multi 1 s' \<and> flag_dirty_exec (clients s' 1)"
  by (rule faulty_request_dooms [OF sample_multi_ok(1,6,3)])
     (simp_all add: sample_multi_ok(2) sample_not_quit sample_lookups(2) bad_arity_def)

text \<open>
  C11. \<open>EXEC\<close> of a client that is marked runs nothing: whether a watched key has changed or a request
  of the transaction was faulty, no key changes; the answer is the null reply in the first case and an
  error in the second, and the client leaves \<open>MULTI\<close> with an empty queue and no watched keys.
\<close>

theorem exec_aborts:
  assumes "reachable procs s" "c \<in> set (client_list s)" "room (view_of s) (qsize (mstate (clients s c)))" "flag_multi (clients s c)"
    "flag_dirty_cas (clients s c) \<or> flag_dirty_exec (clients s c)"
  shows "\<exists>s'. execCommand procs s c = Some s' \<and>
     sent s' c = answer s c (if flag_dirty_exec (clients s c) then shared_execaborterr else shared_nullmultibulk) \<and>
     (\<forall>i k. value_at s' i k = value_at s i k \<and> ttl_at s' i k = ttl_at s i k) \<and>
     \<not> flag_multi (clients s' c) \<and> mstate (clients s' c) = [] \<and> w_keys (clients s' c) = []"
proof -
  let ?v = "view_of s"
  note ok = srv_okD [OF reachable_ok [OF assms(1)]]
  have inv: "vinv ?v c" using ok(2,3,6) assms(2) rep_client_list [OF ok(1)] by (simp add: vinv_def)
  have fx: "mstate (v_fix ?v c) = mstate (clients s c)" "flag_multi (v_fix ?v c) = flag_multi (clients s c)"
    "flag_dirty_exec (v_fix ?v c) = flag_dirty_exec (clients s c)" by (simp_all add: fix_view_of cfix_fields)
  have cas: "flag_dirty_cas (clients (v_srv ?v) c) = flag_dirty_cas (clients s c)"
    using marked_view_of [of s c] by (simp add: marked_def)
  have q: "queue_ok (mstate (v_fix ?v c))" using ok(4) by (simp add: queues_ok_def)
  obtain s' w where s': "execCommand procs s c = Some s'" "v_exec ?v c = Some w" "rep s' w"
    using execCommand_ref [OF ok(1) inv q, of procs] assms(3) fx(1) by (auto simp: wp_def)
  let ?b = "if flag_dirty_exec (clients s c) then shared_execaborterr else shared_nullmultibulk"
  have w: "view_of s' = v_lift (\<lambda>s. handle_monitor s c) (v_discardT (v_put ?v c ?b) c)"
    using s'(2) rep_view_of [OF s'(3)] assms(4,5) fx cas by (auto simp: v_exec_def)
  have fin: "flag_multi (clients s' c) = flag_multi (v_fix (view_of s') c)" "mstate (clients s' c) = queue_of (view_of s') c"
    "w_keys (clients s' c) = w_keys (v_fix (view_of s') c)" by (simp_all add: fix_view_of cfix_fields)
  have "sent s' c = answer s c ?b"
    using view_output [of s c] view_output(1) [of s' c] unfolding w answer_def by (simp add: out_answer)
  moreover have "\<not> flag_multi (clients s' c)" "mstate (clients s' c) = []" "w_keys (clients s' c) = []"
    unfolding fin w
    by (simp_all add: v_fix_def handle_monitor_frame v_discardT_def v_unwatch_keys_def v_dropq_def cfix_fields)
  moreover have "value_at s' i k = value_at s i k \<and> ttl_at s' i k = ttl_at s i k" for i k
    unfolding w by (simp add: v_discardT_def v_unwatch_keys_def v_dropq_def)
  ultimately show ?thesis using s'(1) by blast
qed
text \<open>The state after a faulty request inside \<open>MULTI\<close>.\<close>

definition sample_doomed :: redisServer where
  "sample_doomed = fst (the (processCommand sample_procs (set_argv sample_multi 1 [bs ''set'']) 1))"

lemma sample_doomed_ok:
  "reachable sample_procs sample_doomed" "flag_multi (clients sample_doomed 1)" "flag_dirty_exec (clients sample_doomed 1)"
  "1 \<in> set (client_list sample_doomed)" "room (view_of sample_doomed) (qsize (mstate (clients sample_doomed 1)))"
proof -
  note m = sample_multi_ok
  obtain cmd where cmd: "commands (env sample_multi) (hd [bs ''set'']) = Some cmd" "cmd_arity cmd = -3"
    using sample_lookups(2) m(2) by simp
  obtain s' b where s': "processCommand sample_procs (set_argv sample_multi 1 [bs ''set'']) 1 = Some (s', b)"
      "reachable sample_procs s'" "v_process (asked sample_multi 1 [bs ''set'']) 1 = Some (view_of s', b)"
    using process_view [OF m(1,6)] by blast
  let ?v = "asked_cmd sample_multi 1 [bs ''set''] cmd"
  have e: "sample_doomed = s'" using s'(1) by (simp add: sample_doomed_def)
  have w: "view_of s' = v_put (v_flagT ?v 1) 1 (error_format (wrong_arity cmd))"
    using s'(3) process_known [OF m(6) _ cmd(1)] sample_not_quit cmd(2) by (simp add: v_known_def bad_arity_def)
  have f: "v_flagT ?v 1 = v_client ?v 1 (\<lambda>cl. cl\<lparr>flag_dirty_exec := True\<rparr>)" using m(3) by (simp add: v_flagT_def)
  have fx: "flag_multi (clients s' 1) = flag_multi (v_fix (view_of s') 1)"
    "flag_dirty_exec (clients s' 1) = flag_dirty_exec (v_fix (view_of s') 1)" "mstate (clients s' 1) = queue_of (view_of s') 1"
    "client_list s' = client_list (v_srv (view_of s'))"
    by (simp_all add: fix_view_of cfix_fields)
  show "reachable sample_procs sample_doomed" using e s'(2) by simp
  have "flag_multi (clients (v_srv (view_of sample_multi)) 1)" using m(3) by (simp add: fix_view_of cfix_fields)
  then show "flag_multi (clients sample_doomed 1)" "flag_dirty_exec (clients sample_doomed 1)"
    unfolding e fx w f by (simp_all add: v_fix_client cfix_fields)
  have "client_list (v_srv (view_of sample_multi)) = client_list sample_multi" by (simp add: view_of_def)
  then show "1 \<in> set (client_list sample_doomed)" unfolding e fx w f using m(6) by (simp add: fits_server_def)
  have "room (view_of s') n = room (view_of sample_multi) n" for n unfolding w f by (simp add: room_def v_fits_def v_wfits_def)
  moreover have "mstate (clients s' 1) = mstate (clients sample_multi 1)"
    unfolding fx w f by (simp add: queue_client)
  ultimately show "room (view_of sample_doomed) (qsize (mstate (clients sample_doomed 1)))"
    using m(6) unfolding e by (simp add: fits_server_def)
qed

theorem exec_aborts_witness:
  "\<exists>s'. execCommand sample_procs sample_doomed 1 = Some s' \<and> sent s' 1 = answer sample_doomed 1 shared_execaborterr \<and>
     \<not> flag_multi (clients s' 1)"
  using exec_aborts [OF sample_doomed_ok(1,4,5,2)] sample_doomed_ok(3) by auto

text \<open>
  C2. A watched key is a lock. Let a client watch a key, and let other clients connect and send any
  requests, transactions included, that do not involve \<open>MOVE\<close>, \<open>PERSIST\<close> or \<open>SWAPDB\<close>, while time passes
  and the configuration changes. Afterwards the watching client is marked, so that its \<open>EXEC\<close> runs
  nothing, or the key has the value and the time to live it had, or it has gone because its time has
  passed.
\<close>

theorem watched_keys_guarded:
  assumes "reachable procs s" "(k, i) \<in> set (w_keys (clients s d))" "others procs d s t"
  shows "flag_dirty_cas (clients t d) \<or>
     value_at t i k = value_at s i k \<and> (value_at s i k \<noteq> None \<longrightarrow> ttl_at t i k = ttl_at s i k) \<or>
     value_at t i k = None \<and> (\<exists>e. ttl_at s i k = Some e \<and> e < v_now (view_of t))"
proof -
  note ok = reachable_ok [OF assms(1)]
  have "tracks d (view_of s) (view_of t)" using others_track [OF assms(3) ok] by blast
  moreover have "watches (view_of s) d i k"
    using srv_okD(3) [OF ok] assms(2) by (simp add: watch_ok_def fix_view_of cfix_fields)
  ultimately show ?thesis unfolding tracks_def same_at_def outdated_def marked_view_of by blast
qed

text \<open>The state after the first client has watched a key.\<close>

definition sample_watch :: redisServer where
  "sample_watch = fst (the (processCommand sample_procs (set_argv (sample_on sample_env) 1 [bs ''watch'', bs ''k'']) 1))"

lemma sample_watch_fits: "fits_server (sample_on sample_env) 1 [bs ''watch'', bs ''k'']"
  by (simp add: fits_server_def sample_lookups(4) needs_def offset_ok_def args_ok_def qsize_def) (simp add: bs_def)

lemma sample_watch_ok:
  "reachable sample_procs sample_watch" "(bs ''k'', 0) \<in> set (w_keys (clients sample_watch 1))" "env sample_watch = sample_env"
  "fits_server sample_watch 2 [bs ''set'', bs ''k'', bs ''v'']" "request_signals sample_watch 2 [bs ''set'', bs ''k'', bs ''v'']"
proof -
  let ?args = "[bs ''watch'', bs ''k'']"
  obtain cmd where cmd: "sample_lookup (hd ?args) = Some cmd" "cmd_proc cmd = P_watch" "cmd_arity cmd = -2"
    using sample_lookups(4) by simp
  let ?v = "asked_cmd (sample_on sample_env) 1 ?args cmd"
  let ?b = "v_before ?v 1"
  let ?w = "v_put (v_client (v_setwk ?b 0 (bs ''k'') (Some [1])) 1 (\<lambda>cl. cl\<lparr>w_keys := w_keys cl @ [(bs ''k'', 0)]\<rparr>)) 1 shared_ok"
  note r = sample_runs [OF sample_watch_fits cmd(1) _ _ _ sample_watch_def]
  show "reachable sample_procs sample_watch" using r(1) cmd sample_not_quit by (simp add: bad_arity_def)
  have b: "\<not> flag_multi (v_fix ?b 1)" "v_db ?b 1 = 0" "w_keys (v_fix ?b 1) = []"
    using lift_flags [of "\<lambda>s. call_before s 1" ?v 1] noprop_fields(2) [OF call_before_frame(4) [of "v_srv ?v" 1 1]]
    by (simp_all add: call_before_frame before_keeps v_fix_client fix_view_of cfix_fields) (simp add: v_fix_def cfix_fields fix_view_of)
  then have "v_proc P_watch ?b 1 = Some ?w"
    by (simp add: v_proc_def v_run_def v_basic_def v_watch_def v_watchKey_def before_keeps)
  then have view: "view_of sample_watch = v_call (v_after ?v 1 CMD_CALL_FULL ?w) HandleReadyLists"
    using r(2) cmd sample_not_quit by (simp add: bad_arity_def)
  show env: "env sample_watch = sample_env"
    using view_env [of sample_watch] unfolding view by (simp add: call_before_frame)
  have "v_wk (view_of sample_watch) 0 (bs ''k'') = Some [1]" unfolding view by simp
  then have "1 \<in> set (watchers (view_of sample_watch) 0 (bs ''k''))" by (simp add: watchers_def)
  then show "(bs ''k'', 0) \<in> set (w_keys (clients sample_watch 1))"
    using srv_okD(3) [OF reachable_ok [OF r(1)]] cmd sample_not_quit
    by (simp add: bad_arity_def watch_ok_def fix_view_of cfix_fields)
  have "mstate (clients sample_watch 2) = queue_of (view_of sample_watch) 2" by (simp add: fix_view_of cfix_fields)
  then have q: "mstate (clients sample_watch 2) = []"
    unfolding view by (simp add: after_keeps queue_client before_keeps)
  have "client_list sample_watch = client_list (v_srv (view_of sample_watch))" by (simp add: view_of_def)
  then have cl: "client_list sample_watch = [1, 2]"
    unfolding view by (simp add: v_after_def call_after_frame call_before_frame) (simp add: view_of_def)
  have "dom (v_kv (view_of sample_watch) i) = {}" "dom (v_wk (view_of sample_watch) i) \<subseteq> {bs ''k''}" for i
    unfolding view by (auto simp: dom_def split: if_splits)
  then have d: "card (dom (v_kv (view_of sample_watch) i)) \<le> 1" "card (dom (v_wk (view_of sample_watch) i)) \<le> 1" for i
    using card_mono [of "{bs ''k''}" "dom (v_wk (view_of sample_watch) i)"] by simp_all
  have "room (view_of sample_watch) n" if "n < 2 ^ 57" for n
    using that d le_less_trans [OF add_right_mono [OF d(1)]] le_less_trans [OF add_right_mono [OF d(2)]]
    by (auto simp: room_def v_fits_def v_wfits_def)
  then show "fits_server sample_watch 2 [bs ''set'', bs ''k'', bs ''v'']"
    using q cl env by (simp add: fits_server_def sample_lookups(2) needs_def offset_ok_def args_ok_def qsize_def) (simp add: bs_def)
  show "request_signals sample_watch 2 [bs ''set'', bs ''k'', bs ''v'']"
    using q env by (simp add: request_signals_def sample_lookups(2) signals_def queue_signals_def)
qed

theorem reachable_watchers_agree_witness:
  "(bs ''k'', 0) \<in> set (w_keys (clients sample_watch 1)) \<and> 1 \<in> set (watchers (view_of sample_watch) 0 (bs ''k'')) \<and>
     distinct (watchers (view_of sample_watch) 0 (bs ''k''))"
  using reachable_watchers_agree [OF sample_watch_ok(1), of "bs ''k''" 0 1] sample_watch_ok(2) by simp

theorem watched_keys_guarded_witness:
  "\<exists>t b. processCommand sample_procs (set_argv sample_watch 2 [bs ''set'', bs ''k'', bs ''v'']) 2 = Some (t, b) \<and>
     (flag_dirty_cas (clients t 1) \<or>
      value_at t 0 (bs ''k'') = value_at sample_watch 0 (bs ''k'') \<and>
        (value_at sample_watch 0 (bs ''k'') = None \<or> ttl_at t 0 (bs ''k'') = ttl_at sample_watch 0 (bs ''k'')) \<or>
      value_at t 0 (bs ''k'') = None \<and> (\<exists>e. ttl_at sample_watch 0 (bs ''k'') = Some e \<and> e < v_now (view_of t)))"
proof -
  note w = sample_watch_ok
  obtain t b where t: "processCommand sample_procs (set_argv sample_watch 2 [bs ''set'', bs ''k'', bs ''v'']) 2 = Some (t, b)"
    using process_view [OF w(1,4)] by blast
  have "others sample_procs 1 sample_watch t" by (rule others.request [OF others.none w(4,5) _ t]) simp
  then show ?thesis using watched_keys_guarded [OF w(1,2)] t by blast
qed

section \<open>Keys that a request does not name\<close>

text \<open>
  C16. A command on keys touches only the keys it names: whatever a request for it does (run, wait in a
  queue, be refused), a key that is not among its arguments keeps its value and its time to live in
  every database.
\<close>

theorem request_keeps_other_keys:
  assumes "reachable procs s" "fits_server s c args" "commands (env s) (hd args) = Some cmd" "on_keys (cmd_proc cmd)"
    "cmd_proc cmd \<noteq> P_exec" "k \<notin> set (tl args)"
  shows "\<exists>s' b. processCommand procs (set_argv s c args) c = Some (s', b) \<and>
     (\<forall>i. value_at s' i k = value_at s i k \<and> ttl_at s' i k = ttl_at s i k)"
proof -
  let ?v = "asked_cmd s c args cmd"
  note ok = srv_okD [OF reachable_ok [OF assms(1)]]
  obtain s' b where s': "processCommand procs (set_argv s c args) c = Some (s', b)" "v_process (asked s c args) c = Some (view_of s', b)"
    using process_view [OF assms(1,2)] by blast
  have run: "v_kv w i k = value_at s i k \<and> v_ttl w i k = ttl_at s i k"
    if call: "v_call_with v_proc ?v c CMD_CALL_FULL = Some w" for w i
  proof -
    obtain w' where w': "v_basic (cmd_proc cmd) (v_before ?v c) c (tl args) = Some w'" "w = v_after ?v c CMD_CALL_FULL w'"
      using call assms(5) by (auto simp: v_call_with_def v_proc_def v_run_def before_keeps)
    have "vok (v_before ?v c)" using ok(2) by (simp add: before_keeps client_keeps)
    moreover have "args_ok (tl args)" using assms(2) by (simp add: fits_server_def)
    ultimately have "vsteps (set (tl args)) (v_before ?v c) w'" using basic_vsteps assms(4) w'(1) by blast
    then show ?thesis using vsteps_other_keys [OF _ assms(6)] w'(2) by simp
  qed
  have "value_at s' i k = value_at s i k \<and> ttl_at s' i k = ttl_at s i k" for i
  proof (cases "strcasecmp (hd args) (bs ''quit'') = 0")
    case True
    then have "view_of s' = v_client (v_put (asked s c args) c shared_ok) c (\<lambda>cl. cl\<lparr>flag_close_after_reply := True\<rparr>)"
      using s'(2) process_quit [OF assms(2)] by simp
    then show ?thesis by simp
  next
    case False
    then have "v_known ?v c cmd = Some (view_of s', b)" using s'(2) process_known [OF assms(2) _ assms(3)] by simp
    then show ?thesis using known_same [of ?v c cmd "view_of s'" b i k] run by simp
  qed
  then show ?thesis using s'(1) by blast
qed

theorem request_keeps_other_keys_witness:
  "\<exists>s' b. processCommand sample_procs (set_argv (sample_on sample_env) 1 [bs ''set'', bs ''k'', bs ''v'']) 1 = Some (s', b) \<and>
     (\<forall>i. value_at s' i (bs ''other'') = value_at (sample_on sample_env) i (bs ''other'') \<and>
       ttl_at s' i (bs ''other'') = ttl_at (sample_on sample_env) i (bs ''other''))"
proof -
  obtain cmd where cmd: "commands (env (sample_on sample_env)) (hd [bs ''set'', bs ''k'', bs ''v'']) = Some cmd" "cmd_proc cmd = P_set"
    using sample_lookups(2) by simp
  show ?thesis
    by (rule request_keeps_other_keys [OF sample_ok(1) sample_set_fits cmd(1)]) (simp_all add: cmd(2) on_keys_def bs_def)
qed

section \<open>The command table\<close>

text \<open>
  C24. The arities of the command table protect the commands. Every command a server finds was loaded
  from \<open>redisCommandTable\<close>. A request with a wrong number of arguments is answered with the error that says so and
  changes nothing; with a right number, the command, were it called at once, returns, so that it reads no
  argument that is not there.
\<close>

theorem arity_protects:
  assumes "reachable procs s" "fits_server s c args" "strcasecmp (hd args) (bs ''quit'') \<noteq> 0"
    "commands (env s) (hd args) = Some cmd"
  shows "(\<exists>tab. populateCommandTable = Some tab \<and> cmd \<in> set tab) \<and>
     (if (cmd_arity cmd > 0 \<and> cmd_arity cmd \<noteq> int (length args)) \<or> int (length args) < - cmd_arity cmd
      then \<exists>s'. processCommand procs (set_argv s c args) c = Some (s', True) \<and> turned_away s c s' \<and>
        sent s' c = answer s c (error_format (wrong_arity cmd))
      else cmd_proc cmd = P_exec \<or> (\<exists>s'. basic_proc procs (cmd_proc cmd) (set_argv s c args) c = Some s'))"
proof -
  note srv = reachable_ok [OF assms(1)]
  note ok = srv_okD [OF srv]
  have fits: "cmd_proc cmd = P_exec \<or> needs (cmd_proc cmd) \<noteq> None" "ready s c (cmd_proc cmd) (tl args) 0"
    using assms(2,4) room_le [of "view_of s" "length args" "length (tl args)"] by (auto simp: fits_server_def ready_def)
  have "\<exists>tab. populateCommandTable = Some tab \<and> cmd \<in> set tab" using ok(5) assms(4) by (auto simp: env_ok_def)
  moreover have "\<exists>s'. processCommand procs (set_argv s c args) c = Some (s', True) \<and> turned_away s c s' \<and>
      sent s' c = answer s c (error_format (wrong_arity cmd))" if bad: "bad_arity cmd args"
  proof -
    let ?w = "v_put (v_flagT (asked_cmd s c args cmd) c) c (error_format (wrong_arity cmd))"
    obtain s' where s': "processCommand procs (set_argv s c args) c = Some (s', True)" "?w = view_of s'"
      using process_view [OF assms(1,2)] process_known [OF assms(2-4)] bad by (auto simp: v_known_def)
    have "sent s' c = answer s c (error_format (wrong_arity cmd))"
      using view_output(1) [of s' c] unfolding s'(2) [symmetric] answer_def by (simp add: out_answer)
    then show ?thesis using s'(1) turned_away_views(4) [OF s'(2)] by auto
  qed
  moreover have "\<exists>s'. basic_proc procs (cmd_proc cmd) (set_argv s c args) c = Some s'"
    if "\<not> bad_arity cmd args" "cmd_proc cmd \<noteq> P_exec"
  proof -
    have "modelled (cmd_proc cmd) (tl args)"
      using arity_modelled [OF env_arity [OF ok(5) assms(4)] that(1)] fits(1) that(2) by blast
    then obtain w where "v_basic (cmd_proc cmd) (asked s c (hd args # tl args)) c (tl args) = Some w" using v_basic_defined by blast
    then show ?thesis using run_command [OF srv fits(2), of "hd args" w procs] fits_cons [OF assms(2)] by metis
  qed
  ultimately show ?thesis unfolding bad_arity_def by auto
qed

theorem arity_protects_witness:
  "\<exists>s' cmd. sample_lookup (bs ''set'') = Some cmd \<and>
     processCommand sample_procs (set_argv sample_multi 1 [bs ''set'']) 1 = Some (s', True) \<and>
     sent s' 1 = answer sample_multi 1 (error_format (wrong_arity cmd))"
proof -
  obtain cmd where cmd: "sample_lookup (bs ''set'') = Some cmd" "cmd_arity cmd = -3" using sample_lookups(2) by simp
  show ?thesis
    using arity_protects [OF sample_multi_ok(1,6), of cmd] sample_multi_ok(2) sample_not_quit(1) cmd by auto
qed

end
